(* ===== verification/Prelude.thy ===== *)
theory Prelude
  imports Main "HOL-Library.Word" "HOL-Library.Char_ord" "HOL-Library.List_Lexorder"
    "HOL-Library.Signed_Division"
begin

text \<open>
  Shared vocabulary of the development. The fixed-width integers of the C++ sources are words,
  \<open>std::string\<close> is \<^typ>\<open>string\<close> (a list of bytes), \<open>std::unordered_map\<close> and \<open>std::map\<close> are
  partial maps, \<open>std::unordered_set\<close> is a set. The theory collects the generic facts on lists,
  maps, finite sets and words that several components use, and declares the collections of
  rewrite rules the component theories fill.
\<close>

section \<open>Types\<close>

type_synonym int8 = "8 word"
type_synonym int32 = "32 word"
type_synonym int64 = "64 word"
type_synonym uint32 = "32 word"
type_synonym uint64 = "64 word"

section \<open>Collections of rewrite rules\<close>

named_theorems wire_simps \<open>decoders applied to the output of the matching encoder\<close>
named_theorems tree_simps \<open>how an operation of the store changes the container\<close>
named_theorems frame_simps \<open>the fields an operation leaves unchanged\<close>

section \<open>Lists\<close>

lemma takeWhile_sorted_filter:
  "sorted xs \<Longrightarrow> takeWhile (\<lambda>x. x \<le> b) xs = filter (\<lambda>x. x \<le> b) xs"
proof (induction xs)
  case Nil
  then show ?case by simp
next
  case (Cons x xs)
  show ?case
  proof (cases "x \<le> b")
    case True
    with Cons show ?thesis by simp
  next
    case False
    with Cons.prems have "\<forall>y\<in>set xs. \<not> y \<le> b" by fastforce
    with False show ?thesis by (simp add: filter_empty_conv)
  qed
qed

lemma dropWhile_dropWhile_id [simp]: "dropWhile P (dropWhile P xs) = dropWhile P xs"
  by (induction xs) auto

lemma removeAll_eq_Nil_iff: "removeAll x xs = [] \<longleftrightarrow> set xs \<subseteq> {x}"
  by (induction xs) auto

section \<open>Maps and finite sets\<close>

lemma map_upd_idem: "m k = Some v \<Longrightarrow> m(k \<mapsto> v) = m"
  by (auto simp: fun_eq_iff)

lemma map_upd_upd_restore: "m k = Some v \<Longrightarrow> (m(k \<mapsto> w))(k \<mapsto> v) = m"
  by (auto simp: fun_eq_iff)

lemma map_upd_del_fresh: "m k = None \<Longrightarrow> (m(k \<mapsto> v))(k := None) = m"
  by (auto simp: fun_eq_iff)

lemma of_nat_card_insert:
  "finite A \<Longrightarrow> x \<notin> A \<Longrightarrow> of_nat (card (insert x A)) = (of_nat (card A) + 1 :: 'a :: semiring_1)"
  by (simp add: add.commute)

lemma of_nat_card_remove:
  assumes "finite A" and "x \<in> A"
  shows "of_nat (card (A - {x})) = (of_nat (card A) - 1 :: 'a :: ring_1)"
proof -
  have "card A = Suc (card (A - {x}))"
    using assms by (metis card.remove)
  then show ?thesis by simp
qed

section \<open>Signed readings of words\<close>

lemma sint_add_no_overflow:
  fixes a b :: int64
  assumes "- (2 ^ 63) \<le> sint a + sint b" and "sint a + sint b < 2 ^ 63"
  shows "sint (a + b) = sint a + sint b"
  using assms by (simp add: sint_word_ariths signed_take_bit_int_eq_self)

lemma sint_mult_no_overflow:
  fixes a b :: int64
  assumes "- (2 ^ 63) \<le> sint a * sint b" and "sint a * sint b < 2 ^ 63"
  shows "sint (a * b) = sint a * sint b"
  using assms by (simp add: sint_word_ariths signed_take_bit_int_eq_self)

lemma sint_word_of_int_no_overflow:
  assumes "- (2 ^ 63) \<le> k" and "k < 2 ^ 63"
  shows "sint (word_of_int k :: int64) = k"
  using assms by (simp add: sint_sbintrunc' signed_take_bit_int_eq_self)

lemma find_SomeD: "List.find P xs = Some x \<Longrightarrow> P x \<and> x \<in> set xs"
  by (induction xs) (auto split: if_splits)

section \<open>Ordered maps\<close>

text \<open>
  The keys of a \<open>std::map\<close> with \<open>int64_t\<close> keys in the order of its iteration, that of the signed
  values.
\<close>

definition sorted_keys :: "(int64 \<rightharpoonup> 'a) \<Rightarrow> int64 list" where
  "sorted_keys m = map word_of_int (sorted_list_of_set (sint ` dom m))"

lemma set_sorted_keys [simp]: "finite (dom m) \<Longrightarrow> set (sorted_keys m) = dom m"
  by (auto simp: sorted_keys_def image_iff)

lemma distinct_sorted_keys [simp]: "distinct (sorted_keys m)"
proof (cases "finite (dom m)")
  case True
  then show ?thesis
    by (auto simp: sorted_keys_def distinct_map inj_on_def)
qed (auto simp: sorted_keys_def)

lemma sorted_sorted_keys:
  assumes "finite (dom m)"
  shows "sorted (map sint (sorted_keys m))"
proof -
  have "map sint (sorted_keys m) = sorted_list_of_set (sint ` dom m)"
    using assms by (auto simp: sorted_keys_def intro!: map_idI)
  then show ?thesis by simp
qed

text \<open>The iteration order of a hash set is unspecified: any enumeration of its elements.\<close>

definition enumerates :: "('a set \<Rightarrow> 'a list) \<Rightarrow> bool" where
  "enumerates ord \<longleftrightarrow> (\<forall>S. finite S \<longrightarrow> set (ord S) = S \<and> distinct (ord S))"

lemma enumeratesD:
  assumes "enumerates ord" "finite S"
  shows "set (ord S) = S" "distinct (ord S)"
  using assms by (auto simp: enumerates_def)

end
