(* ===== verification/Coordination.thy ===== *)
theory Coordination
  imports Prelude
begin

text \<open>
  The coordination data types of \<open>src/src/Common/ZooKeeper\<close>: the access control entries, the node
  statistics, the error codes and the operation numbers of \<open>IKeeper.h\<close> and
  \<open>ZooKeeperConstants.h\<close>, the requests and responses of \<open>ZooKeeperCommon.h\<close> with their virtual
  accessors, and the root path helpers of \<open>IKeeper.cpp\<close>. A C++ exception is a value of \<open>exc\<close>,
  returned on the left of a sum.
\<close>

section \<open>Access control, statistics\<close>

record ACL =
  permissions :: int32
  scheme :: string
  ident :: string

definition ACL_Read :: int32 where "ACL_Read = 1"
definition ACL_Write :: int32 where "ACL_Write = 2"
definition ACL_Create :: int32 where "ACL_Create = 4"
definition ACL_Delete :: int32 where "ACL_Delete = 8"
definition ACL_Admin :: int32 where "ACL_Admin = 16"
definition ACL_All :: int32 where "ACL_All = 0x1F"

lemmas ACL_permission_defs =
  ACL_Read_def ACL_Write_def ACL_Create_def ACL_Delete_def ACL_Admin_def ACL_All_def

type_synonym ACLs = "ACL list"

record AuthID =
  auth_scheme :: string
  auth_ident :: string

type_synonym AuthIDs = "AuthID list"

record Stat =
  czxid :: int64
  mzxid :: int64
  ctime :: int64
  mtime :: int64
  version :: int32
  cversion :: int32
  aversion :: int32
  ephemeralOwner :: int64
  dataLength :: int32
  numChildren :: int32
  pzxid :: int64

definition zero_stat :: Stat where
  "zero_stat = \<lparr>czxid = 0, mzxid = 0, ctime = 0, mtime = 0, version = 0, cversion = 0,
     aversion = 0, ephemeralOwner = 0, dataLength = 0, numChildren = 0, pzxid = 0\<rparr>"

section \<open>Error codes\<close>

text \<open>
  \<open>enum class Error : int32_t\<close>. A C++ enumeration with a fixed underlying type can hold every
  value of that type, and \<open>read(Error &)\<close> casts whatever it reads: \<open>ZUNNAMED\<close> is such a value.
\<close>

datatype Error =
    ZOK | ZSYSTEMERROR | ZRUNTIMEINCONSISTENCY | ZDATAINCONSISTENCY | ZCONNECTIONLOSS
  | ZMARSHALLINGERROR | ZUNIMPLEMENTED | ZOPERATIONTIMEOUT | ZBADARGUMENTS | ZINVALIDSTATE
  | ZAPIERROR | ZNONODE | ZNOAUTH | ZBADVERSION | ZNOCHILDRENFOREPHEMERALS | ZNODEEXISTS
  | ZNOTEMPTY | ZSESSIONEXPIRED | ZINVALIDCALLBACK | ZINVALIDACL | ZAUTHFAILED | ZCLOSING
  | ZNOTHING | ZSESSIONMOVED | ZUNNAMED int32

fun error_code :: "Error \<Rightarrow> int32" where
  "error_code ZOK = 0"
| "error_code ZSYSTEMERROR = -1"
| "error_code ZRUNTIMEINCONSISTENCY = -2"
| "error_code ZDATAINCONSISTENCY = -3"
| "error_code ZCONNECTIONLOSS = -4"
| "error_code ZMARSHALLINGERROR = -5"
| "error_code ZUNIMPLEMENTED = -6"
| "error_code ZOPERATIONTIMEOUT = -7"
| "error_code ZBADARGUMENTS = -8"
| "error_code ZINVALIDSTATE = -9"
| "error_code ZAPIERROR = -100"
| "error_code ZNONODE = -101"
| "error_code ZNOAUTH = -102"
| "error_code ZBADVERSION = -103"
| "error_code ZNOCHILDRENFOREPHEMERALS = -108"
| "error_code ZNODEEXISTS = -110"
| "error_code ZNOTEMPTY = -111"
| "error_code ZSESSIONEXPIRED = -112"
| "error_code ZINVALIDCALLBACK = -113"
| "error_code ZINVALIDACL = -114"
| "error_code ZAUTHFAILED = -115"
| "error_code ZCLOSING = -116"
| "error_code ZNOTHING = -117"
| "error_code ZSESSIONMOVED = -118"
| "error_code (ZUNNAMED c) = c"

definition named_errors :: "Error list" where
  "named_errors =
     [ZOK, ZSYSTEMERROR, ZRUNTIMEINCONSISTENCY, ZDATAINCONSISTENCY, ZCONNECTIONLOSS,
      ZMARSHALLINGERROR, ZUNIMPLEMENTED, ZOPERATIONTIMEOUT, ZBADARGUMENTS, ZINVALIDSTATE,
      ZAPIERROR, ZNONODE, ZNOAUTH, ZBADVERSION, ZNOCHILDRENFOREPHEMERALS, ZNODEEXISTS,
      ZNOTEMPTY, ZSESSIONEXPIRED, ZINVALIDCALLBACK, ZINVALIDACL, ZAUTHFAILED, ZCLOSING,
      ZNOTHING, ZSESSIONMOVED]"

definition error_of_code :: "int32 \<Rightarrow> Error" where
  "error_of_code c =
     (case List.find (\<lambda>e. error_code e = c) named_errors of Some e \<Rightarrow> e | None \<Rightarrow> ZUNNAMED c)"

text \<open>
  \<open>errorMessage\<close> ends in \<open>__builtin_unreachable\<close> for an unnamed value, so it is partial here.
\<close>

fun errorMessage :: "Error \<Rightarrow> string option" where
  "errorMessage ZOK = Some ''Ok''"
| "errorMessage ZSYSTEMERROR = Some ''System error''"
| "errorMessage ZRUNTIMEINCONSISTENCY = Some ''Run time inconsistency''"
| "errorMessage ZDATAINCONSISTENCY = Some ''Data inconsistency''"
| "errorMessage ZCONNECTIONLOSS = Some ''Connection loss''"
| "errorMessage ZMARSHALLINGERROR = Some ''Marshalling error''"
| "errorMessage ZUNIMPLEMENTED = Some ''Unimplemented''"
| "errorMessage ZOPERATIONTIMEOUT = Some ''Operation timeout''"
| "errorMessage ZBADARGUMENTS = Some ''Bad arguments''"
| "errorMessage ZINVALIDSTATE = Some ''Invalid zhandle state''"
| "errorMessage ZAPIERROR = Some ''API error''"
| "errorMessage ZNONODE = Some ''No node''"
| "errorMessage ZNOAUTH = Some ''Not authenticated''"
| "errorMessage ZBADVERSION = Some ''Bad version''"
| "errorMessage ZNOCHILDRENFOREPHEMERALS = Some ''No children for ephemerals''"
| "errorMessage ZNODEEXISTS = Some ''Node exists''"
| "errorMessage ZNOTEMPTY = Some ''Not empty''"
| "errorMessage ZSESSIONEXPIRED = Some ''Session expired''"
| "errorMessage ZINVALIDCALLBACK = Some ''Invalid callback''"
| "errorMessage ZINVALIDACL = Some ''Invalid ACL''"
| "errorMessage ZAUTHFAILED = Some ''Authentication failed''"
| "errorMessage ZCLOSING = Some ''ZooKeeper is closing''"
| "errorMessage ZNOTHING = Some ''(not error) no server responses to process''"
| "errorMessage ZSESSIONMOVED = Some ''Session moved to another server, so operation is ignored''"
| "errorMessage (ZUNNAMED c) = None"

definition isHardwareError :: "Error \<Rightarrow> bool" where
  "isHardwareError e \<longleftrightarrow> e = ZINVALIDSTATE \<or> e = ZSESSIONEXPIRED \<or> e = ZSESSIONMOVED
     \<or> e = ZCONNECTIONLOSS \<or> e = ZMARSHALLINGERROR \<or> e = ZOPERATIONTIMEOUT"

definition isUserError :: "Error \<Rightarrow> bool" where
  "isUserError e \<longleftrightarrow> e = ZNONODE \<or> e = ZBADVERSION \<or> e = ZNOCHILDRENFOREPHEMERALS
     \<or> e = ZNODEEXISTS \<or> e = ZNOTEMPTY"

section \<open>Exceptions\<close>

text \<open>
  What the modelled code throws: a \<open>Coordination::Exception\<close> with its code, an \<open>RK::Exception\<close>
  with one of the error codes the sources use, and \<open>NULL_DEREFERENCE\<close> where the code follows a
  null \<open>shared_ptr\<close> (undefined behaviour, in practice a crash).
\<close>

datatype exc =
    KEEPER_EXCEPTION Error
  | LOGICAL_ERROR
  | BAD_ARGUMENTS
  | CANNOT_READ_ALL_DATA
  | NULL_DEREFERENCE

section \<open>Operation numbers\<close>

datatype OpNum =
    Op_Close | Op_Error | Op_Create | Op_Remove | Op_Exists | Op_Get | Op_Set | Op_GetACL
  | Op_SetACL | Op_SimpleList | Op_Sync | Op_Heartbeat | Op_List | Op_Check | Op_Multi
  | Op_Auth | Op_SetWatches | Op_SetSeqNum | Op_SessionID

fun op_code :: "OpNum \<Rightarrow> int32" where
  "op_code Op_Close = -11"
| "op_code Op_Error = -1"
| "op_code Op_Create = 1"
| "op_code Op_Remove = 2"
| "op_code Op_Exists = 3"
| "op_code Op_Get = 4"
| "op_code Op_Set = 5"
| "op_code Op_GetACL = 6"
| "op_code Op_SetACL = 7"
| "op_code Op_SimpleList = 8"
| "op_code Op_Sync = 9"
| "op_code Op_Heartbeat = 11"
| "op_code Op_List = 12"
| "op_code Op_Check = 13"
| "op_code Op_Multi = 14"
| "op_code Op_Auth = 100"
| "op_code Op_SetWatches = 101"
| "op_code Op_SetSeqNum = 200"
| "op_code Op_SessionID = 997"

definition VALID_OPERATIONS :: "OpNum list" where
  "VALID_OPERATIONS =
     [Op_Close, Op_Error, Op_Create, Op_Remove, Op_Exists, Op_Get, Op_Set, Op_SimpleList,
      Op_Sync, Op_Heartbeat, Op_List, Op_Check, Op_Multi, Op_Auth, Op_SetSeqNum, Op_SessionID,
      Op_SetWatches, Op_SetACL, Op_GetACL]"

definition getOpNum_of_raw :: "int32 \<Rightarrow> exc + OpNum" where
  "getOpNum_of_raw raw =
     (case List.find (\<lambda>o'. op_code o' = raw) VALID_OPERATIONS of
        None \<Rightarrow> Inl (KEEPER_EXCEPTION ZUNIMPLEMENTED) | Some o' \<Rightarrow> Inr o')"

fun op_toString :: "OpNum \<Rightarrow> string" where
  "op_toString Op_Close = ''Close''"
| "op_toString Op_Error = ''Error''"
| "op_toString Op_Create = ''Create''"
| "op_toString Op_Remove = ''Remove''"
| "op_toString Op_Exists = ''Exists''"
| "op_toString Op_Get = ''Get''"
| "op_toString Op_Set = ''Set''"
| "op_toString Op_SimpleList = ''SimpleList''"
| "op_toString Op_Sync = ''Sync''"
| "op_toString Op_List = ''List''"
| "op_toString Op_Check = ''Check''"
| "op_toString Op_Multi = ''Multi''"
| "op_toString Op_Heartbeat = ''Heartbeat''"
| "op_toString Op_Auth = ''Auth''"
| "op_toString Op_SetSeqNum = ''SetSeqNum''"
| "op_toString Op_SessionID = ''SessionID''"
| "op_toString Op_SetWatches = ''SetWatches''"
| "op_toString Op_SetACL = ''SetACL''"
| "op_toString Op_GetACL = ''GetACL''"

definition WATCH_XID :: int32 where "WATCH_XID = -1"
definition PING_XID :: int32 where "PING_XID = -2"
definition AUTH_XID :: int32 where "AUTH_XID = -4"
definition CLOSE_XID :: int32 where "CLOSE_XID = 0x7FFFFFFF"
definition MAX_STRING_OR_ARRAY_SIZE :: int32 where "MAX_STRING_OR_ARRAY_SIZE = push_bit 28 1"

section \<open>Watch events\<close>

datatype Event = CREATED | DELETED | CHANGED | CHILD | SESSION | NOTWATCHING

fun event_code :: "Event \<Rightarrow> int32" where
  "event_code CREATED = 1"
| "event_code DELETED = 2"
| "event_code CHANGED = 3"
| "event_code CHILD = 4"
| "event_code SESSION = -1"
| "event_code NOTWATCHING = -2"

definition CONNECTED :: int32 where "CONNECTED = 3"

section \<open>Requests and responses\<close>

text \<open>
  The request hierarchy of \<open>ZooKeeperCommon.h\<close>: the fields of \<open>ZooKeeperRequest\<close> that the server
  reads (\<open>xid\<close>, \<open>has_watch\<close>) and a body per subclass, with the fields in the order of their
  declaration. The fields \<open>probably_sent\<close> (client side), \<open>restored_from_zookeeper_log\<close> and
  \<open>parent_cversion\<close> (offline log converter) are left out. In \<open>CreateRequest\<close> the arguments are
  path, data, is\_ephemeral, is\_sequential and acls.
\<close>

datatype request = Request (req_xid: int32) (has_watch: bool) (req_body: request_body)
  and request_body =
    HeartbeatRequest
  | SetWatchesRequest int64 "string list" "string list" "string list"
  | SyncRequest string
  | AuthRequest int32 string string
  | CloseRequest
  | CreateRequest string string bool bool ACLs
  | RemoveRequest string int32
  | ExistsRequest string
  | GetRequest string
  | SetRequest string string int32
  | ListRequest string
  | SimpleListRequest string
  | CheckRequest string int32
  | SetACLRequest string ACLs int32
  | GetACLRequest string
  | MultiRequest "request list"
  | SessionIDRequest int64 int64 int32
  | SetSeqNumRequest string int32

datatype response =
    Response (resp_error: Error) (resp_xid: int32) (resp_zxid: int64) (resp_created: uint64)
      (resp_body: response_body)
  and response_body =
    HeartbeatResponse
  | SetWatchesResponse
  | SyncResponse string
  | WatchResponse int32 int32 string
  | AuthResponse
  | CloseResponse
  | CreateResponse string
  | RemoveResponse
  | ExistsResponse Stat
  | GetResponse string Stat
  | SetResponse Stat
  | ListResponse "string list" Stat
  | SimpleListResponse "string list" Stat
  | CheckResponse
  | ErrorResponse
  | SetACLResponse Stat
  | GetACLResponse ACLs Stat
  | MultiResponse "response list"
  | SessionIDResponse int64 int64 int32
  | SetSeqNumResponse

fun body_getPath :: "request_body \<Rightarrow> string" where
  "body_getPath (SyncRequest path) = path"
| "body_getPath (CreateRequest path _ _ _ _) = path"
| "body_getPath (RemoveRequest path _) = path"
| "body_getPath (ExistsRequest path) = path"
| "body_getPath (GetRequest path) = path"
| "body_getPath (SetRequest path _ _) = path"
| "body_getPath (ListRequest path) = path"
| "body_getPath (SimpleListRequest path) = path"
| "body_getPath (CheckRequest path _) = path"
| "body_getPath (SetACLRequest path _ _) = path"
| "body_getPath (GetACLRequest path) = path"
| "body_getPath (SetSeqNumRequest path _) = path"
| "body_getPath _ = []"

definition getPath :: "request \<Rightarrow> string" where
  "getPath r = body_getPath (req_body r)"

fun body_getOpNum :: "request_body \<Rightarrow> OpNum" where
  "body_getOpNum HeartbeatRequest = Op_Heartbeat"
| "body_getOpNum (SetWatchesRequest _ _ _ _) = Op_SetWatches"
| "body_getOpNum (SyncRequest _) = Op_Sync"
| "body_getOpNum (AuthRequest _ _ _) = Op_Auth"
| "body_getOpNum CloseRequest = Op_Close"
| "body_getOpNum (CreateRequest _ _ _ _ _) = Op_Create"
| "body_getOpNum (RemoveRequest _ _) = Op_Remove"
| "body_getOpNum (ExistsRequest _) = Op_Exists"
| "body_getOpNum (GetRequest _) = Op_Get"
| "body_getOpNum (SetRequest _ _ _) = Op_Set"
| "body_getOpNum (ListRequest _) = Op_List"
| "body_getOpNum (SimpleListRequest _) = Op_SimpleList"
| "body_getOpNum (CheckRequest _ _) = Op_Check"
| "body_getOpNum (SetACLRequest _ _ _) = Op_SetACL"
| "body_getOpNum (GetACLRequest _) = Op_GetACL"
| "body_getOpNum (MultiRequest _) = Op_Multi"
| "body_getOpNum (SessionIDRequest _ _ _) = Op_SessionID"
| "body_getOpNum (SetSeqNumRequest _ _) = Op_SetSeqNum"

definition getOpNum :: "request \<Rightarrow> OpNum" where
  "getOpNum r = body_getOpNum (req_body r)"

fun body_isReadRequest :: "request_body \<Rightarrow> bool" where
  "body_isReadRequest HeartbeatRequest = True"
| "body_isReadRequest (SetWatchesRequest _ _ _ _) = True"
| "body_isReadRequest (ExistsRequest _) = True"
| "body_isReadRequest (GetRequest _) = True"
| "body_isReadRequest (ListRequest _) = True"
| "body_isReadRequest (SimpleListRequest _) = True"
| "body_isReadRequest (GetACLRequest _) = True"
| "body_isReadRequest _ = False"

definition isReadRequest :: "request \<Rightarrow> bool" where
  "isReadRequest r = body_isReadRequest (req_body r)"

text \<open>
  A response as its constructor leaves it. The members that C++ leaves indeterminate (\<open>zxid\<close>, the
  members of a \<open>Stat\<close>, of a \<open>ZooKeeperSessionIDResponse\<close>) are zero here; the code that sends a
  response sets them first.
\<close>

definition new_response :: "response_body \<Rightarrow> response" where
  "new_response b = Response ZOK 0 0 0 b"

lemma size_req_body_less [termination_simp]:
  assumes "r \<in> set rs"
  shows "size (req_body r) < Suc (size_list size rs)"
proof -
  have "size (req_body r) \<le> size r" by (cases r) simp
  also have "\<dots> \<le> size_list size rs" using assms by (rule size_list_estimation') simp
  finally show ?thesis by simp
qed

fun body_makeResponse :: "request_body \<Rightarrow> response_body" where
  "body_makeResponse HeartbeatRequest = HeartbeatResponse"
| "body_makeResponse (SetWatchesRequest _ _ _ _) = SetWatchesResponse"
| "body_makeResponse (SyncRequest _) = SyncResponse []"
| "body_makeResponse (AuthRequest _ _ _) = AuthResponse"
| "body_makeResponse (CreateRequest _ _ _ _ _) = CreateResponse []"
| "body_makeResponse (RemoveRequest _ _) = RemoveResponse"
| "body_makeResponse (ExistsRequest _) = ExistsResponse zero_stat"
| "body_makeResponse (GetRequest _) = GetResponse [] zero_stat"
| "body_makeResponse (SetRequest _ _ _) = SetResponse zero_stat"
| "body_makeResponse (ListRequest _) = ListResponse [] zero_stat"
| "body_makeResponse (SimpleListRequest _) = ListResponse [] zero_stat"
| "body_makeResponse (CheckRequest _ _) = CheckResponse"
| "body_makeResponse (MultiRequest rs) =
     MultiResponse (map (\<lambda>r. new_response (body_makeResponse (req_body r))) rs)"
| "body_makeResponse CloseRequest = CloseResponse"
| "body_makeResponse (SetSeqNumRequest _ _) = SetSeqNumResponse"
| "body_makeResponse (SetACLRequest _ _ _) = SetACLResponse zero_stat"
| "body_makeResponse (GetACLRequest _) = GetACLResponse [] zero_stat"
| "body_makeResponse (SessionIDRequest _ _ _) = SessionIDResponse 0 0 0"

definition makeResponse :: "request \<Rightarrow> response" where
  "makeResponse r = new_response (body_makeResponse (req_body r))"

text \<open>\<open>ZooKeeperWatchResponse::getOpNum\<close> throws.\<close>

fun response_getOpNum :: "response_body \<Rightarrow> exc + OpNum" where
  "response_getOpNum HeartbeatResponse = Inr Op_Heartbeat"
| "response_getOpNum SetWatchesResponse = Inr Op_SetWatches"
| "response_getOpNum (SyncResponse _) = Inr Op_Sync"
| "response_getOpNum (WatchResponse _ _ _) = Inl (KEEPER_EXCEPTION ZRUNTIMEINCONSISTENCY)"
| "response_getOpNum AuthResponse = Inr Op_Auth"
| "response_getOpNum CloseResponse = Inr Op_Close"
| "response_getOpNum (CreateResponse _) = Inr Op_Create"
| "response_getOpNum RemoveResponse = Inr Op_Remove"
| "response_getOpNum (ExistsResponse _) = Inr Op_Exists"
| "response_getOpNum (GetResponse _ _) = Inr Op_Get"
| "response_getOpNum (SetResponse _) = Inr Op_Set"
| "response_getOpNum (ListResponse _ _) = Inr Op_List"
| "response_getOpNum (SimpleListResponse _ _) = Inr Op_SimpleList"
| "response_getOpNum CheckResponse = Inr Op_Check"
| "response_getOpNum ErrorResponse = Inr Op_Error"
| "response_getOpNum (SetACLResponse _) = Inr Op_SetACL"
| "response_getOpNum (GetACLResponse _ _) = Inr Op_GetACL"
| "response_getOpNum (MultiResponse _) = Inr Op_Multi"
| "response_getOpNum (SessionIDResponse _ _ _) = Inr Op_SessionID"
| "response_getOpNum SetSeqNumResponse = Inr Op_SetSeqNum"

section \<open>The root path of a client\<close>

definition addRootPath :: "string \<Rightarrow> string \<Rightarrow> exc + string" where
  "addRootPath path root_path =
     (if path = [] then Inl (KEEPER_EXCEPTION ZBADARGUMENTS)
      else if path ! 0 \<noteq> CHR ''/'' then Inl (KEEPER_EXCEPTION ZBADARGUMENTS)
      else if root_path = [] then Inr path
      else if length path = 1 then Inr root_path
      else Inr (root_path @ path))"

definition removeRootPath :: "string \<Rightarrow> string \<Rightarrow> exc + string" where
  "removeRootPath path root_path =
     (if root_path = [] then Inr path
      else if length path \<le> length root_path then Inl (KEEPER_EXCEPTION ZDATAINCONSISTENCY)
      else Inr (drop (length root_path) path))"

section \<open>Lemmas on the codes\<close>

lemma getOpNum_of_raw_code [simp, wire_simps]: "getOpNum_of_raw (op_code x) = Inr x"
  by (cases x) (simp_all add: getOpNum_of_raw_def VALID_OPERATIONS_def)

lemma op_code_inject [simp]: "op_code x = op_code y \<longleftrightarrow> x = y"
  by (metis getOpNum_of_raw_code sum.inject(2))

lemma getOpNum_of_raw_SomeD: "getOpNum_of_raw raw = Inr x \<Longrightarrow> raw = op_code x"
  by (auto simp: getOpNum_of_raw_def dest: find_SomeD split: option.splits)

lemma error_code_of_code [simp]: "error_code (error_of_code c) = c"
  by (auto simp: error_of_code_def simp del: error_code.simps(1-24) dest: find_SomeD
      split: option.splits)

definition named_error :: "Error \<Rightarrow> bool" where
  "named_error e \<longleftrightarrow> e \<in> set named_errors"

lemma error_of_code_code: "named_error e \<Longrightarrow> error_of_code (error_code e) = e"
  by (cases e) (simp_all add: named_error_def named_errors_def error_of_code_def)

lemma errorMessage_named: "named_error e \<longleftrightarrow> errorMessage e \<noteq> None"
  by (cases e) (simp_all add: named_error_def named_errors_def)

lemma user_error_not_hardware: "isUserError e \<Longrightarrow> \<not> isHardwareError e"
  by (auto simp: isUserError_def isHardwareError_def)

lemma root_path_roundtrip:
  assumes "addRootPath path root_path = Inr p" and "path \<noteq> ''/'' \<or> root_path = []"
  shows "removeRootPath p root_path = Inr path"
  using assms
  by (cases path) (auto simp: addRootPath_def removeRootPath_def split: if_splits)

end
