(* ===== verification/Acl_Map.thy ===== *)
theory Acl_Map
  imports Coordination
begin

text \<open>
  \<open>ACLMap\<close> of \<open>src/src/Service/ACLMap.{h,cpp}\<close>: the interning of access control lists as numbers
  with usage counters. The state is a record of the three hash maps and the next number; a
  \<open>uint64_t\<close> is a 64 bit word, so that \<open>max_acl_id++\<close> and the counters wrap as they do in the code.
  Shown: the comparator and \<open>operator==\<close> decide equality, the two maps are inverse to each other
  and every operation keeps them so, converting a list to its number and back is the identity,
  numbers are never reused while the counter does not wrap, and \<open>removeUsage\<close> forgets exactly the
  number whose last usage goes away. The locale \<open>acl_interning\<close> is the contract the store relies
  on.
\<close>

section \<open>The data and the operations\<close>

record acl_map =
  acl_to_num :: "ACLs \<rightharpoonup> uint64"
  num_to_acl :: "uint64 \<rightharpoonup> ACLs"
  usage_counter :: "uint64 \<rightharpoonup> uint64"
  max_acl_id :: uint64

definition empty_acl_map :: acl_map where
  "empty_acl_map = \<lparr>acl_to_num = Map.empty, num_to_acl = Map.empty, usage_counter = Map.empty,
     max_acl_id = 1\<rparr>"

definition world_anyone :: ACLs where
  "world_anyone = [\<lparr>permissions = ACL_All, scheme = ''world'', ident = ''anyone''\<rparr>]"

text \<open>The loop of \<open>ACLsComparator::operator()\<close>, the index running up to the common size.\<close>

fun acls_compare_from :: "ACLs \<Rightarrow> ACLs \<Rightarrow> bool" where
  "acls_compare_from (l # ls) (r # rs) =
     (if permissions l \<noteq> permissions r then False
      else if scheme l \<noteq> scheme r then False
      else if ident l \<noteq> ident r then False
      else acls_compare_from ls rs)"
| "acls_compare_from _ _ = True"

definition ACLsComparator :: "ACLs \<Rightarrow> ACLs \<Rightarrow> bool" where
  "ACLsComparator left right =
     (if length left \<noteq> length right then False else acls_compare_from left right)"

definition convertACLs :: "acl_map \<Rightarrow> ACLs \<Rightarrow> acl_map \<times> uint64" where
  "convertACLs m acls =
     (if acls = [] \<or> acls = world_anyone then (m, 0)
      else case acl_to_num m acls of
        Some n \<Rightarrow> (m, n)
      | None \<Rightarrow>
          let index = max_acl_id m in
          (m\<lparr>max_acl_id := index + 1, acl_to_num := (acl_to_num m)(acls \<mapsto> index),
             num_to_acl := (num_to_acl m)(index \<mapsto> acls)\<rparr>, index))"

definition convertNumber :: "acl_map \<Rightarrow> uint64 \<Rightarrow> exc + ACLs" where
  "convertNumber m acls_id =
     (if acls_id = 0 then Inr world_anyone
      else case num_to_acl m acls_id of None \<Rightarrow> Inl LOGICAL_ERROR | Some acls \<Rightarrow> Inr acls)"

definition addMapping :: "acl_map \<Rightarrow> uint64 \<Rightarrow> ACLs \<Rightarrow> acl_map" where
  "addMapping m acls_id acls =
     m\<lparr>num_to_acl := (num_to_acl m)(acls_id \<mapsto> acls),
       acl_to_num := (acl_to_num m)(acls \<mapsto> acls_id),
       max_acl_id := max (acls_id + 1) (max_acl_id m)\<rparr>"

definition addUsage :: "acl_map \<Rightarrow> uint64 \<Rightarrow> uint64 \<Rightarrow> acl_map" where
  "addUsage m acl_id count =
     (if acl_id = 0 then m
      else m\<lparr>usage_counter := (usage_counter m)
               (acl_id \<mapsto> (case usage_counter m acl_id of None \<Rightarrow> 0 | Some c \<Rightarrow> c) + count)\<rparr>)"

text \<open>
  \<open>num_to_acl[acl_id]\<close> default-constructs an empty list when the number is unknown; the entry it
  creates is erased in the next statement.
\<close>

definition removeUsage :: "acl_map \<Rightarrow> uint64 \<Rightarrow> acl_map" where
  "removeUsage m acl_id =
     (case usage_counter m acl_id of
        None \<Rightarrow> m
      | Some c \<Rightarrow>
          if c - 1 = 0 then
            let acls = (case num_to_acl m acl_id of None \<Rightarrow> [] | Some acls \<Rightarrow> acls) in
            m\<lparr>num_to_acl := (num_to_acl m)(acl_id := None),
              acl_to_num := (acl_to_num m)(acls := None),
              usage_counter := (usage_counter m)(acl_id := None)\<rparr>
          else m\<lparr>usage_counter := (usage_counter m)(acl_id \<mapsto> c - 1)\<rparr>)"

definition mapEquals :: "('k \<rightharpoonup> 'v) \<Rightarrow> ('k \<rightharpoonup> 'v) \<Rightarrow> bool" where
  "mapEquals l r \<longleftrightarrow>
     card (dom l) = card (dom r) \<and> (\<forall>k \<in> dom l. k \<in> dom r \<and> the (l k) = the (r k))"

definition acl_map_equals :: "acl_map \<Rightarrow> acl_map \<Rightarrow> bool" where
  "acl_map_equals m rhs \<longleftrightarrow>
     mapEquals (acl_to_num m) (acl_to_num rhs) \<and> mapEquals (num_to_acl m) (num_to_acl rhs)
     \<and> mapEquals (usage_counter m) (usage_counter rhs) \<and> max_acl_id m = max_acl_id rhs"

section \<open>Comparators\<close>

lemma acls_compare_from_iff:
  "length ls = length rs \<Longrightarrow> acls_compare_from ls rs \<longleftrightarrow> ls = rs"
  by (induction ls rs rule: list_induct2) auto

lemma ACLsComparator_iff: "ACLsComparator l r \<longleftrightarrow> l = r"
  by (auto simp: ACLsComparator_def acls_compare_from_iff)

lemma mapEquals_iff:
  assumes "finite (dom r)"
  shows "mapEquals l r \<longleftrightarrow> l = r"
proof
  assume eq: "mapEquals l r"
  have "dom l \<subseteq> dom r" using eq by (auto simp: mapEquals_def)
  with eq assms have "dom l = dom r" by (auto simp: mapEquals_def card_subset_eq)
  with eq show "l = r" by (intro ext) (metis domIff mapEquals_def option.expand)
qed (simp add: mapEquals_def)

definition acl_map_finite :: "acl_map \<Rightarrow> bool" where
  "acl_map_finite m \<longleftrightarrow>
     finite (dom (acl_to_num m)) \<and> finite (dom (num_to_acl m)) \<and> finite (dom (usage_counter m))"

lemma acl_map_equals_iff: "acl_map_finite r \<Longrightarrow> acl_map_equals l r \<longleftrightarrow> l = r"
  by (auto simp: acl_map_equals_def acl_map_finite_def mapEquals_iff)

section \<open>The invariant\<close>

definition acl_known :: "acl_map \<Rightarrow> uint64 \<Rightarrow> bool" where
  "acl_known m n \<longleftrightarrow> n = 0 \<or> n \<in> dom (num_to_acl m)"

definition acl_inv :: "acl_map \<Rightarrow> bool" where
  "acl_inv m \<longleftrightarrow>
     max_acl_id m \<noteq> 0 \<and> (\<forall>a n. acl_to_num m a = Some n \<longleftrightarrow> num_to_acl m n = Some a)
     \<and> (\<forall>n \<in> dom (num_to_acl m). 0 < n \<and> n < max_acl_id m)
     \<and> [] \<notin> dom (acl_to_num m) \<and> world_anyone \<notin> dom (acl_to_num m)
     \<and> dom (usage_counter m) \<subseteq> dom (num_to_acl m) \<and> 0 \<notin> ran (usage_counter m)"

lemma acl_invE:
  assumes "acl_inv m"
  shows "acl_to_num m a = Some n \<longleftrightarrow> num_to_acl m n = Some a"
    and "num_to_acl m n = Some a \<Longrightarrow> n \<noteq> 0 \<and> n < max_acl_id m"
    and "num_to_acl m n = Some a \<Longrightarrow> a \<noteq> [] \<and> a \<noteq> world_anyone"
    and "usage_counter m n = Some c \<Longrightarrow> c \<noteq> 0 \<and> (\<exists>a. num_to_acl m n = Some a)"
    and "acl_to_num m a = None \<Longrightarrow> num_to_acl m n \<noteq> Some a"
    and "max_acl_id m \<noteq> 0"
proof -
  show iff: "acl_to_num m a = Some n \<longleftrightarrow> num_to_acl m n = Some a" for a n
    using assms by (simp add: acl_inv_def)
  then show "acl_to_num m a = None \<Longrightarrow> num_to_acl m n \<noteq> Some a"
    by (metis option.distinct(1))
  show "num_to_acl m n = Some a \<Longrightarrow> a \<noteq> [] \<and> a \<noteq> world_anyone"
    using assms iff[of a n, symmetric] by (auto simp: acl_inv_def)
qed (use assms in \<open>auto simp: acl_inv_def dom_def ran_def word_greater_zero_iff\<close>)

lemma acl_inv_empty: "acl_inv empty_acl_map"
  by (simp add: acl_inv_def empty_acl_map_def)

lemma less_word_succ:
  fixes a b :: "'a :: len word"
  assumes "b \<noteq> -1"
  shows "a < b + 1 \<longleftrightarrow> a \<le> b"
proof -
  have "unat (b + 1) = Suc (unat b)"
    using assms by (metis add.commute add.inverse_inverse eq_neg_iff_add_eq_0 unatSuc)
  then show ?thesis by (simp add: word_less_nat_alt word_le_nat_alt less_Suc_eq_le)
qed

lemma convertACLs_cases:
  obtains (default) "a = [] \<or> a = world_anyone" "convertACLs m a = (m, 0)"
  | (present) n where "a \<noteq> []" "a \<noteq> world_anyone" "acl_to_num m a = Some n" "convertACLs m a = (m, n)"
  | (new) "a \<noteq> []" "a \<noteq> world_anyone" "acl_to_num m a = None"
      "convertACLs m a = (m\<lparr>max_acl_id := max_acl_id m + 1,
         acl_to_num := (acl_to_num m)(a \<mapsto> max_acl_id m),
         num_to_acl := (num_to_acl m)(max_acl_id m \<mapsto> a)\<rparr>, max_acl_id m)"
  by (cases "acl_to_num m a") (auto simp: convertACLs_def Let_def)

lemma acl_inv_fresh: "acl_inv m \<Longrightarrow> num_to_acl m (max_acl_id m) = None"
  using acl_invE(2) by fastforce

lemma convertACLs_inv:
  assumes inv: "acl_inv m" and room: "max_acl_id m \<noteq> -1"
  shows "acl_inv (fst (convertACLs m a))"
proof (cases rule: convertACLs_cases[of a m])
  case new
  have "max_acl_id m + 1 \<noteq> 0" using room by (metis add_eq_0_iff2)
  moreover have "dom (usage_counter m) \<subseteq> insert (max_acl_id m) (dom (num_to_acl m))"
    using inv by (auto simp: acl_inv_def)
  moreover have "n \<le> max_acl_id m" if "n \<in> dom (num_to_acl m)" for n
    using acl_invE(2)[OF inv] that by (auto intro: less_imp_le)
  ultimately show ?thesis
    using inv new acl_invE(5)[OF inv new(3)] acl_inv_fresh[OF inv]
    by (auto simp: acl_inv_def less_word_succ[OF room] word_greater_zero_iff)
qed (use inv in simp_all)

section \<open>Round trip and frame\<close>

definition normal_acls :: "ACLs \<Rightarrow> ACLs" where
  "normal_acls a = (if a = [] then world_anyone else a)"

lemma convertNumber_known: "acl_known m n \<longleftrightarrow> (\<exists>a. convertNumber m n = Inr a)"
  by (auto simp: acl_known_def convertNumber_def split: option.splits)

lemma convertACLs_convertNumber:
  assumes inv: "acl_inv m"
  shows "convertNumber (fst (convertACLs m a)) (snd (convertACLs m a)) = Inr (normal_acls a)"
proof (cases rule: convertACLs_cases[of a m])
  case (present n)
  with acl_invE(1,2)[OF inv] show ?thesis
    by (auto simp: convertNumber_def normal_acls_def)
next
  case new
  with acl_invE(6)[OF inv] show ?thesis by (simp add: convertNumber_def normal_acls_def)
qed (auto simp: convertNumber_def normal_acls_def)

lemma convertACLs_frame:
  assumes inv: "acl_inv m" and "convertNumber m n = Inr b"
  shows "convertNumber (fst (convertACLs m a)) n = Inr b"
  using acl_inv_fresh[OF inv] assms(2)
  by (cases rule: convertACLs_cases[of a m])
     (auto simp: convertNumber_def split: if_splits option.splits)

lemma convertACLs_stable:
  assumes inv: "acl_inv m" and "convertNumber m n = Inr b"
  shows "convertACLs m b = (m, n)"
proof (cases "n = 0")
  case False
  with assms(2) have "num_to_acl m n = Some b" by (auto simp: convertNumber_def split: option.splits)
  then show ?thesis
    using acl_invE(1)[OF inv, of b n] acl_invE(3)[OF inv, of n b] by (simp add: convertACLs_def)
qed (use assms(2) in \<open>simp add: convertNumber_def convertACLs_def\<close>)

lemma convertACLs_usage [simp]: "usage_counter (fst (convertACLs m a)) = usage_counter m"
  by (cases rule: convertACLs_cases[of a m]) simp_all

lemma convertACLs_normal: "convertACLs m (normal_acls a) = convertACLs m a"
  by (simp add: normal_acls_def convertACLs_def)

section \<open>Usage counters\<close>

lemma addUsage_maps [simp]:
  "num_to_acl (addUsage m n c) = num_to_acl m" "acl_to_num (addUsage m n c) = acl_to_num m"
  "max_acl_id (addUsage m n c) = max_acl_id m" "convertNumber (addUsage m n c) = convertNumber m"
  "acl_known (addUsage m n c) = acl_known m"
  by (auto simp: addUsage_def convertNumber_def acl_known_def)

definition usage :: "acl_map \<Rightarrow> uint64 \<Rightarrow> uint64" where
  "usage m n = (case usage_counter m n of None \<Rightarrow> 0 | Some c \<Rightarrow> c)"

lemma usage_addUsage: "usage (addUsage m n c) k = (if k = n \<and> n \<noteq> 0 then usage m n + c else usage m k)"
  by (simp add: usage_def addUsage_def)

lemma addUsage_inv:
  assumes "acl_inv m" "acl_known m n" "usage m n + c \<noteq> 0"
  shows "acl_inv (addUsage m n c)"
  using assms
  by (auto simp: addUsage_def acl_inv_def acl_known_def usage_def ran_def split: option.splits)

lemma removeUsage_cases:
  obtains (unused) "usage_counter m n = None" "removeUsage m n = m"
  | (last) "usage_counter m n = Some 1" "removeUsage m n =
       m\<lparr>num_to_acl := (num_to_acl m)(n := None),
         acl_to_num := (acl_to_num m)
           ((case num_to_acl m n of None \<Rightarrow> [] | Some acls \<Rightarrow> acls) := None),
         usage_counter := (usage_counter m)(n := None)\<rparr>"
  | (more) c where "usage_counter m n = Some c" "c \<noteq> 1"
      "removeUsage m n = m\<lparr>usage_counter := (usage_counter m)(n \<mapsto> c - 1)\<rparr>"
  by (cases "usage_counter m n") (auto simp: removeUsage_def usage_def Let_def)

lemma removeUsage_inv:
  assumes inv: "acl_inv m"
  shows "acl_inv (removeUsage m n)"
proof (cases rule: removeUsage_cases[of m n])
  case last
  then obtain a where a: "num_to_acl m n = Some a" using acl_invE(4)[OF inv] by blast
  have uniq: "num_to_acl m k \<noteq> Some a" if "k \<noteq> n" for k
    using that a acl_invE(1)[OF inv, of a k] acl_invE(1)[OF inv, of a n] by simp
  have inverse: "((acl_to_num m)(a := None)) b = Some k \<longleftrightarrow> ((num_to_acl m)(n := None)) k = Some b"
    for b k using a acl_invE(1)[OF inv, of b k] uniq[of k] by (cases "k = n"; cases "b = a") auto
  have counters: "dom ((usage_counter m)(n := None)) \<subseteq> dom ((num_to_acl m)(n := None))"
    "0 \<notin> ran ((usage_counter m)(n := None))"
    using inv by (auto simp: acl_inv_def ran_def)
  have bounds: "\<forall>k \<in> dom ((num_to_acl m)(n := None)). 0 < k \<and> k < max_acl_id m"
    "[] \<notin> dom ((acl_to_num m)(a := None))" "world_anyone \<notin> dom ((acl_to_num m)(a := None))"
    using inv by (auto simp: acl_inv_def)
  show ?thesis
    using last a inverse counters bounds acl_invE(6)[OF inv] by (simp add: acl_inv_def)
next
  case (more c)
  have "dom (usage_counter m) \<subseteq> dom (num_to_acl m)" using inv by (simp add: acl_inv_def)
  with more inv show ?thesis by (auto simp: acl_inv_def ran_def)
qed (use inv in simp)

lemma removeUsage_frame:
  assumes "convertNumber m k = Inr a" and "k \<noteq> n \<or> usage m n \<noteq> 1"
  shows "convertNumber (removeUsage m n) k = Inr a"
  using assms
  by (cases rule: removeUsage_cases[of m n]) (auto simp: convertNumber_def usage_def)

lemma removeUsage_usage:
  "usage (removeUsage m n) k = (if k = n \<and> usage m n \<noteq> 0 then usage m n - 1 else usage m k)"
  if "0 \<notin> ran (usage_counter m)"
  using that by (cases rule: removeUsage_cases[of m n]) (auto simp: usage_def ran_def)

lemma removeUsage_forgets:
  assumes "acl_inv m" "n \<noteq> 0" "usage m n = 1"
  shows "convertNumber (removeUsage m n) n = Inl LOGICAL_ERROR"
  using assms by (auto simp: removeUsage_def usage_def convertNumber_def Let_def split: option.splits)

lemma addMapping_inv:
  assumes "acl_inv m" "n \<noteq> 0" "n \<noteq> -1" "n \<notin> dom (num_to_acl m)" "a \<notin> dom (acl_to_num m)"
    "a \<noteq> []" "a \<noteq> world_anyone"
  shows "acl_inv (addMapping m n a)"
proof -
  have "n + 1 \<noteq> 0" using assms(3) by (metis add_eq_0_iff2)
  moreover have "num_to_acl m k \<noteq> Some a" for k
    using acl_invE(5)[OF assms(1)] assms(5) by blast
  moreover have "\<forall>k \<in> dom ((num_to_acl m)(n \<mapsto> a)). 0 < k \<and> k < max (n + 1) (max_acl_id m)"
    using acl_invE(2)[OF assms(1)] less_word_succ[OF assms(3), of n] assms(2)
    by (auto simp: less_max_iff_disj word_greater_zero_iff)
  moreover have "max (n + 1) (max_acl_id m) \<noteq> 0"
    using acl_invE(6)[OF assms(1)] calculation(1) by (simp add: max_def)
  ultimately show ?thesis using assms by (auto simp: acl_inv_def addMapping_def)
qed

section \<open>The contract of the interning\<close>

text \<open>
  What a client of the map may rely on: \<open>convert\<close> gives a number that \<open>number\<close> reads back, it
  keeps what every older number denotes, and converting what a number denotes gives that number.
\<close>

locale acl_interning =
  fixes inv :: "'m \<Rightarrow> bool" and room :: "'m \<Rightarrow> bool"
    and convert :: "'m \<Rightarrow> 'a \<Rightarrow> 'm \<times> 'n" and number :: "'m \<Rightarrow> 'n \<Rightarrow> 'e + 'a"
    and norm :: "'a \<Rightarrow> 'a"
  assumes convert_inv: "inv m \<Longrightarrow> room m \<Longrightarrow> inv (fst (convert m a))"
    and convert_number: "inv m \<Longrightarrow> number (fst (convert m a)) (snd (convert m a)) = Inr (norm a)"
    and convert_frame: "inv m \<Longrightarrow> number m n = Inr b \<Longrightarrow> number (fst (convert m a)) n = Inr b"
    and convert_stable: "inv m \<Longrightarrow> number m n = Inr b \<Longrightarrow> convert m b = (m, n)"
    and convert_norm: "convert m (norm a) = convert m a"
begin

lemma convert_twice:
  assumes "inv m" "room m"
  shows "convert (fst (convert m a)) a = convert m a"
  using convert_stable[OF convert_inv[OF assms] convert_number[OF assms(1)]]
  by (simp add: convert_norm)

lemma number_inject:
  assumes "inv m" "number m n = Inr a" "number m k = Inr a"
  shows "n = k"
  using convert_stable[OF assms(1,2)] convert_stable[OF assms(1,3)] by simp

lemma convert_eq_iff:
  assumes "inv m" "room m"
  shows "snd (convert (fst (convert m a)) b) = snd (convert m a) \<longleftrightarrow> norm a = norm b"
proof
  let ?m = "fst (convert m a)"
  have inv: "inv ?m" by (rule convert_inv[OF assms])
  assume "snd (convert ?m b) = snd (convert m a)"
  then have "number (fst (convert ?m b)) (snd (convert m a)) = Inr (norm b)"
    using convert_number[OF inv, of b] by simp
  moreover have "number (fst (convert ?m b)) (snd (convert m a)) = Inr (norm a)"
    by (rule convert_frame[OF inv convert_number[OF assms(1)]])
  ultimately show "norm a = norm b" by simp
next
  assume "norm a = norm b"
  then show "snd (convert (fst (convert m a)) b) = snd (convert m a)"
    by (metis assms convert_norm convert_twice)
qed

end

interpretation acl: acl_interning acl_inv "\<lambda>m. max_acl_id m \<noteq> -1" convertACLs convertNumber normal_acls
  by unfold_locales
    (simp_all add: convertACLs_inv convertACLs_convertNumber convertACLs_frame convertACLs_stable
      convertACLs_normal)

end
