(* ===== verification/Expiry_Queue.thy ===== *)
theory Expiry_Queue
  imports Coordination
begin

text \<open>
  \<open>SessionExpiryQueue\<close> of \<open>src/src/Service/SessionExpiryQueue.{h,cpp}\<close>: the sessions of a node in
  buckets of equal, rounded expiration time. \<open>system_clock::now()\<close> is the argument \<open>now\<close> of the
  operations that read it, and the order in which a hash set is iterated is the argument \<open>ord\<close>.
  Dereferencing the end iterator of a bucket that is not there (the code does so when the two maps
  disagree) is \<open>NULL_DEREFERENCE\<close>. Shown: the two maps agree and the operations keep them so, hence
  the end iterator is never followed; the queue refines a map from sessions to times; the expired
  sessions are exactly those whose time has come; and a session is expired not before its timeout
  and at most one interval after it.
\<close>

section \<open>The data and the operations\<close>

record expiry_queue =
  session_to_expiration_time :: "int64 \<rightharpoonup> int64"
  expiry_to_sessions :: "int64 \<rightharpoonup> int64 set"
  expiration_interval :: int64

definition new_expiry_queue :: "int64 \<Rightarrow> expiry_queue" where
  "new_expiry_queue interval = \<lparr>session_to_expiration_time = Map.empty,
     expiry_to_sessions = Map.empty, expiration_interval = interval\<rparr>"

text \<open>C++ division of signed integers truncates towards zero, as \<open>sdiv\<close> does on integers.\<close>

definition roundToNextInterval :: "expiry_queue \<Rightarrow> int64 \<Rightarrow> int64" where
  "roundToNextInterval q time =
     (word_of_int (sint time sdiv sint (expiration_interval q)) + 1) * expiration_interval q"

definition queue_remove :: "expiry_queue \<Rightarrow> int64 \<Rightarrow> exc + (expiry_queue \<times> bool)" where
  "queue_remove q session_id =
     (case session_to_expiration_time q session_id of
        None \<Rightarrow> Inr (q, False)
      | Some t \<Rightarrow>
          (case expiry_to_sessions q t of
             None \<Rightarrow> Inl NULL_DEREFERENCE
           | Some b \<Rightarrow>
               let b' = b - {session_id} in
               Inr (q\<lparr>expiry_to_sessions :=
                        (expiry_to_sessions q)(t := (if b' = {} then None else Some b')),
                      session_to_expiration_time :=
                        (session_to_expiration_time q)(session_id := None)\<rparr>, True)))"

definition setSessionExpirationTime ::
    "expiry_queue \<Rightarrow> int64 \<Rightarrow> int64 \<Rightarrow> exc + expiry_queue" where
  "setSessionExpirationTime q session_id expiration_time =
     (let new_expiry_time = expiration_time;
          bucket = (\<lambda>t. case expiry_to_sessions q t of None \<Rightarrow> {} | Some b \<Rightarrow> b);
          added = (expiry_to_sessions q)(new_expiry_time \<mapsto> insert session_id (bucket new_expiry_time));
          times = (session_to_expiration_time q)(session_id \<mapsto> new_expiry_time)
      in
      case session_to_expiration_time q session_id of
        Some prev_expiry_time \<Rightarrow>
          if new_expiry_time = prev_expiry_time
          then Inr (q\<lparr>session_to_expiration_time := times\<rparr>)
          else (case added prev_expiry_time of
                  None \<Rightarrow> Inl NULL_DEREFERENCE
                | Some b \<Rightarrow>
                    let b' = b - {session_id} in
                    Inr (q\<lparr>session_to_expiration_time := times,
                           expiry_to_sessions :=
                             added(prev_expiry_time := (if b' = {} then None else Some b'))\<rparr>))
      | None \<Rightarrow>
          Inr (q\<lparr>session_to_expiration_time := times, expiry_to_sessions := added\<rparr>))"

definition addNewSessionOrUpdate ::
    "int64 \<Rightarrow> expiry_queue \<Rightarrow> int64 \<Rightarrow> int64 \<Rightarrow> exc + expiry_queue" where
  "addNewSessionOrUpdate now q session_id timeout_ms =
     setSessionExpirationTime q session_id (roundToNextInterval q (now + timeout_ms))"

text \<open>The loop over the ordered buckets stops at the first one that is not yet due.\<close>

fun expired_from :: "int64 \<Rightarrow> (int64 set \<Rightarrow> int64 list) \<Rightarrow> expiry_queue \<Rightarrow> int64 list \<Rightarrow> int64 list" where
  "expired_from now ord q [] = []"
| "expired_from now ord q (t # ts) =
     (if t <=s now
      then ord (case expiry_to_sessions q t of None \<Rightarrow> {} | Some b \<Rightarrow> b) @ expired_from now ord q ts
      else [])"

definition getExpiredSessions ::
    "int64 \<Rightarrow> (int64 set \<Rightarrow> int64 list) \<Rightarrow> expiry_queue \<Rightarrow> int64 list" where
  "getExpiredSessions now ord q = expired_from now ord q (sorted_keys (expiry_to_sessions q))"

definition sessionToExpirationTime :: "expiry_queue \<Rightarrow> int64 \<rightharpoonup> int64" where
  "sessionToExpirationTime q = session_to_expiration_time q"

definition queue_clear :: "expiry_queue \<Rightarrow> expiry_queue" where
  "queue_clear q = q\<lparr>session_to_expiration_time := Map.empty, expiry_to_sessions := Map.empty\<rparr>"

section \<open>The invariant\<close>

text \<open>
  The buckets as a function of the times. The invariant says that the second map is this function
  of the first: a bucket holds exactly the sessions of its time, and no bucket is empty.
\<close>

definition buckets :: "(int64 \<rightharpoonup> int64) \<Rightarrow> int64 \<rightharpoonup> int64 set" where
  "buckets f t = (if {s. f s = Some t} = {} then None else Some {s. f s = Some t})"

definition expiry_inv :: "expiry_queue \<Rightarrow> bool" where
  "expiry_inv q \<longleftrightarrow> finite (dom (session_to_expiration_time q))
     \<and> expiry_to_sessions q = buckets (session_to_expiration_time q)"

lemma expiry_inv_new [simp]: "expiry_inv (new_expiry_queue i)"
  by (simp add: expiry_inv_def new_expiry_queue_def buckets_def fun_eq_iff)

lemma expiry_inv_clear [simp]: "expiry_inv (queue_clear q)"
  by (simp add: expiry_inv_def queue_clear_def buckets_def fun_eq_iff)

lemma buckets_Some: "f s = Some t \<Longrightarrow> buckets f t = Some {s. f s = Some t}"
  by (auto simp: buckets_def)

lemma finite_dom_buckets: "finite (dom f) \<Longrightarrow> finite (dom (buckets f))"
proof (rule finite_subset)
  show "dom (buckets f) \<subseteq> ran f" by (auto simp: buckets_def ran_def split: if_splits)
qed (rule finite_ran)

lemma bucket_of_buckets [simp]:
  "(case buckets f t of None \<Rightarrow> {} | Some b \<Rightarrow> b) = {s. f s = Some t}"
  by (simp add: buckets_def)

lemma times_upd: "{r. (f(s \<mapsto> t)) r = Some u} =
    (if u = t then insert s {r. f r = Some u} else {r. f r = Some u} - {s})"
  by auto

lemma times_del: "{r. (f(s := None)) r = Some u} = {r. f r = Some u} - {s}"
  by auto

lemma buckets_del:
  assumes "f s = Some t"
  shows "buckets (f(s := None)) =
    (buckets f)(t := (if {r. f r = Some t} - {s} = {} then None else Some ({r. f r = Some t} - {s})))"
    (is "_ = ?rhs")
proof
  fix u
  show "buckets (f(s := None)) u = ?rhs u"
    using assms unfolding buckets_def times_del by (cases "u = t") auto
qed

lemma buckets_upd_new:
  assumes "f s = None"
  shows "buckets (f(s \<mapsto> t)) = (buckets f)(t \<mapsto> insert s {r. f r = Some t})"
    (is "_ = ?rhs")
proof
  fix u
  show "buckets (f(s \<mapsto> t)) u = ?rhs u"
    using assms unfolding buckets_def times_upd by (cases "u = t") auto
qed

lemma buckets_upd_move:
  assumes "f s = Some p" "p \<noteq> t"
  shows "buckets (f(s \<mapsto> t)) = ((buckets f)(t \<mapsto> insert s {r. f r = Some t}))
    (p := (if {r. f r = Some p} - {s} = {} then None else Some ({r. f r = Some p} - {s})))"
    (is "_ = ?rhs")
proof
  fix u
  show "buckets (f(s \<mapsto> t)) u = ?rhs u"
    using assms unfolding buckets_def times_upd by (cases "u = t"; cases "u = p") auto
qed

section \<open>The operations keep the invariant\<close>

lemma queue_remove_eq:
  assumes "expiry_inv q"
  shows "queue_remove q s = Inr (q\<lparr>session_to_expiration_time := (session_to_expiration_time q)(s := None),
      expiry_to_sessions := buckets ((session_to_expiration_time q)(s := None))\<rparr>,
      s \<in> dom (session_to_expiration_time q))"
proof (cases "session_to_expiration_time q s")
  case None
  then have "(session_to_expiration_time q)(s := None) = session_to_expiration_time q" by auto
  with None assms show ?thesis by (simp add: queue_remove_def expiry_inv_def domIff)
next
  case (Some t)
  then show ?thesis
    using assms buckets_del[of _ s t] buckets_Some[of _ s t]
    by (simp add: queue_remove_def expiry_inv_def Let_def domI)
qed

lemma setSessionExpirationTime_eq:
  assumes "expiry_inv q"
  shows "setSessionExpirationTime q s t =
    Inr (q\<lparr>session_to_expiration_time := (session_to_expiration_time q)(s \<mapsto> t),
      expiry_to_sessions := buckets ((session_to_expiration_time q)(s \<mapsto> t))\<rparr>)"
proof (cases "session_to_expiration_time q s")
  case None
  with assms show ?thesis
    by (simp add: setSessionExpirationTime_def expiry_inv_def Let_def buckets_upd_new)
next
  case (Some p)
  show ?thesis
  proof (cases "t = p")
    case True
    with Some have "(session_to_expiration_time q)(s \<mapsto> t) = session_to_expiration_time q"
      by (auto simp: fun_eq_iff)
    with True Some assms show ?thesis
      by (simp add: setSessionExpirationTime_def expiry_inv_def)
  next
    case False
    with Some assms show ?thesis
      using buckets_upd_move[of "session_to_expiration_time q" s p t]
        buckets_Some[of "session_to_expiration_time q" s p]
      by (simp add: setSessionExpirationTime_def expiry_inv_def Let_def)
  qed
qed

lemma expiry_inv_buckets:
  assumes "finite (dom f)"
  shows "expiry_inv (q\<lparr>session_to_expiration_time := f, expiry_to_sessions := buckets f\<rparr>)"
  using assms by (simp add: expiry_inv_def)

lemma queue_remove_inv:
  assumes "expiry_inv q" "queue_remove q s = Inr (q', r)"
  shows "expiry_inv q'"
  using assms by (auto simp: queue_remove_eq expiry_inv_def)

lemma setSessionExpirationTime_inv:
  assumes "expiry_inv q" "setSessionExpirationTime q s t = Inr q'"
  shows "expiry_inv q'"
  using assms by (auto simp: setSessionExpirationTime_eq expiry_inv_def)

section \<open>The expired sessions\<close>

lemma expired_from_takeWhile:
  "expired_from now ord q ts =
     concat (map (\<lambda>t. ord (case expiry_to_sessions q t of None \<Rightarrow> {} | Some b \<Rightarrow> b))
       (takeWhile (\<lambda>t. t <=s now) ts))"
  by (induction ts) auto

lemma takeWhile_keys:
  assumes "finite (dom m)"
  shows "takeWhile (\<lambda>t. t <=s now) (sorted_keys m) = filter (\<lambda>t. t <=s now) (sorted_keys m)"
proof -
  have "takeWhile (\<lambda>x. x \<le> sint now) (map sint (sorted_keys m)) =
      filter (\<lambda>x. x \<le> sint now) (map sint (sorted_keys m))"
    by (rule takeWhile_sorted_filter[OF sorted_sorted_keys[OF assms]])
  then have "map sint (takeWhile (\<lambda>t. t <=s now) (sorted_keys m)) =
      map sint (filter (\<lambda>t. t <=s now) (sorted_keys m))"
    by (simp add: takeWhile_map filter_map o_def word_sle_eq)
  moreover have "inj (sint :: int64 \<Rightarrow> int)" by (auto intro: injI signed_word_eqI)
  ultimately show ?thesis by (simp add: inj_map_eq_map)
qed

lemma set_getExpiredSessions:
  assumes inv: "expiry_inv q" and ord: "enumerates ord"
  shows "set (getExpiredSessions now ord q) =
    {s. \<exists>t. session_to_expiration_time q s = Some t \<and> t <=s now}" (is "?l = ?r")
proof -
  let ?f = "session_to_expiration_time q"
  have fin: "finite (dom ?f)" and b: "expiry_to_sessions q = buckets ?f"
    using inv by (auto simp: expiry_inv_def)
  have "finite {s. ?f s = Some t}" for t
    by (rule finite_subset[OF _ fin]) auto
  then have "?l = (\<Union>t \<in> {t \<in> dom (buckets ?f). t <=s now}. {s. ?f s = Some t})"
    using finite_dom_buckets[OF fin]
    by (simp add: getExpiredSessions_def b expired_from_takeWhile takeWhile_keys enumeratesD[OF ord])
  also have "\<dots> = ?r" by (auto simp: buckets_def split: if_splits) blast
  finally show ?thesis .
qed

lemma distinct_getExpiredSessions:
  assumes inv: "expiry_inv q" and ord: "enumerates ord"
  shows "distinct (getExpiredSessions now ord q)"
proof -
  let ?f = "session_to_expiration_time q"
  have fin: "finite (dom ?f)" and b: "expiry_to_sessions q = buckets ?f"
    using inv by (auto simp: expiry_inv_def)
  have fb: "finite {s. ?f s = Some t}" for t
    by (rule finite_subset[OF _ fin]) auto
  have "distinct (concat (map (\<lambda>t. ord {s. ?f s = Some t}) ts))" if "distinct ts" for ts
    using that fb by (induction ts) (auto simp: enumeratesD[OF ord])
  then show ?thesis
    using finite_dom_buckets[OF fin]
    by (simp add: getExpiredSessions_def b expired_from_takeWhile takeWhile_keys)
qed

section \<open>Rounding\<close>

lemma sint_roundToNextInterval:
  assumes "0 < sint (expiration_interval q)" "0 \<le> sint time"
    and "sint time + sint (expiration_interval q) < 2 ^ 63"
  shows "sint (roundToNextInterval q time) =
    (sint time div sint (expiration_interval q) + 1) * sint (expiration_interval q)"
proof -
  let ?i = "sint (expiration_interval q)" and ?x = "sint time"
  let ?r = "(?x div ?i + 1) * ?i"
  have sdiv: "?x sdiv ?i = ?x div ?i"
    using assms by (simp add: signed_divide_int_def sgn_if)
  have eq: "roundToNextInterval q time = word_of_int ?r"
    by (simp add: roundToNextInterval_def sdiv)
  have "?r \<le> ?x + ?i"
    using assms(1) by (simp add: distrib_right minus_mod_eq_div_mult[symmetric])
  moreover have "0 \<le> ?r" using assms by (simp add: pos_imp_zdiv_nonneg_iff)
  ultimately show ?thesis
    unfolding eq using assms(3) by (intro sint_word_of_int_no_overflow) linarith+
qed

lemma roundToNextInterval_bounds:
  assumes "0 < sint (expiration_interval q)" "0 \<le> sint time"
    and "sint time + sint (expiration_interval q) < 2 ^ 63"
  shows "sint time < sint (roundToNextInterval q time)"
    and "sint (roundToNextInterval q time) \<le> sint time + sint (expiration_interval q)"
    and "sint (expiration_interval q) dvd sint (roundToNextInterval q time)"
proof -
  let ?i = "sint (expiration_interval q)" and ?x = "sint time"
  have "?x = ?x div ?i * ?i + ?x mod ?i" by simp
  moreover have "0 \<le> ?x mod ?i" "?x mod ?i < ?i" using assms(1) by auto
  ultimately show "?x < sint (roundToNextInterval q time)"
    and "sint (roundToNextInterval q time) \<le> ?x + ?i"
    unfolding sint_roundToNextInterval[OF assms] distrib_right by linarith+
  show "?i dvd sint (roundToNextInterval q time)"
    by (simp add: sint_roundToNextInterval[OF assms])
qed

section \<open>The contract of the queue\<close>

text \<open>
  The abstract queue is a map from sessions to times. An implementation has an abstraction
  function to it; \<open>set_time\<close> and \<open>remove\<close> commute with it, never fail on states of the invariant,
  and \<open>expired\<close> lists the sessions whose time has come.
\<close>

locale expiry_contract =
  fixes inv :: "'q \<Rightarrow> bool" and times :: "'q \<Rightarrow> ('s \<rightharpoonup> 't)" and due :: "'t \<Rightarrow> 't \<Rightarrow> bool"
    and set_time :: "'q \<Rightarrow> 's \<Rightarrow> 't \<Rightarrow> 'e + 'q" and remove :: "'q \<Rightarrow> 's \<Rightarrow> 'e + ('q \<times> bool)"
    and expired :: "'t \<Rightarrow> ('s set \<Rightarrow> 's list) \<Rightarrow> 'q \<Rightarrow> 's list"
  assumes set_ok: "inv q \<Longrightarrow> \<exists>q'. set_time q s t = Inr q' \<and> inv q' \<and> times q' = (times q)(s \<mapsto> t)"
    and remove_ok: "inv q \<Longrightarrow>
      \<exists>q'. remove q s = Inr (q', s \<in> dom (times q)) \<and> inv q' \<and> times q' = (times q)(s := None)"
    and expired_ok: "inv q \<Longrightarrow> enumerates ord \<Longrightarrow>
      set (expired now ord q) = {s. \<exists>t. times q s = Some t \<and> due t now} \<and> distinct (expired now ord q)"
begin

lemma expired_after_set:
  assumes "inv q" "enumerates ord" "set_time q s t = Inr q'"
  shows "s \<in> set (expired now ord q') \<longleftrightarrow> due t now"
    and "r \<noteq> s \<Longrightarrow> r \<in> set (expired now ord q') \<longleftrightarrow> r \<in> set (expired now ord q)"
  using set_ok[OF assms(1), of s t] assms(3) expired_ok[OF _ assms(2)] assms(1) by auto

lemma expired_after_remove:
  assumes "inv q" "enumerates ord" "remove q s = Inr (q', b)"
  shows "set (expired now ord q') = set (expired now ord q) - {s}"
  using remove_ok[OF assms(1), of s] assms(3) expired_ok[OF _ assms(2)] assms(1)
  by (auto split: if_splits)

end

interpretation expiry: expiry_contract expiry_inv session_to_expiration_time "\<lambda>t now. t <=s now"
  setSessionExpirationTime queue_remove getExpiredSessions
proof
  fix q s t assume inv: "expiry_inv q"
  show "\<exists>q'. setSessionExpirationTime q s t = Inr q' \<and> expiry_inv q'
      \<and> session_to_expiration_time q' = (session_to_expiration_time q)(s \<mapsto> t)"
    using inv by (simp add: setSessionExpirationTime_eq expiry_inv_def)
next
  fix q s assume inv: "expiry_inv q"
  show "\<exists>q'. queue_remove q s = Inr (q', s \<in> dom (session_to_expiration_time q)) \<and> expiry_inv q'
      \<and> session_to_expiration_time q' = (session_to_expiration_time q)(s := None)"
    using inv by (simp add: queue_remove_eq expiry_inv_def)
qed (simp add: set_getExpiredSessions distinct_getExpiredSessions)

section \<open>Properties\<close>

text \<open>
  C16. A session that is added or refreshed at time \<open>now\<close> with timeout \<open>timeout\<close> is not reported as
  expired at any time up to \<open>now + timeout\<close>, and is reported at every time from
  \<open>now + timeout + expiration_interval\<close> on, as long as the clock arithmetic does not overflow.
\<close>

theorem session_expires_on_time:
  assumes inv: "expiry_inv q" and ord: "enumerates ord"
    and add: "addNewSessionOrUpdate now q sid timeout = Inr q'"
    and pos: "0 < sint (expiration_interval q)" "0 \<le> sint now" "0 \<le> sint timeout"
    and room: "sint now + sint timeout + sint (expiration_interval q) < 2 ^ 63"
  shows "(sint now' \<le> sint now + sint timeout \<longrightarrow> sid \<notin> set (getExpiredSessions now' ord q'))
    \<and> (sint now + sint timeout + sint (expiration_interval q) \<le> sint now' \<longrightarrow>
        sid \<in> set (getExpiredSessions now' ord q'))"
proof -
  let ?t = "now + timeout"
  have sum: "sint ?t = sint now + sint timeout"
    using pos room by (intro sint_add_no_overflow) linarith+
  have bounds: "sint ?t < sint (roundToNextInterval q ?t)"
    "sint (roundToNextInterval q ?t) \<le> sint ?t + sint (expiration_interval q)"
    using roundToNextInterval_bounds[of q ?t] pos room unfolding sum by linarith+
  have "sid \<in> set (getExpiredSessions now' ord q') \<longleftrightarrow> roundToNextInterval q ?t <=s now'"
    using expiry.expired_after_set(1)[OF inv ord] add by (simp add: addNewSessionOrUpdate_def)
  with bounds sum show ?thesis by (auto simp: word_sle_eq)
qed

definition sorted_sids :: "int64 set \<Rightarrow> int64 list" where
  "sorted_sids S = map word_of_int (sorted_list_of_set (sint ` S))"

lemma enumerates_sorted_sids: "enumerates sorted_sids"
  unfolding enumerates_def
proof (intro allI impI)
  fix S :: "int64 set"
  assume fin: "finite S"
  let ?m = "\<lambda>s. if s \<in> S then Some () else None"
  have "dom ?m = S" by (auto split: if_splits)
  then show "set (sorted_sids S) = S \<and> distinct (sorted_sids S)"
    using set_sorted_keys[of ?m] distinct_sorted_keys[of ?m] fin
    by (simp add: sorted_keys_def sorted_sids_def)
qed

theorem session_expires_on_time_witness:
  "7 \<notin> set (getExpiredSessions 31000 sorted_sids
      (projr (addNewSessionOrUpdate 1000 (new_expiry_queue 500) 7 30000)))
   \<and> 7 \<in> set (getExpiredSessions 31500 sorted_sids
      (projr (addNewSessionOrUpdate 1000 (new_expiry_queue 500) 7 30000)))"
proof -
  let ?q = "new_expiry_queue 500"
  obtain q' where q': "addNewSessionOrUpdate 1000 ?q 7 30000 = Inr q'"
    by (simp add: addNewSessionOrUpdate_def setSessionExpirationTime_eq)
  have i: "expiration_interval ?q = 500" by (simp add: new_expiry_queue_def)
  show ?thesis
    using session_expires_on_time[OF expiry_inv_new enumerates_sorted_sids q', of 31000]
      session_expires_on_time[OF expiry_inv_new enumerates_sorted_sids q', of 31500]
    by (simp add: i q')
qed

end
