(* ===== verification/Paths.thy ===== *)
theory Paths
  imports Prelude
begin

text \<open>
  The path helpers of \<open>src/src/Service/KeeperStore.cpp\<close> (\<open>parentPath\<close>, \<open>getBaseName\<close>) and the
  suffix of sequential nodes. \<open>std::string::rfind\<close> is \<open>rfind_slash\<close>, with \<open>None\<close> for
  \<open>npos\<close>. Shown: splitting a path at its last separator and joining again is the identity for every
  path but those of the form \<open>//name\<close>, joining and splitting is the identity, and the suffixes of
  sequential nodes are injective, ten characters wide and ordered like the numbers.
\<close>

section \<open>Definitions\<close>

fun rfind_slash :: "string \<Rightarrow> nat option" where
  "rfind_slash [] = None"
| "rfind_slash (c # cs) =
     (case rfind_slash cs of
        Some k \<Rightarrow> Some (Suc k)
      | None \<Rightarrow> if c = CHR ''/'' then Some 0 else None)"

text \<open>
  \<open>rslash_pos > 0\<close> holds for \<open>npos\<close> too, and then \<open>substr\<close> is the whole string.
\<close>

definition parentPath :: "string \<Rightarrow> string" where
  "parentPath path =
     (case rfind_slash path of
        None \<Rightarrow> path
      | Some rslash_pos \<Rightarrow> if rslash_pos > 0 then take rslash_pos path else ''/'')"

text \<open>For \<open>npos\<close> the start \<open>npos + 1\<close> wraps to 0 and the length is that of the path.\<close>

definition getBaseName :: "string \<Rightarrow> string" where
  "getBaseName path =
     (case rfind_slash path of
        None \<Rightarrow> path
      | Some basename_start \<Rightarrow> drop (basename_start + 1) path)"

definition child_path :: "string \<Rightarrow> string \<Rightarrow> string" where
  "child_path p b = (if p = ''/'' then p @ b else p @ ''/'' @ b)"

text \<open>
  \<open>std::stringstream\<close> output of a signed integer with \<open>setw(10)\<close> and \<open>setfill('0')\<close>: the decimal
  digits, after a minus sign if negative, filled on the left.
\<close>

definition digit_char :: "nat \<Rightarrow> char" where
  "digit_char d = char_of (48 + d)"

fun nat_to_string :: "nat \<Rightarrow> string" where
  "nat_to_string n =
     (if n < 10 then [digit_char n] else nat_to_string (n div 10) @ [digit_char (n mod 10)])"

declare nat_to_string.simps [simp del]

definition int_to_string :: "int \<Rightarrow> string" where
  "int_to_string i = (if i < 0 then ''-'' @ nat_to_string (nat (- i)) else nat_to_string (nat i))"

definition seq_num_str :: "int32 \<Rightarrow> string" where
  "seq_num_str seq_num =
     (let s = int_to_string (sint seq_num) in replicate (10 - length s) (CHR ''0'') @ s)"

section \<open>The last separator\<close>

lemma rfind_slash_None: "rfind_slash p = None \<longleftrightarrow> CHR ''/'' \<notin> set p"
  by (induction p) (auto split: option.splits)

lemma rfind_slash_Some:
  "rfind_slash p = Some k \<longleftrightarrow>
     k < length p \<and> p ! k = CHR ''/'' \<and> CHR ''/'' \<notin> set (drop (Suc k) p)"
proof (induction p arbitrary: k)
  case (Cons c cs)
  show ?case
  proof (cases "rfind_slash cs")
    case None
    then have "CHR ''/'' \<notin> set cs" by (simp add: rfind_slash_None)
    with None show ?thesis by (cases k) (auto dest: nth_mem)
  next
    case (Some j)
    have "rfind_slash (c # cs) = Some k \<longleftrightarrow> (\<exists>i. k = Suc i \<and> rfind_slash cs = Some i)"
      using Some by auto
    also have "\<dots> \<longleftrightarrow> k < length (c # cs) \<and> (c # cs) ! k = CHR ''/''
        \<and> CHR ''/'' \<notin> set (drop (Suc k) (c # cs))"
    proof (cases k)
      case 0
      have "CHR ''/'' \<in> set cs" using Some rfind_slash_None[of cs] by auto
      with 0 show ?thesis by simp
    qed (use Cons.IH in simp)
    finally show ?thesis .
  qed
qed simp

lemma rfind_slash_append:
  "CHR ''/'' \<notin> set b \<Longrightarrow> rfind_slash (p @ b) = rfind_slash p"
  by (induction p) (auto simp: rfind_slash_None split: option.splits)

lemma rfind_slash_join:
  "CHR ''/'' \<notin> set b \<Longrightarrow> rfind_slash (p @ CHR ''/'' # b) = Some (length p)"
  by (induction p) (auto simp: rfind_slash_None[THEN iffD2])

lemma parentPath_append [simp]:
  assumes "CHR ''/'' \<in> set p" "CHR ''/'' \<notin> set b"
  shows "parentPath (p @ b) = parentPath p"
proof -
  obtain k where "rfind_slash p = Some k"
    using assms(1) rfind_slash_None[of p] by fastforce
  moreover then have "k < length p" by (simp add: rfind_slash_Some)
  ultimately show ?thesis using assms by (simp add: parentPath_def rfind_slash_append)
qed

lemma getBaseName_append [simp]:
  assumes "CHR ''/'' \<notin> set b"
  shows "getBaseName (p @ b) = getBaseName p @ b"
proof (cases "rfind_slash p")
  case (Some k)
  then have "k < length p" by (simp add: rfind_slash_Some)
  with Some assms show ?thesis by (simp add: getBaseName_def rfind_slash_append)
qed (simp add: getBaseName_def rfind_slash_append assms)

lemma getBaseName_no_slash: "CHR ''/'' \<notin> set (getBaseName p)"
  by (auto simp: getBaseName_def rfind_slash_None rfind_slash_Some split: option.splits)

lemma parent_child [simp]:
  assumes "p \<noteq> []" "CHR ''/'' \<notin> set b"
  shows "parentPath (child_path p b) = p"
  using assms rfind_slash_join[of b p] rfind_slash_join[of b "[]"]
  by (auto simp: child_path_def parentPath_def)

lemma base_child [simp]:
  assumes "CHR ''/'' \<notin> set b"
  shows "getBaseName (child_path p b) = b"
  using assms rfind_slash_join[of b p] rfind_slash_join[of b "[]"]
  by (auto simp: child_path_def getBaseName_def)

section \<open>Canonical paths\<close>

text \<open>
  A path below the root is canonical when it has a name and is the join of its parent and its
  name. The only other paths with a name and a separator are those of the form \<open>//name\<close>.
\<close>

definition canonical :: "string \<Rightarrow> bool" where
  "canonical p \<longleftrightarrow> getBaseName p \<noteq> [] \<and> child_path (parentPath p) (getBaseName p) = p"

definition double_slash :: "string \<Rightarrow> bool" where
  "double_slash p \<longleftrightarrow> (\<exists>b. p = ''//'' @ b \<and> CHR ''/'' \<notin> set b)"

lemma double_slash_code [code]:
  "double_slash p \<longleftrightarrow> take 2 p = ''//'' \<and> CHR ''/'' \<notin> set (drop 2 p)"
  unfolding double_slash_def
  by (metis append_eq_conv_conj append_take_drop_id length_Cons list.size(3) numeral_2_eq_2)

lemma split_path:
  assumes "rfind_slash p = Some k"
  shows "p = take k p @ CHR ''/'' # getBaseName p"
proof -
  have "k < length p" "p ! k = CHR ''/''" using assms by (simp_all add: rfind_slash_Some)
  then show ?thesis using assms id_take_nth_drop[of k p] by (simp add: getBaseName_def)
qed

lemma canonical_iff:
  "canonical p \<longleftrightarrow> CHR ''/'' \<in> set p \<and> getBaseName p \<noteq> [] \<and> \<not> double_slash p"
proof (cases "rfind_slash p")
  case None
  then have no: "CHR ''/'' \<notin> set p" by (simp add: rfind_slash_None)
  have "child_path p p \<noteq> p" by (simp add: child_path_def)
  with None no show ?thesis by (simp add: canonical_def parentPath_def getBaseName_def)
next
  case (Some k)
  then have slash: "CHR ''/'' \<in> set p" using rfind_slash_None[of p] by fastforce
  have p: "p = take k p @ CHR ''/'' # getBaseName p" by (rule split_path[OF Some])
  have kl: "k < length p" using Some by (simp add: rfind_slash_Some)
  have nb: "CHR ''/'' \<notin> set (getBaseName p)" by (rule getBaseName_no_slash)
  show ?thesis
  proof (cases "k = 0")
    case True
    with p have p0: "p = CHR ''/'' # getBaseName p" by simp
    then have "\<not> double_slash p" using nb by (metis append_Cons double_slash_def list.inject list.set_intros(1))
    moreover have "child_path ''/'' (getBaseName p) = p" using p0 by (simp add: child_path_def)
    ultimately show ?thesis using Some True slash by (simp add: canonical_def parentPath_def)
  next
    case False
    have par: "parentPath p = take k p" using Some False by (simp add: parentPath_def)
    have "double_slash p \<longleftrightarrow> take k p = ''/''"
    proof
      assume "double_slash p"
      then obtain b where b: "p = ''//'' @ b" "CHR ''/'' \<notin> set b" by (auto simp: double_slash_def)
      then have "rfind_slash p = Some 1" using rfind_slash_join[of b "''/''"] by simp
      with Some b show "take k p = ''/''" by simp
    next
      assume "take k p = ''/''"
      with p nb show "double_slash p" by (metis append_Cons append_Nil double_slash_def)
    qed
    moreover have "child_path (take k p) (getBaseName p) = p \<longleftrightarrow> take k p \<noteq> ''/''"
    proof (cases "take k p = ''/''")
      case True
      then have "length (child_path (take k p) (getBaseName p)) < length p"
        by (subst (3) p) (simp add: child_path_def)
      with True show ?thesis by auto
    next
      case False
      with p show ?thesis by (simp add: child_path_def)
    qed
    ultimately show ?thesis by (auto simp: canonical_def par slash)
  qed
qed

lemma double_slash_append:
  assumes "CHR ''/'' \<in> set p" "CHR ''/'' \<notin> set b"
  shows "double_slash (p @ b) \<longleftrightarrow> double_slash p"
proof
  assume "double_slash (p @ b)"
  then obtain c where c: "p @ b = ''//'' @ c" "CHR ''/'' \<notin> set c" by (auto simp: double_slash_def)
  from assms(1) obtain x p' where p: "p = x # p'" by (cases p) auto
  show "double_slash p"
  proof (cases p')
    case Nil
    with c p assms(2) show ?thesis by auto
  next
    case (Cons y q)
    with c p show ?thesis by (auto simp: double_slash_def)
  qed
qed (use assms(2) in \<open>auto simp: double_slash_def\<close>)

lemma canonicalD:
  assumes "canonical p"
  shows "child_path (parentPath p) (getBaseName p) = p" "getBaseName p \<noteq> []" "p \<noteq> ''/''"
    "p \<noteq> []" "CHR ''/'' \<in> set p"
proof -
  show "child_path (parentPath p) (getBaseName p) = p" "getBaseName p \<noteq> []"
    using assms by (simp_all add: canonical_def)
  show "CHR ''/'' \<in> set p" using assms by (simp add: canonical_iff)
  then show "p \<noteq> []" by auto
  show "p \<noteq> ''/''" using \<open>getBaseName p \<noteq> []\<close> by (auto simp: getBaseName_def)
qed

lemma parentPath_neq:
  assumes "canonical p"
  shows "parentPath p \<noteq> p"
proof
  assume "parentPath p = p"
  with canonicalD(1)[OF assms] have "child_path p (getBaseName p) = p" by simp
  with canonicalD(2,3)[OF assms] show False by (simp add: child_path_def)
qed

lemma length_parentPath:
  assumes "canonical p"
  shows "length (parentPath p) < length p"
proof -
  have "length p = length (child_path (parentPath p) (getBaseName p))"
    using canonicalD(1)[OF assms] by simp
  then show ?thesis using canonicalD(2)[OF assms] by (auto simp: child_path_def)
qed

lemma canonical_child:
  assumes "p = ''/'' \<or> canonical p" "b \<noteq> []" "CHR ''/'' \<notin> set b"
  shows "canonical (child_path p b)"
  using assms canonicalD(4)[of p] by (auto simp: canonical_def)

lemma parent_root [simp]: "parentPath ''/'' = ''/''" and base_root [simp]: "getBaseName ''/'' = []"
  by (simp_all add: parentPath_def getBaseName_def)

section \<open>The suffix of sequential nodes\<close>

definition is_digit :: "char \<Rightarrow> bool" where
  "is_digit c \<longleftrightarrow> 48 \<le> (of_char c :: nat) \<and> (of_char c :: nat) < 58"

lemma digit_char_is_digit [simp]: "d < 10 \<Longrightarrow> is_digit (digit_char d)"
  by (simp add: is_digit_def digit_char_def)

lemma of_char_digit_char [simp]: "d < 10 \<Longrightarrow> of_char (digit_char d) = (48 + d :: nat)"
  by (simp add: digit_char_def)

lemma slash_no_digit [simp]: "\<not> is_digit (CHR ''/'')"
  by (simp add: is_digit_def)

lemma nat_to_string_digits: "c \<in> set (nat_to_string n) \<Longrightarrow> is_digit c"
proof (induction n arbitrary: c rule: nat_to_string.induct)
  case (1 n)
  then show ?case by (cases "n < 10") (auto simp: nat_to_string.simps[of n])
qed

lemma seq_num_str_no_slash [simp]: "CHR ''/'' \<notin> set (seq_num_str k)"
  using nat_to_string_digits[of "CHR ''/''"] by (auto simp: seq_num_str_def int_to_string_def Let_def)

lemma seq_num_str_length: "10 \<le> length (seq_num_str k)"
  by (simp add: seq_num_str_def Let_def)

lemma seq_num_str_nonempty [simp]: "seq_num_str k \<noteq> []"
  using seq_num_str_length[of k] by auto

fun digits_val :: "string \<Rightarrow> nat" where
  "digits_val [] = 0"
| "digits_val (c # cs) = (of_char c - 48) * 10 ^ length cs + digits_val cs"

lemma digits_val_append: "digits_val (xs @ ys) = digits_val xs * 10 ^ length ys + digits_val ys"
  by (induction xs) (auto simp: power_add algebra_simps)

lemma digits_val_nat_to_string: "digits_val (nat_to_string n) = n"
  by (induction n rule: nat_to_string.induct)
     (subst nat_to_string.simps, auto simp: digits_val_append)

lemma digits_val_zeros [simp]: "digits_val (replicate k (CHR ''0'')) = 0"
  by (induction k) auto

lemma digits_val_less:
  "(\<And>c. c \<in> set xs \<Longrightarrow> is_digit c) \<Longrightarrow> digits_val xs < 10 ^ length xs"
proof (induction xs)
  case (Cons c cs)
  then have "digits_val cs < 10 ^ length cs" by simp
  moreover have "of_char c - 48 \<le> (9 :: nat)" using Cons.prems[of c] by (auto simp: is_digit_def)
  then have "(of_char c - 48) * 10 ^ length cs \<le> (9 :: nat) * 10 ^ length cs"
    by (rule mult_le_mono1)
  ultimately show ?case unfolding digits_val.simps length_Cons power_Suc by linarith
qed simp

lemma digits_lexorder:
  assumes "length xs = length ys" "\<And>c. c \<in> set xs \<union> set ys \<Longrightarrow> is_digit c"
  shows "xs < ys \<longleftrightarrow> digits_val xs < digits_val ys"
  using assms
proof (induction xs ys rule: list_induct2)
  case (Cons x xs y ys)
  let ?n = "10 ^ length ys :: nat"
  let ?dx = "of_char x - 48 :: nat" and ?dy = "of_char y - 48 :: nat"
  have bx: "digits_val xs < ?n" using digits_val_less[of xs] Cons by auto
  have b_y: "digits_val ys < ?n" using digits_val_less[of ys] Cons by auto
  have dx: "48 \<le> (of_char x :: nat)" "48 \<le> (of_char y :: nat)"
    using Cons.prems by (auto simp: is_digit_def)
  have step: "a * ?n + r < b * ?n + s" if "a < b" "r < ?n" for a b r s :: nat
  proof -
    have "a * ?n + r < (a + 1) * ?n" using that(2) by (simp add: algebra_simps)
    also have "\<dots> \<le> b * ?n" using that(1) by (intro mult_le_mono1) simp
    finally show ?thesis by simp
  qed
  consider "x < y" | "x = y" | "y < x" by (rule linorder_cases)
  then show ?case
  proof cases
    case 1
    then have "?dx < ?dy" using dx by (auto simp: less_char_def)
    with step[OF this bx] 1 Cons.hyps show ?thesis by simp
  next
    case 2
    then show ?thesis using Cons by simp
  next
    case 3
    then have "?dy < ?dx" using dx by (auto simp: less_char_def)
    from step[OF this b_y, of "digits_val xs"] 3 Cons.hyps show ?thesis by (auto simp: less_char_def)
  qed
qed simp

lemma nat_to_string_length: "n < 10 ^ k \<Longrightarrow> 0 < k \<Longrightarrow> length (nat_to_string n) \<le> k"
proof (induction n arbitrary: k rule: nat_to_string.induct)
  case (1 n)
  show ?case
  proof (cases "n < 10")
    case False
    with 1(2,3) obtain j where k: "k = Suc j" "0 < j" by (cases k; cases "k - 1") auto
    with 1(2) have "n div 10 < 10 ^ j" by (simp add: less_mult_imp_div_less mult.commute)
    with 1(1)[OF False this k(2)] False k show ?thesis by (subst nat_to_string.simps) simp
  qed (use 1 in \<open>subst nat_to_string.simps, simp\<close>)
qed

lemma seq_num_str_nonneg:
  assumes "0 \<le> sint k"
  shows "length (seq_num_str k) = 10" "digits_val (seq_num_str k) = nat (sint k)"
    "c \<in> set (seq_num_str k) \<Longrightarrow> is_digit c"
proof -
  have "sint k < 2 ^ 31" using sint_lt[of k] by simp
  then have "nat (sint k) < 10 ^ 10" by simp
  then have l: "length (nat_to_string (nat (sint k))) \<le> 10" by (rule nat_to_string_length) simp
  have s: "seq_num_str k = replicate (10 - length (nat_to_string (nat (sint k)))) (CHR ''0'')
      @ nat_to_string (nat (sint k))"
    using assms by (simp add: seq_num_str_def int_to_string_def Let_def)
  show "length (seq_num_str k) = 10" using l by (simp add: s)
  show "digits_val (seq_num_str k) = nat (sint k)"
    by (simp add: s digits_val_append digits_val_nat_to_string)
  show "c \<in> set (seq_num_str k) \<Longrightarrow> is_digit c"
    by (auto simp: s is_digit_def dest: nat_to_string_digits)
qed

lemma seq_num_str_order:
  assumes "0 \<le> sint j" "0 \<le> sint k"
  shows "seq_num_str j < seq_num_str k \<longleftrightarrow> sint j < sint k"
proof -
  have "seq_num_str j < seq_num_str k \<longleftrightarrow> digits_val (seq_num_str j) < digits_val (seq_num_str k)"
    using assms by (intro digits_lexorder) (auto simp: seq_num_str_nonneg)
  then show ?thesis using assms by (auto simp: seq_num_str_nonneg)
qed

end
