(* ===== verification/Store_Data.thy ===== *)
theory Store_Data
  imports Acl_Map Expiry_Queue Paths
begin

text \<open>
  The state of \<open>KeeperStore\<close> (\<open>src/src/Service/KeeperStore.h\<close>) and the static helpers of
  \<open>KeeperStore.cpp\<close>: nodes and their statistics for responses, digests, access control, and the
  triggering of watches. The container is a map from paths to nodes: the pointers that the hash
  blocks hold are never shared between two paths, so an assignment through a pointer is an update
  of the map. The mutexes of the store guard single operations; the model is the sequential
  behaviour. What the code takes from outside is the record \<open>env\<close>: the system clock, the digest
  functions of Poco and boost, and the order in which hash sets are iterated.
\<close>

unbundle bit_operations_syntax

section \<open>Environment\<close>

record env =
  now_ms :: int64
  sha1_digest :: "string \<Rightarrow> string"
  base64_encode :: "string \<Rightarrow> string"
  split_colon :: "string \<Rightarrow> string list"
  path_order :: "string set \<Rightarrow> string list"
  sid_order :: "int64 set \<Rightarrow> int64 list"

definition env_ok :: "env \<Rightarrow> bool" where
  "env_ok E \<longleftrightarrow> enumerates (path_order E) \<and> enumerates (sid_order E)"

section \<open>State\<close>

record KeeperNode =
  node_data :: string
  node_acl_id :: uint64
  is_ephemeral :: bool
  is_sequental :: bool
  node_stat :: Stat
  children :: "string set"

definition new_node :: KeeperNode where
  "new_node = \<lparr>node_data = [], node_acl_id = 0, is_ephemeral = False, is_sequental = False,
     node_stat = zero_stat, children = {}\<rparr>"

definition statForResponse :: "KeeperNode \<Rightarrow> Stat" where
  "statForResponse n =
     (node_stat n)\<lparr>numChildren := of_nat (card (children n)),
       cversion := cversion (node_stat n) * 2 - numChildren (node_stat n)\<rparr>"

type_synonym Container = "string \<rightharpoonup> KeeperNode"
type_synonym Watches = "string \<rightharpoonup> int64 list"
type_synonym ResponseForSession = "int64 \<times> response"

record KeeperStore =
  session_id_counter :: int64
  session_and_auth :: "int64 \<rightharpoonup> AuthIDs"
  container :: Container
  ephemerals :: "int64 \<rightharpoonup> string set"
  session_expiry_queue :: expiry_queue
  session_and_timeout :: "int64 \<rightharpoonup> int64"
  sessions_and_watchers :: "int64 \<rightharpoonup> string set"
  watches :: Watches
  list_watches :: Watches
  store_acl_map :: acl_map
  zxid :: int64
  finalized :: bool
  super_digest :: string

definition new_KeeperStore :: "int64 \<Rightarrow> string \<Rightarrow> KeeperStore" where
  "new_KeeperStore tick_time_ms digest =
     \<lparr>session_id_counter = 1, session_and_auth = Map.empty, container = [''/'' \<mapsto> new_node],
      ephemerals = Map.empty, session_expiry_queue = new_expiry_queue tick_time_ms,
      session_and_timeout = Map.empty, sessions_and_watchers = Map.empty, watches = Map.empty,
      list_watches = Map.empty, store_acl_map = empty_acl_map, zxid = 0, finalized = False,
      super_digest = digest\<rparr>"

text \<open>\<open>operator[]\<close> of a hash map of sets, followed by \<open>emplace\<close> or \<open>erase\<close>.\<close>

definition set_entry :: "('k \<rightharpoonup> 'a set) \<Rightarrow> 'k \<Rightarrow> 'a set" where
  "set_entry m k = (case m k of None \<Rightarrow> {} | Some S \<Rightarrow> S)"

definition entry_insert :: "('k \<rightharpoonup> 'a set) \<Rightarrow> 'k \<Rightarrow> 'a \<Rightarrow> 'k \<rightharpoonup> 'a set" where
  "entry_insert m k x = m(k \<mapsto> insert x (set_entry m k))"

definition entry_erase :: "('k \<rightharpoonup> 'a set) \<Rightarrow> 'k \<Rightarrow> 'a \<Rightarrow> 'k \<rightharpoonup> 'a set" where
  "entry_erase m k x = m(k \<mapsto> set_entry m k - {x})"

definition list_entry :: "('k \<rightharpoonup> 'a list) \<Rightarrow> 'k \<Rightarrow> 'a list" where
  "list_entry m k = (case m k of None \<Rightarrow> [] | Some xs \<Rightarrow> xs)"

definition set_response :: "ResponseForSession list \<Rightarrow> bool \<Rightarrow> ResponseForSession list" where
  "set_response responses ignore_response = (if \<not> ignore_response then responses else [])"

section \<open>Digests and access control\<close>

text \<open>\<open>user_password[0]\<close> is the first part of the split, which boost never leaves empty.\<close>

definition generateDigest :: "env \<Rightarrow> string \<Rightarrow> string" where
  "generateDigest E userdata =
     hd (split_colon E userdata) @ '':'' @ base64_encode E (sha1_digest E userdata)"

fun acl_grants :: "int32 \<Rightarrow> ACLs \<Rightarrow> AuthIDs \<Rightarrow> bool" where
  "acl_grants permission [] session_auths = False"
| "acl_grants permission (node_acl # node_acls) session_auths =
     (if permissions node_acl AND permission \<noteq> 0 then
        if scheme node_acl = ''world'' \<and> ident node_acl = ''anyone'' then True
        else if list_ex (\<lambda>a. scheme node_acl = auth_scheme a \<and> ident node_acl = auth_ident a) session_auths
        then True
        else acl_grants permission node_acls session_auths
      else acl_grants permission node_acls session_auths)"

definition checkACL :: "int32 \<Rightarrow> ACLs \<Rightarrow> AuthIDs \<Rightarrow> bool" where
  "checkACL permission node_acls session_auths =
     (if node_acls = [] then True
      else if list_ex (\<lambda>a. auth_scheme a = ''super'') session_auths then True
      else acl_grants permission node_acls session_auths)"

text \<open>
  \<open>fixupACL\<close> returns whether a valid entry was found and the resulting list; \<open>None\<close> is the early
  return on a malformed digest entry, after which the result list is not used.
\<close>

fun fixup_loop :: "ACLs \<Rightarrow> AuthIDs \<Rightarrow> bool \<Rightarrow> ACLs \<Rightarrow> (bool \<times> ACLs) option" where
  "fixup_loop [] current_ids valid_found result = Some (valid_found, result)"
| "fixup_loop (a # as) current_ids valid_found result =
     (if scheme a = ''auth'' then
        fixup_loop as current_ids (valid_found \<or> current_ids \<noteq> [])
          (result @ map (\<lambda>i. a\<lparr>scheme := auth_scheme i, ident := auth_ident i\<rparr>) current_ids)
      else if scheme a = ''world'' \<and> ident a = ''anyone'' then
        fixup_loop as current_ids True (result @ [a])
      else if scheme a = ''digest'' then
        if count_list (ident a) (CHR '':'') \<noteq> 1 then None
        else fixup_loop as current_ids True (result @ [a])
      else fixup_loop as current_ids valid_found result)"

definition fixupACL :: "ACLs \<Rightarrow> AuthIDs \<Rightarrow> bool \<times> ACLs" where
  "fixupACL request_acls current_ids =
     (if request_acls = [] then (True, [])
      else case fixup_loop request_acls current_ids False [] of
        None \<Rightarrow> (False, [])
      | Some r \<Rightarrow> r)"

section \<open>Watches\<close>

definition watch_response :: "Event \<Rightarrow> string \<Rightarrow> response" where
  "watch_response ev path = Response ZOK WATCH_XID (-1) 0 (WatchResponse (event_code ev) CONNECTED path)"

definition notify :: "response \<Rightarrow> int64 list \<Rightarrow> ResponseForSession list" where
  "notify r sessions = map (\<lambda>s. (s, r)) sessions"

definition trigger_data_watch ::
    "string \<Rightarrow> Event \<Rightarrow> Watches \<Rightarrow> Watches \<times> ResponseForSession list" where
  "trigger_data_watch path event_type w =
     (case w path of
        None \<Rightarrow> (w, [])
      | Some sessions \<Rightarrow> (w(path := None), notify (watch_response event_type path) sessions))"

fun trigger_list_watches ::
    "string \<Rightarrow> string list \<Rightarrow> Watches \<Rightarrow> Watches \<times> ResponseForSession list" where
  "trigger_list_watches parent_path [] lw = (lw, [])"
| "trigger_list_watches parent_path (path_to_check # ps) lw =
     (case lw path_to_check of
        None \<Rightarrow> trigger_list_watches parent_path ps lw
      | Some sessions \<Rightarrow>
          let ev = (if path_to_check = parent_path then CHILD else DELETED);
              (lw', rs) = trigger_list_watches parent_path ps (lw(path_to_check := None))
          in (lw', notify (watch_response ev path_to_check) sessions @ rs))"

definition paths_to_check_for_list_watches :: "string \<Rightarrow> Event \<Rightarrow> string list" where
  "paths_to_check_for_list_watches path event_type =
     (if event_type = CREATED then [parentPath path]
      else if event_type = DELETED then [path, parentPath path]
      else [])"

definition processWatchesImpl ::
    "string \<Rightarrow> Watches \<Rightarrow> Watches \<Rightarrow> Event \<Rightarrow> Watches \<times> Watches \<times> ResponseForSession list" where
  "processWatchesImpl path w lw event_type =
     (let (w', rs) = trigger_data_watch path event_type w;
          (lw', rs') = trigger_list_watches (parentPath path)
            (paths_to_check_for_list_watches path event_type) lw
      in (w', lw', rs @ rs'))"

definition shouldIncreaseZxid :: "request \<Rightarrow> bool" where
  "shouldIncreaseZxid r =
     (case req_body r of
        GetRequest _ \<Rightarrow> False
      | SetWatchesRequest _ _ _ _ \<Rightarrow> False
      | ExistsRequest _ \<Rightarrow> False
      | AuthRequest _ _ _ \<Rightarrow> False
      | HeartbeatRequest \<Rightarrow> False
      | ListRequest _ \<Rightarrow> False
      | SimpleListRequest _ \<Rightarrow> False
      | _ \<Rightarrow> True)"

section \<open>Sessions\<close>

text \<open>\<open>zxid++\<close> returns the value before the increment.\<close>

definition getZXID :: "KeeperStore \<Rightarrow> KeeperStore \<times> int64" where
  "getZXID s = (s\<lparr>zxid := zxid s + 1\<rparr>, zxid s)"

definition timeout_emplace :: "KeeperStore \<Rightarrow> int64 \<Rightarrow> int64 \<Rightarrow> int64 \<rightharpoonup> int64" where
  "timeout_emplace s sid timeout =
     (case session_and_timeout s sid of
        None \<Rightarrow> (session_and_timeout s)(sid \<mapsto> timeout)
      | Some _ \<Rightarrow> session_and_timeout s)"

definition getSessionID :: "env \<Rightarrow> KeeperStore \<Rightarrow> int64 \<Rightarrow> exc + (KeeperStore \<times> int64)" where
  "getSessionID E s session_timeout_ms =
     (let s1 = fst (getZXID s);
          result = session_id_counter s1;
          s2 = s1\<lparr>session_id_counter := result + 1,
                  session_and_timeout := timeout_emplace s1 result session_timeout_ms\<rparr>
      in case addNewSessionOrUpdate (now_ms E) (session_expiry_queue s2) result session_timeout_ms of
           Inl e \<Rightarrow> Inl e
         | Inr q \<Rightarrow> Inr (s2\<lparr>session_expiry_queue := q\<rparr>, result))"

definition addSessionID :: "env \<Rightarrow> KeeperStore \<Rightarrow> int64 \<Rightarrow> int64 \<Rightarrow> exc + KeeperStore" where
  "addSessionID E s session_id session_timeout_ms =
     (let s1 = s\<lparr>session_and_timeout := timeout_emplace s session_id session_timeout_ms\<rparr>
      in case addNewSessionOrUpdate (now_ms E) (session_expiry_queue s1) session_id session_timeout_ms of
           Inl e \<Rightarrow> Inl e
         | Inr q \<Rightarrow> Inr (s1\<lparr>session_expiry_queue := q\<rparr>))"

definition getDeadSessions :: "env \<Rightarrow> KeeperStore \<Rightarrow> int64 list" where
  "getDeadSessions E s = getExpiredSessions (now_ms E) (sid_order E) (session_expiry_queue s)"

definition handleRemoteSession :: "KeeperStore \<Rightarrow> int64 \<Rightarrow> int64 \<Rightarrow> exc + KeeperStore" where
  "handleRemoteSession s session_id expiration_time =
     (case setSessionExpirationTime (session_expiry_queue s) session_id expiration_time of
        Inl e \<Rightarrow> Inl e
      | Inr q \<Rightarrow> Inr (s\<lparr>session_expiry_queue := q\<rparr>))"

definition updateSessionTimeout :: "env \<Rightarrow> KeeperStore \<Rightarrow> int64 \<Rightarrow> exc + (KeeperStore \<times> bool)" where
  "updateSessionTimeout E s session_id =
     (case session_and_timeout s session_id of
        None \<Rightarrow> Inr (s, False)
      | Some timeout \<Rightarrow>
          (case addNewSessionOrUpdate (now_ms E) (session_expiry_queue s) session_id timeout of
             Inl e \<Rightarrow> Inl e
           | Inr q \<Rightarrow> Inr (s\<lparr>session_expiry_queue := q\<rparr>, True)))"

definition containsSession :: "KeeperStore \<Rightarrow> int64 \<Rightarrow> bool" where
  "containsSession s session_id \<longleftrightarrow> session_id \<in> dom (session_and_timeout s)"

end
