(* ===== verification/Store_Requests.thy ===== *)
theory Store_Requests
  imports Store_Data
begin

text \<open>
  The \<open>StoreRequest\<close> classes of \<open>src/src/Service/KeeperStore.cpp\<close>: for each request type its
  \<open>checkAuth\<close>, \<open>process\<close> and \<open>processWatches\<close>, and the undo closures. An undo closure is a value
  of \<open>undo\<close> that holds what the lambda captures; \<open>run_undo\<close> calls it. \<open>process\<close> returns the new
  store with either an exception or the response and its undo. Following a null node pointer is
  the exception \<open>NULL_DEREFERENCE\<close>, which no handler catches.
\<close>

section \<open>Results\<close>

datatype undo =
    NoUndo
  | UndoCreate int64 string int64 bool string string uint64
  | UndoRemove KeeperNode int64 string int64 string
  | UndoSet string KeeperNode

type_synonym result = "KeeperStore \<times> (exc + response \<times> undo)"

abbreviation answer :: "Error \<Rightarrow> response_body \<Rightarrow> response" where
  "answer e b \<equiv> Response e 0 0 0 b"

abbreviation reply :: "KeeperStore \<Rightarrow> Error \<Rightarrow> response_body \<Rightarrow> undo \<Rightarrow> result" where
  "reply s e b u \<equiv> (s, Inr (answer e b, u))"

section \<open>Authorisation\<close>

text \<open>
  The common shape of every \<open>checkAuth\<close>: the node whose list decides, the permission, and the
  authentications of the session. \<open>convertNumber\<close> throws for an unknown number.
\<close>

definition node_auth :: "KeeperStore \<Rightarrow> string \<Rightarrow> int32 \<Rightarrow> int64 \<Rightarrow> exc + bool" where
  "node_auth s path permission session_id =
     (case container s path of
        None \<Rightarrow> Inr True
      | Some node \<Rightarrow>
          (case convertNumber (store_acl_map s) (node_acl_id node) of
             Inl e \<Rightarrow> Inl e
           | Inr node_acls \<Rightarrow>
               if node_acls = [] then Inr True
               else Inr (checkACL permission node_acls (list_entry (session_and_auth s) session_id))))"

definition create_checkAuth :: "KeeperStore \<Rightarrow> string \<Rightarrow> int64 \<Rightarrow> exc + bool" where
  "create_checkAuth s path session_id = node_auth s (parentPath path) ACL_Create session_id"

definition get_checkAuth :: "KeeperStore \<Rightarrow> string \<Rightarrow> int64 \<Rightarrow> exc + bool" where
  "get_checkAuth s path session_id = node_auth s path ACL_Read session_id"

definition remove_checkAuth :: "KeeperStore \<Rightarrow> string \<Rightarrow> int64 \<Rightarrow> exc + bool" where
  "remove_checkAuth s path session_id = node_auth s (parentPath path) ACL_Delete session_id"

definition set_checkAuth :: "KeeperStore \<Rightarrow> string \<Rightarrow> int64 \<Rightarrow> exc + bool" where
  "set_checkAuth s path session_id = node_auth s path ACL_Write session_id"

definition list_checkAuth :: "KeeperStore \<Rightarrow> string \<Rightarrow> int64 \<Rightarrow> exc + bool" where
  "list_checkAuth s path session_id = node_auth s path ACL_Read session_id"

definition check_checkAuth :: "KeeperStore \<Rightarrow> string \<Rightarrow> int64 \<Rightarrow> exc + bool" where
  "check_checkAuth s path session_id = node_auth s path ACL_Read session_id"

definition setACL_checkAuth :: "KeeperStore \<Rightarrow> string \<Rightarrow> int64 \<Rightarrow> exc + bool" where
  "setACL_checkAuth s path session_id = node_auth s path ACL_Admin session_id"

definition getACL_checkAuth :: "KeeperStore \<Rightarrow> string \<Rightarrow> int64 \<Rightarrow> exc + bool" where
  "getACL_checkAuth s path session_id = node_auth s path (ACL_Admin OR ACL_Read) session_id"

lemmas checkAuth_defs =
  create_checkAuth_def get_checkAuth_def remove_checkAuth_def set_checkAuth_def
  list_checkAuth_def check_checkAuth_def setACL_checkAuth_def getACL_checkAuth_def

section \<open>Create\<close>

definition create_target ::
    "KeeperStore \<Rightarrow> string \<Rightarrow> bool \<Rightarrow> Error + (KeeperNode \<times> string \<times> string)" where
  "create_target s path sequential =
     (case container s (parentPath path) of
        None \<Rightarrow> Inl ZNONODE
      | Some parent \<Rightarrow>
          if is_ephemeral parent then Inl ZNOCHILDRENFOREPHEMERALS
          else
            let path_created =
                  (if sequential then path @ seq_num_str (cversion (node_stat parent)) else path)
            in if container s path_created \<noteq> None then Inl ZNODEEXISTS
               else let child = getBaseName path_created in
                    if child = [] then Inl ZBADARGUMENTS
                    else Inr (parent, path_created, child))"

definition create_acl :: "KeeperStore \<Rightarrow> int64 \<Rightarrow> ACLs \<Rightarrow> KeeperStore \<times> (Error + uint64)" where
  "create_acl s session_id acls =
     (if acls = [] then (s, Inr 0)
      else
        let session_auth_ids = list_entry (session_and_auth s) session_id;
            s1 = s\<lparr>session_and_auth := (session_and_auth s)(session_id \<mapsto> session_auth_ids)\<rparr>;
            (valid, node_acls) = fixupACL acls session_auth_ids
        in if \<not> valid then (s1, Inl ZINVALIDACL)
           else let (m, acl_id) = convertACLs (store_acl_map s1) node_acls
                in (s1\<lparr>store_acl_map := addUsage m acl_id 1\<rparr>, Inr acl_id))"

definition created_node ::
    "uint64 \<Rightarrow> int64 \<Rightarrow> int64 \<Rightarrow> int64 \<Rightarrow> string \<Rightarrow> bool \<Rightarrow> bool \<Rightarrow> KeeperNode" where
  "created_node acl_id zx session_id time dat ephemeral sequential =
     new_node\<lparr>node_acl_id := acl_id,
       node_stat := zero_stat\<lparr>czxid := zx, mzxid := zx, pzxid := zx, ctime := time, mtime := time,
         numChildren := 0, dataLength := of_nat (length dat),
         ephemeralOwner := (if ephemeral then session_id else 0)\<rparr>,
       node_data := dat, is_ephemeral := ephemeral, is_sequental := sequential\<rparr>"

definition add_child :: "string \<Rightarrow> int64 \<Rightarrow> KeeperNode \<Rightarrow> KeeperNode" where
  "add_child child zx parent =
     parent\<lparr>children := insert child (children parent),
       node_stat := (node_stat parent)\<lparr>cversion := cversion (node_stat parent) + 1,
         numChildren := numChildren (node_stat parent) + 1, pzxid := zx\<rparr>\<rparr>"

definition create_process ::
    "KeeperStore \<Rightarrow> int64 \<Rightarrow> int64 \<Rightarrow> int64 \<Rightarrow> string \<Rightarrow> string \<Rightarrow> bool \<Rightarrow> bool \<Rightarrow> ACLs \<Rightarrow> result" where
  "create_process s zx session_id time path dat ephemeral sequential acls =
     (case create_target s path sequential of
        Inl e \<Rightarrow> reply s e (CreateResponse []) NoUndo
      | Inr (parent, path_created, child) \<Rightarrow>
          (case create_acl s session_id acls of
             (s1, Inl e) \<Rightarrow> reply s1 e (CreateResponse []) NoUndo
           | (s1, Inr acl_id) \<Rightarrow>
               reply
                 (s1\<lparr>container := (container s1)
                       (parentPath path \<mapsto> add_child child zx parent,
                        path_created \<mapsto> created_node acl_id zx session_id time dat ephemeral sequential),
                     ephemerals := (if ephemeral then entry_insert (ephemerals s1) session_id path_created
                                    else ephemerals s1)\<rparr>)
                 ZOK (CreateResponse path_created)
                 (UndoCreate session_id path_created (pzxid (node_stat parent)) ephemeral
                    (parentPath path) child acl_id)))"

definition undo_create ::
    "int64 \<Rightarrow> string \<Rightarrow> int64 \<Rightarrow> bool \<Rightarrow> string \<Rightarrow> string \<Rightarrow> uint64 \<Rightarrow> KeeperStore \<Rightarrow> exc + KeeperStore" where
  "undo_create session_id path_created pz ephemeral parent_path child acl_id s =
     (let s1 = s\<lparr>container := (container s)(path_created := None),
               store_acl_map := removeUsage (store_acl_map s) acl_id,
               ephemerals := (if ephemeral then entry_erase (ephemerals s) session_id path_created
                              else ephemerals s)\<rparr>
      in case container s1 parent_path of
           None \<Rightarrow> Inl NULL_DEREFERENCE
         | Some p \<Rightarrow>
             Inr (s1\<lparr>container := (container s1)(parent_path \<mapsto>
               p\<lparr>children := children p - {child},
                 node_stat := (node_stat p)\<lparr>cversion := cversion (node_stat p) - 1,
                   numChildren := numChildren (node_stat p) - 1, pzxid := pz\<rparr>\<rparr>)\<rparr>))"

section \<open>Remove\<close>

definition drop_child :: "string \<Rightarrow> int64 \<Rightarrow> KeeperNode \<Rightarrow> KeeperNode" where
  "drop_child child zx parent =
     parent\<lparr>children := children parent - {child},
       node_stat := (node_stat parent)\<lparr>numChildren := numChildren (node_stat parent) - 1, pzxid := zx\<rparr>\<rparr>"

definition remove_process :: "KeeperStore \<Rightarrow> int64 \<Rightarrow> string \<Rightarrow> int32 \<Rightarrow> result" where
  "remove_process s zx path ver =
     (case container s path of
        None \<Rightarrow> reply s ZNONODE RemoveResponse NoUndo
      | Some node \<Rightarrow>
          if ver \<noteq> -1 \<and> ver \<noteq> version (node_stat node) then reply s ZBADVERSION RemoveResponse NoUndo
          else if children node \<noteq> {} then reply s ZNOTEMPTY RemoveResponse NoUndo
          else
            (case container s (parentPath path) of
               None \<Rightarrow> (s, Inl NULL_DEREFERENCE)
             | Some parent \<Rightarrow>
                 let child_basename = getBaseName path;
                     ephemeral_owner = (if is_ephemeral node then ephemeralOwner (node_stat node) else 0)
                 in reply
                      (s\<lparr>container := ((container s)
                            (parentPath path \<mapsto> drop_child child_basename zx parent))(path := None),
                          store_acl_map := removeUsage (store_acl_map s) (node_acl_id node),
                          ephemerals := (if is_ephemeral node
                                         then entry_erase (ephemerals s) ephemeral_owner path
                                         else ephemerals s)\<rparr>)
                      ZOK RemoveResponse
                      (UndoRemove node ephemeral_owner path (pzxid (node_stat parent)) child_basename)))"

definition undo_remove ::
    "KeeperNode \<Rightarrow> int64 \<Rightarrow> string \<Rightarrow> int64 \<Rightarrow> string \<Rightarrow> KeeperStore \<Rightarrow> exc + KeeperStore" where
  "undo_remove prev_node ephemeral_owner path pz child_basename s =
     (let s1 = s\<lparr>ephemerals := (if is_ephemeral prev_node
                              then entry_insert (ephemerals s) ephemeral_owner path
                              else ephemerals s),
               store_acl_map := addUsage (store_acl_map s) (node_acl_id prev_node) 1,
               container := (container s)(path \<mapsto> prev_node)\<rparr>
      in case container s1 (parentPath path) of
           None \<Rightarrow> Inl NULL_DEREFERENCE
         | Some p \<Rightarrow>
             Inr (s1\<lparr>container := (container s1)(parentPath path \<mapsto>
               p\<lparr>children := insert child_basename (children p),
                 node_stat := (node_stat p)\<lparr>numChildren := numChildren (node_stat p) + 1,
                   pzxid := pz\<rparr>\<rparr>)\<rparr>))"

section \<open>Set, Check and the read requests\<close>

definition set_node :: "int64 \<Rightarrow> int64 \<Rightarrow> string \<Rightarrow> KeeperNode \<Rightarrow> KeeperNode" where
  "set_node zx time dat node =
     node\<lparr>node_data := dat,
       node_stat := (node_stat node)\<lparr>version := version (node_stat node) + 1, mzxid := zx,
         mtime := time, dataLength := of_nat (length dat)\<rparr>\<rparr>"

definition set_process ::
    "KeeperStore \<Rightarrow> int64 \<Rightarrow> int64 \<Rightarrow> string \<Rightarrow> string \<Rightarrow> int32 \<Rightarrow> result" where
  "set_process s zx time path dat ver =
     (case container s path of
        None \<Rightarrow> reply s ZNONODE (SetResponse zero_stat) NoUndo
      | Some node \<Rightarrow>
          if ver = -1 \<or> ver = version (node_stat node) then
            let node' = set_node zx time dat node in
            reply (s\<lparr>container := (container s)(path \<mapsto> node')\<rparr>) ZOK
              (SetResponse (statForResponse node')) (UndoSet path node)
          else reply s ZBADVERSION (SetResponse zero_stat) NoUndo)"

definition undo_set :: "string \<Rightarrow> KeeperNode \<Rightarrow> KeeperStore \<Rightarrow> exc + KeeperStore" where
  "undo_set path prev_node s = Inr (s\<lparr>container := (container s)(path \<mapsto> prev_node)\<rparr>)"

definition get_process :: "KeeperStore \<Rightarrow> string \<Rightarrow> result" where
  "get_process s path =
     (case container s path of
        None \<Rightarrow> reply s ZNONODE (GetResponse [] zero_stat) NoUndo
      | Some node \<Rightarrow> reply s ZOK (GetResponse (node_data node) (statForResponse node)) NoUndo)"

definition exists_process :: "KeeperStore \<Rightarrow> string \<Rightarrow> result" where
  "exists_process s path =
     (case container s path of
        Some node \<Rightarrow> reply s ZOK (ExistsResponse (statForResponse node)) NoUndo
      | None \<Rightarrow> reply s ZNONODE (ExistsResponse zero_stat) NoUndo)"

text \<open>The names are copied from the hash set and sorted.\<close>

definition list_process :: "KeeperStore \<Rightarrow> string \<Rightarrow> result" where
  "list_process s path =
     (case container s path of
        None \<Rightarrow> reply s ZNONODE (ListResponse [] zero_stat) NoUndo
      | Some node \<Rightarrow>
          if path = [] then (s, Inl LOGICAL_ERROR)
          else reply s ZOK (ListResponse (sorted_list_of_set (children node)) (statForResponse node)) NoUndo)"

definition check_process :: "KeeperStore \<Rightarrow> string \<Rightarrow> int32 \<Rightarrow> result" where
  "check_process s path ver =
     (case container s path of
        None \<Rightarrow> reply s ZNONODE CheckResponse NoUndo
      | Some node \<Rightarrow>
          if ver \<noteq> -1 \<and> ver \<noteq> version (node_stat node) then reply s ZBADVERSION CheckResponse NoUndo
          else reply s ZOK CheckResponse NoUndo)"

section \<open>Access control, authentication and internal requests\<close>

definition setACL_process :: "KeeperStore \<Rightarrow> int64 \<Rightarrow> string \<Rightarrow> ACLs \<Rightarrow> int32 \<Rightarrow> result" where
  "setACL_process s session_id path acls ver =
     (case container s path of
        None \<Rightarrow> reply s ZNONODE (SetACLResponse zero_stat) NoUndo
      | Some node \<Rightarrow>
          if ver \<noteq> -1 \<and> ver \<noteq> aversion (node_stat node) then
            reply s ZBADVERSION (SetACLResponse zero_stat) NoUndo
          else
            let session_auth_ids = list_entry (session_and_auth s) session_id;
                s1 = s\<lparr>session_and_auth := (session_and_auth s)(session_id \<mapsto> session_auth_ids)\<rparr>;
                (valid, node_acls) = fixupACL acls session_auth_ids
            in if \<not> valid then reply s1 ZINVALIDACL (SetACLResponse zero_stat) NoUndo
               else
                 let (m, acl_id) = convertACLs (store_acl_map s1) node_acls;
                     node' = node\<lparr>node_acl_id := acl_id,
                       node_stat := (node_stat node)\<lparr>aversion := aversion (node_stat node) + 1\<rparr>\<rparr>
                 in reply (s1\<lparr>store_acl_map := addUsage m acl_id 1,
                             container := (container s1)(path \<mapsto> node')\<rparr>)
                      ZOK (SetACLResponse (node_stat node')) NoUndo)"

definition getACL_process :: "KeeperStore \<Rightarrow> string \<Rightarrow> result" where
  "getACL_process s path =
     (case container s path of
        None \<Rightarrow> reply s ZNONODE (GetACLResponse [] zero_stat) NoUndo
      | Some node \<Rightarrow>
          (case convertNumber (store_acl_map s) (node_acl_id node) of
             Inl e \<Rightarrow> (s, Inl e)
           | Inr acls \<Rightarrow> reply s ZOK (GetACLResponse acls (node_stat node)) NoUndo))"

definition auth_process :: "env \<Rightarrow> KeeperStore \<Rightarrow> int64 \<Rightarrow> string \<Rightarrow> string \<Rightarrow> result" where
  "auth_process E s session_id sch dat =
     (if sch \<noteq> ''digest'' \<or> count_list dat (CHR '':'') \<noteq> 1 then reply s ZAUTHFAILED AuthResponse NoUndo
      else
        let digest = generateDigest E dat;
            ids = list_entry (session_and_auth s) session_id;
            ids' = (if digest = super_digest s then ids @ [\<lparr>auth_scheme = ''super'', auth_ident = []\<rparr>]
                    else let auth = \<lparr>auth_scheme = sch, auth_ident = digest\<rparr> in
                         if auth \<notin> set ids then ids @ [auth] else ids)
        in reply (s\<lparr>session_and_auth := (session_and_auth s)(session_id \<mapsto> ids')\<rparr>) ZOK AuthResponse NoUndo)"

definition heartbeat_process :: "KeeperStore \<Rightarrow> result" where
  "heartbeat_process s = reply s ZOK HeartbeatResponse NoUndo"

definition setWatches_process :: "KeeperStore \<Rightarrow> result" where
  "setWatches_process s = reply s ZOK SetWatchesResponse NoUndo"

definition sync_process :: "KeeperStore \<Rightarrow> string \<Rightarrow> result" where
  "sync_process s path = reply s ZOK (SyncResponse path) NoUndo"

definition setSeqNum_process :: "KeeperStore \<Rightarrow> string \<Rightarrow> int32 \<Rightarrow> result" where
  "setSeqNum_process s path seq_num =
     (case container s path of
        None \<Rightarrow> (s, Inl NULL_DEREFERENCE)
      | Some node \<Rightarrow>
          reply (s\<lparr>container := (container s)(path \<mapsto>
                   node\<lparr>node_stat := (node_stat node)\<lparr>cversion := seq_num\<rparr>\<rparr>)\<rparr>)
            ZOK SetSeqNumResponse NoUndo)"

definition close_process :: "KeeperStore \<Rightarrow> result" where
  "close_process s = (s, Inl LOGICAL_ERROR)"

section \<open>Multi\<close>

fun run_undo :: "undo \<Rightarrow> KeeperStore \<Rightarrow> exc + KeeperStore" where
  "run_undo NoUndo s = Inr s"
| "run_undo (UndoCreate session_id path_created pz ephemeral parent_path child acl_id) s =
     undo_create session_id path_created pz ephemeral parent_path child acl_id s"
| "run_undo (UndoRemove prev_node ephemeral_owner path pz child_basename) s =
     undo_remove prev_node ephemeral_owner path pz child_basename s"
| "run_undo (UndoSet path prev_node) s = undo_set path prev_node s"

text \<open>The undo actions from the last to the first; the list has the last one at its head.\<close>

fun run_undos :: "undo list \<Rightarrow> KeeperStore \<Rightarrow> exc + KeeperStore" where
  "run_undos [] s = Inr s"
| "run_undos (u # us) s = (case run_undo u s of Inl e \<Rightarrow> Inl e | Inr s' \<Rightarrow> run_undos us s')"

text \<open>
  The constructor of \<open>SvsKeeperStorageMultiRequest\<close> admits four kinds of sub-requests and throws
  for every other.
\<close>

fun multi_allowed :: "request_body \<Rightarrow> bool" where
  "multi_allowed (CreateRequest _ _ _ _ _) = True"
| "multi_allowed (RemoveRequest _ _) = True"
| "multi_allowed (SetRequest _ _ _) = True"
| "multi_allowed (CheckRequest _ _) = True"
| "multi_allowed _ = False"

definition concrete_requests :: "request list \<Rightarrow> exc + request_body list" where
  "concrete_requests rs =
     (if list_all (\<lambda>r. multi_allowed (req_body r)) rs then Inr (map req_body rs)
      else Inl BAD_ARGUMENTS)"

fun sub_process :: "KeeperStore \<Rightarrow> int64 \<Rightarrow> int64 \<Rightarrow> int64 \<Rightarrow> request_body \<Rightarrow> result" where
  "sub_process s zx sid time (CreateRequest path dat eph sequential acls) =
     create_process s zx sid time path dat eph sequential acls"
| "sub_process s zx sid time (RemoveRequest path ver) = remove_process s zx path ver"
| "sub_process s zx sid time (SetRequest path dat ver) = set_process s zx time path dat ver"
| "sub_process s zx sid time (CheckRequest path ver) = check_process s path ver"
| "sub_process s zx sid time _ = (s, Inl BAD_ARGUMENTS)"

definition error_response :: "Error \<Rightarrow> response" where
  "error_response e = answer e ErrorResponse"

text \<open>
  The loop of \<open>process\<close>: \<open>done\<close> are the responses so far, \<open>undos\<close> the undo actions, the last
  first. On the first error the responses become error responses, those not reached with
  \<open>ZRUNTIMEINCONSISTENCY\<close>, and the undo actions run. An exception runs them too and is rethrown.
\<close>

fun multi_loop ::
    "KeeperStore \<Rightarrow> int64 \<Rightarrow> int64 \<Rightarrow> int64 \<Rightarrow> request_body list \<Rightarrow> response list \<Rightarrow> undo list
      \<Rightarrow> KeeperStore \<times> (exc + response list)" where
  "multi_loop s zx sid time [] done undos = (s, Inr done)"
| "multi_loop s zx sid time (r # rs) done undos =
     (case sub_process s zx sid time r of
        (s1, Inl e) \<Rightarrow>
          if e = NULL_DEREFERENCE then (s1, Inl e)
          else (case run_undos undos s1 of Inl e' \<Rightarrow> (s1, Inl e') | Inr s2 \<Rightarrow> (s2, Inl e))
      | (s1, Inr (cur, u)) \<Rightarrow>
          if resp_error cur \<noteq> ZOK then
            (case run_undos undos s1 of
               Inl e \<Rightarrow> (s1, Inl e)
             | Inr s2 \<Rightarrow>
                 (s2, Inr (map (\<lambda>d. error_response (resp_error d)) (done @ [cur])
                           @ replicate (length rs) (error_response ZRUNTIMEINCONSISTENCY))))
          else multi_loop s1 zx sid time rs (done @ [cur]) (u # undos))"

definition multi_process ::
    "KeeperStore \<Rightarrow> int64 \<Rightarrow> int64 \<Rightarrow> int64 \<Rightarrow> request_body list \<Rightarrow> result" where
  "multi_process s zx sid time rs =
     (case multi_loop s zx sid time rs [] [] of
        (s', Inl e) \<Rightarrow> (s', Inl e)
      | (s', Inr responses) \<Rightarrow> reply s' ZOK (MultiResponse responses) NoUndo)"

fun sub_checkAuth :: "KeeperStore \<Rightarrow> int64 \<Rightarrow> request_body \<Rightarrow> exc + bool" where
  "sub_checkAuth s sid (CreateRequest path _ _ _ _) = create_checkAuth s path sid"
| "sub_checkAuth s sid (RemoveRequest path _) = remove_checkAuth s path sid"
| "sub_checkAuth s sid (SetRequest path _ _) = set_checkAuth s path sid"
| "sub_checkAuth s sid (CheckRequest path _) = check_checkAuth s path sid"
| "sub_checkAuth s sid _ = Inr True"

fun multi_checkAuth :: "KeeperStore \<Rightarrow> int64 \<Rightarrow> request_body list \<Rightarrow> exc + bool" where
  "multi_checkAuth s sid [] = Inr True"
| "multi_checkAuth s sid (r # rs) =
     (case sub_checkAuth s sid r of
        Inl e \<Rightarrow> Inl e
      | Inr False \<Rightarrow> Inr False
      | Inr True \<Rightarrow> multi_checkAuth s sid rs)"

fun sub_processWatches ::
    "request_body \<Rightarrow> Watches \<Rightarrow> Watches \<Rightarrow> Watches \<times> Watches \<times> ResponseForSession list" where
  "sub_processWatches (CreateRequest path _ _ _ _) w lw = processWatchesImpl path w lw CREATED"
| "sub_processWatches (RemoveRequest path _) w lw = processWatchesImpl path w lw DELETED"
| "sub_processWatches (SetRequest path _ _) w lw = processWatchesImpl path w lw CHANGED"
| "sub_processWatches _ w lw = (w, lw, [])"

fun multi_processWatches ::
    "request_body list \<Rightarrow> Watches \<Rightarrow> Watches \<Rightarrow> Watches \<times> Watches \<times> ResponseForSession list" where
  "multi_processWatches [] w lw = (w, lw, [])"
| "multi_processWatches (r # rs) w lw =
     (let (w1, lw1, a) = sub_processWatches r w lw;
          (w2, lw2, b) = multi_processWatches rs w1 lw1
      in (w2, lw2, a @ b))"

section \<open>Dispatch\<close>

text \<open>
  \<open>NuKeeperWrapperFactory::get\<close>: the session id request has no wrapper, and the wrapper of a multi
  request checks its parts when it is constructed.
\<close>

definition wrapper_get :: "request_body \<Rightarrow> exc + unit" where
  "wrapper_get b =
     (case b of
        SessionIDRequest _ _ _ \<Rightarrow> Inl LOGICAL_ERROR
      | MultiRequest rs \<Rightarrow> (case concrete_requests rs of Inl e \<Rightarrow> Inl e | Inr _ \<Rightarrow> Inr ())
      | _ \<Rightarrow> Inr ())"

fun store_checkAuth :: "KeeperStore \<Rightarrow> int64 \<Rightarrow> request_body \<Rightarrow> exc + bool" where
  "store_checkAuth s sid (CreateRequest path _ _ _ _) = create_checkAuth s path sid"
| "store_checkAuth s sid (GetRequest path) = get_checkAuth s path sid"
| "store_checkAuth s sid (RemoveRequest path _) = remove_checkAuth s path sid"
| "store_checkAuth s sid (SetRequest path _ _) = set_checkAuth s path sid"
| "store_checkAuth s sid (ListRequest path) = list_checkAuth s path sid"
| "store_checkAuth s sid (SimpleListRequest path) = list_checkAuth s path sid"
| "store_checkAuth s sid (CheckRequest path _) = check_checkAuth s path sid"
| "store_checkAuth s sid (SetACLRequest path _ _) = setACL_checkAuth s path sid"
| "store_checkAuth s sid (GetACLRequest path) = getACL_checkAuth s path sid"
| "store_checkAuth s sid (MultiRequest rs) = multi_checkAuth s sid (map req_body rs)"
| "store_checkAuth s sid _ = Inr True"

fun store_process :: "env \<Rightarrow> KeeperStore \<Rightarrow> int64 \<Rightarrow> int64 \<Rightarrow> int64 \<Rightarrow> request_body \<Rightarrow> result" where
  "store_process E s zx sid time HeartbeatRequest = heartbeat_process s"
| "store_process E s zx sid time (SetWatchesRequest _ _ _ _) = setWatches_process s"
| "store_process E s zx sid time (SyncRequest path) = sync_process s path"
| "store_process E s zx sid time (AuthRequest _ sch dat) = auth_process E s sid sch dat"
| "store_process E s zx sid time CloseRequest = close_process s"
| "store_process E s zx sid time (CreateRequest path dat eph sequential acls) =
     create_process s zx sid time path dat eph sequential acls"
| "store_process E s zx sid time (RemoveRequest path ver) = remove_process s zx path ver"
| "store_process E s zx sid time (ExistsRequest path) = exists_process s path"
| "store_process E s zx sid time (GetRequest path) = get_process s path"
| "store_process E s zx sid time (SetRequest path dat ver) = set_process s zx time path dat ver"
| "store_process E s zx sid time (ListRequest path) = list_process s path"
| "store_process E s zx sid time (SimpleListRequest path) = list_process s path"
| "store_process E s zx sid time (CheckRequest path ver) = check_process s path ver"
| "store_process E s zx sid time (MultiRequest rs) = multi_process s zx sid time (map req_body rs)"
| "store_process E s zx sid time (SetSeqNumRequest path seq_num) = setSeqNum_process s path seq_num"
| "store_process E s zx sid time (SetACLRequest path acls ver) = setACL_process s sid path acls ver"
| "store_process E s zx sid time (GetACLRequest path) = getACL_process s path"
| "store_process E s zx sid time (SessionIDRequest _ _ _) = (s, Inl LOGICAL_ERROR)"

fun store_processWatches ::
    "request_body \<Rightarrow> Watches \<Rightarrow> Watches \<Rightarrow> Watches \<times> Watches \<times> ResponseForSession list" where
  "store_processWatches (MultiRequest rs) w lw = multi_processWatches (map req_body rs) w lw"
| "store_processWatches b w lw = sub_processWatches b w lw"

end
