(* ===== verification/Store_Process.thy ===== *)
theory Store_Process
  imports Store_Requests
begin

text \<open>
  \<open>KeeperStore::processRequest\<close> of \<open>src/src/Service/KeeperStore.cpp\<close> with its branches for
  \<open>Close\<close>, \<open>Heartbeat\<close>, \<open>SetWatches\<close> and the other requests, \<open>finalize\<close>, \<open>buildPathChildren\<close>,
  \<open>clearDeadWatches\<close> and the counters. The responses that the code pushes to its queue are
  returned as a list, in the order of the pushes; an exception is returned beside the state and the
  responses that were reached before it.
\<close>

type_synonym outcome = "KeeperStore \<times> ResponseForSession list \<times> exc option"

section \<open>Watches of a session\<close>

definition clear_watch :: "int64 \<Rightarrow> string \<Rightarrow> Watches \<Rightarrow> Watches" where
  "clear_watch session_id watch_path w =
     (case w watch_path of
        None \<Rightarrow> w
      | Some watches_for_path \<Rightarrow>
          let rest = removeAll session_id watches_for_path
          in if rest = [] then w(watch_path := None) else w(watch_path \<mapsto> rest))"

definition clearDeadWatches :: "env \<Rightarrow> KeeperStore \<Rightarrow> int64 \<Rightarrow> KeeperStore" where
  "clearDeadWatches E s session_id =
     (case sessions_and_watchers s session_id of
        None \<Rightarrow> s
      | Some paths \<Rightarrow>
          s\<lparr>watches := fold (clear_watch session_id) (path_order E paths) (watches s),
            list_watches := fold (clear_watch session_id) (path_order E paths) (list_watches s),
            sessions_and_watchers := (sessions_and_watchers s)(session_id := None)\<rparr>)"

definition trigger_watches ::
    "KeeperStore \<Rightarrow> string \<Rightarrow> Event \<Rightarrow> KeeperStore \<times> ResponseForSession list" where
  "trigger_watches s path event_type =
     (let (w, lw, rs) = processWatchesImpl path (watches s) (list_watches s) event_type
      in (s\<lparr>watches := w, list_watches := lw\<rparr>, rs))"

definition register_data_watch :: "KeeperStore \<Rightarrow> int64 \<Rightarrow> string \<Rightarrow> KeeperStore" where
  "register_data_watch s session_id path =
     s\<lparr>watches := (watches s)(path \<mapsto> list_entry (watches s) path @ [session_id]),
       sessions_and_watchers := entry_insert (sessions_and_watchers s) session_id path\<rparr>"

definition register_list_watch :: "KeeperStore \<Rightarrow> int64 \<Rightarrow> string \<Rightarrow> KeeperStore" where
  "register_list_watch s session_id path =
     s\<lparr>list_watches := (list_watches s)(path \<mapsto> list_entry (list_watches s) path @ [session_id]),
       sessions_and_watchers := entry_insert (sessions_and_watchers s) session_id path\<rparr>"

section \<open>Close\<close>

definition unlink_ephemeral :: "string \<Rightarrow> KeeperNode \<Rightarrow> KeeperNode" where
  "unlink_ephemeral ephemeral_path parent =
     parent\<lparr>children := children parent - {getBaseName ephemeral_path},
       node_stat := (node_stat parent)\<lparr>numChildren := numChildren (node_stat parent) - 1\<rparr>\<rparr>"

definition close_ephemeral :: "KeeperStore \<Rightarrow> string \<Rightarrow> KeeperStore \<times> ResponseForSession list" where
  "close_ephemeral s ephemeral_path =
     (let c1 = (case container s (parentPath ephemeral_path) of
                  None \<Rightarrow> container s
                | Some parent \<Rightarrow>
                    (container s)(parentPath ephemeral_path \<mapsto> unlink_ephemeral ephemeral_path parent))
      in trigger_watches (s\<lparr>container := c1(ephemeral_path := None)\<rparr>) ephemeral_path DELETED)"

fun close_ephemerals :: "KeeperStore \<Rightarrow> string list \<Rightarrow> KeeperStore \<times> ResponseForSession list" where
  "close_ephemerals s [] = (s, [])"
| "close_ephemerals s (p # ps) =
     (let (s1, rs) = close_ephemeral s p;
          (s2, rs') = close_ephemerals s1 ps
      in (s2, rs @ rs'))"

definition next_zxid :: "KeeperStore \<Rightarrow> int64 option \<Rightarrow> bool \<Rightarrow> KeeperStore \<times> int64" where
  "next_zxid s new_last_zxid increase =
     (if new_last_zxid \<noteq> None then (s, zxid s)
      else if increase then getZXID s
      else (s, zxid s))"

definition process_close ::
    "env \<Rightarrow> KeeperStore \<Rightarrow> request \<Rightarrow> int64 \<Rightarrow> int64 option \<Rightarrow> bool \<Rightarrow> outcome" where
  "process_close E s req session_id new_last_zxid ignore_response =
     (let (s1, rs) = (case ephemerals s session_id of
                        None \<Rightarrow> (s, [])
                      | Some paths \<Rightarrow>
                          let (s', rs) = close_ephemerals s (path_order E paths)
                          in (s'\<lparr>ephemerals := (ephemerals s')(session_id := None)\<rparr>, rs));
          s2 = clearDeadWatches E s1 session_id;
          (s3, zx) = next_zxid s2 new_last_zxid True;
          pushed = set_response rs ignore_response
      in case queue_remove (session_expiry_queue s3) session_id of
           Inl e \<Rightarrow> (s3, pushed, Some e)
         | Inr (q, _) \<Rightarrow>
             (s3\<lparr>session_expiry_queue := q,
                 session_and_timeout := (session_and_timeout s3)(session_id := None),
                 session_and_auth := (session_and_auth s3)(session_id := None)\<rparr>,
              pushed @ set_response [(session_id, Response ZOK (req_xid req) zx 0 CloseResponse)]
                ignore_response, None))"

section \<open>Heartbeat and SetWatches\<close>

definition process_heartbeat ::
    "KeeperStore \<Rightarrow> request \<Rightarrow> int64 \<Rightarrow> bool \<Rightarrow> outcome" where
  "process_heartbeat s req session_id ignore_response =
     (case heartbeat_process s of
        (s1, Inl e) \<Rightarrow> (s1, [], Some e)
      | (s1, Inr (r, _)) \<Rightarrow>
          (s1, set_response [(session_id,
              Response (resp_error r) (req_xid req) (zxid s1) (resp_created r) (resp_body r))]
              ignore_response, None))"

fun set_data_watches ::
    "KeeperStore \<Rightarrow> int64 \<Rightarrow> int64 \<Rightarrow> string list \<Rightarrow> KeeperStore \<times> ResponseForSession list" where
  "set_data_watches s session_id relative_zxid [] = (s, [])"
| "set_data_watches s session_id relative_zxid (path # ps) =
     (let s1 = register_data_watch s session_id path;
          (s2, rs) = (case container s1 path of
                        None \<Rightarrow> trigger_watches s1 path DELETED
                      | Some node \<Rightarrow>
                          if relative_zxid <s mzxid (node_stat node) then trigger_watches s1 path CHANGED
                          else (s1, []));
          (s3, rs') = set_data_watches s2 session_id relative_zxid ps
      in (s3, rs @ rs'))"

fun set_exist_watches ::
    "KeeperStore \<Rightarrow> int64 \<Rightarrow> string list \<Rightarrow> KeeperStore \<times> ResponseForSession list" where
  "set_exist_watches s session_id [] = (s, [])"
| "set_exist_watches s session_id (path # ps) =
     (let s1 = register_data_watch s session_id path;
          (s2, rs) = (case container s1 path of
                        None \<Rightarrow> (s1, [])
                      | Some node \<Rightarrow> trigger_watches s1 path CREATED);
          (s3, rs') = set_exist_watches s2 session_id ps
      in (s3, rs @ rs'))"

fun set_list_watches ::
    "KeeperStore \<Rightarrow> int64 \<Rightarrow> int64 \<Rightarrow> string list \<Rightarrow> KeeperStore \<times> ResponseForSession list" where
  "set_list_watches s session_id relative_zxid [] = (s, [])"
| "set_list_watches s session_id relative_zxid (path # ps) =
     (let s1 = register_list_watch s session_id path;
          (s2, rs) = (case container s1 path of
                        None \<Rightarrow> trigger_watches s1 path DELETED
                      | Some node \<Rightarrow>
                          if relative_zxid <s pzxid (node_stat node) then trigger_watches s1 path CHILD
                          else (s1, []));
          (s3, rs') = set_list_watches s2 session_id relative_zxid ps
      in (s3, rs @ rs'))"

definition process_setwatches ::
    "KeeperStore \<Rightarrow> request \<Rightarrow> int64 \<Rightarrow> string list \<Rightarrow> string list \<Rightarrow> string list \<Rightarrow> int64 \<Rightarrow> bool \<Rightarrow> outcome" where
  "process_setwatches s req relative_zxid dw ew lw session_id ignore_response =
     (let (s1, r1) = set_data_watches s session_id relative_zxid dw;
          (s2, r2) = set_exist_watches s1 session_id ew;
          (s3, r3) = set_list_watches s2 session_id relative_zxid lw
      in (s3, set_response (r1 @ r2 @ r3 @
            [(session_id, Response ZOK (req_xid req) (zxid s) 0 SetWatchesResponse)]) ignore_response,
          None))"

section \<open>The other requests\<close>

definition registers_watch :: "request \<Rightarrow> Error \<Rightarrow> bool" where
  "registers_watch req err \<longleftrightarrow>
     has_watch req \<and> (err = ZOK \<or> (err = ZNONODE \<and> getOpNum req = Op_Exists))"

definition finish_request ::
    "KeeperStore \<Rightarrow> request \<Rightarrow> response \<Rightarrow> int64 \<Rightarrow> int64 \<Rightarrow> int64 option \<Rightarrow> bool \<Rightarrow> outcome" where
  "finish_request s req r session_id time new_last_zxid ignore_response =
     (let (s1, zx) = next_zxid s new_last_zxid (shouldIncreaseZxid req);
          response = (session_id, Response (resp_error r) (req_xid req) zx time (resp_body r));
          path = getPath req
      in if isReadRequest req then
           ((if registers_watch req (resp_error r)
             then if getOpNum req = Op_List \<or> getOpNum req = Op_SimpleList
                  then register_list_watch s1 session_id path
                  else register_data_watch s1 session_id path
             else s1),
            set_response [response] ignore_response, None)
         else if (path \<in> dom (watches s1) \<or> parentPath path \<in> dom (list_watches s1))
              \<and> resp_error r = ZOK
         then let (w, lw, rs) = store_processWatches (req_body req) (watches s1) (list_watches s1)
              in (s1\<lparr>watches := w, list_watches := lw\<rparr>,
                  set_response rs ignore_response @ set_response [response] ignore_response, None)
         else (s1, set_response [response] ignore_response, None))"

definition process_other ::
    "env \<Rightarrow> KeeperStore \<Rightarrow> request \<Rightarrow> int64 \<Rightarrow> int64 \<Rightarrow> int64 option \<Rightarrow> bool \<Rightarrow> bool \<Rightarrow> outcome" where
  "process_other E s req session_id time new_last_zxid check_acl ignore_response =
     (case wrapper_get (req_body req) of
        Inl e \<Rightarrow> (s, [], Some e)
      | Inr _ \<Rightarrow>
          (case (if check_acl then store_checkAuth s session_id (req_body req) else Inr True) of
             Inl e \<Rightarrow> (s, [], Some e)
           | Inr False \<Rightarrow>
               finish_request s req (answer ZNOAUTH (resp_body (makeResponse req)))
                 session_id time new_last_zxid ignore_response
           | Inr True \<Rightarrow>
               (case store_process E s (zxid s) session_id time (req_body req) of
                  (s1, Inl e) \<Rightarrow> (s1, [], Some e)
                | (s1, Inr (r, _)) \<Rightarrow>
                    finish_request s1 req r session_id time new_last_zxid ignore_response)))"

section \<open>processRequest\<close>

text \<open>\<open>session_and_timeout[session_id]\<close> creates an entry 0 for an unknown session.\<close>

definition touch_session :: "env \<Rightarrow> KeeperStore \<Rightarrow> int64 \<Rightarrow> exc + KeeperStore" where
  "touch_session E s session_id =
     (let timeout = (case session_and_timeout s session_id of None \<Rightarrow> 0 | Some t \<Rightarrow> t);
          s1 = s\<lparr>session_and_timeout := (session_and_timeout s)(session_id \<mapsto> timeout)\<rparr>
      in case addNewSessionOrUpdate (now_ms E) (session_expiry_queue s1) session_id timeout of
           Inl e \<Rightarrow> Inl e
         | Inr q \<Rightarrow> Inr (s1\<lparr>session_expiry_queue := q\<rparr>))"

definition process_body ::
    "env \<Rightarrow> KeeperStore \<Rightarrow> request \<Rightarrow> int64 \<Rightarrow> int64 \<Rightarrow> int64 option \<Rightarrow> bool \<Rightarrow> bool \<Rightarrow> outcome" where
  "process_body E s req session_id time new_last_zxid check_acl ignore_response =
     (case req_body req of
        HeartbeatRequest \<Rightarrow> process_heartbeat s req session_id ignore_response
      | SetWatchesRequest rel dw ew lw \<Rightarrow>
          process_setwatches s req rel dw ew lw session_id ignore_response
      | _ \<Rightarrow> process_other E s req session_id time new_last_zxid check_acl ignore_response)"

definition process_session ::
    "env \<Rightarrow> KeeperStore \<Rightarrow> request \<Rightarrow> int64 \<Rightarrow> int64 \<Rightarrow> int64 option \<Rightarrow> bool \<Rightarrow> bool \<Rightarrow> outcome" where
  "process_session E s req session_id time new_last_zxid check_acl ignore_response =
     (if getOpNum req = Op_Close then process_close E s req session_id new_last_zxid ignore_response
      else if session_id \<notin> dom (session_and_timeout s) \<and> new_last_zxid = None then (s, [], None)
      else case touch_session E s session_id of
             Inl e \<Rightarrow> (s, [], Some e)
           | Inr s1 \<Rightarrow> process_body E s1 req session_id time new_last_zxid check_acl ignore_response)"

definition processRequest ::
    "env \<Rightarrow> KeeperStore \<Rightarrow> request \<Rightarrow> int64 \<Rightarrow> int64 \<Rightarrow> int64 option \<Rightarrow> bool \<Rightarrow> bool \<Rightarrow> outcome" where
  "processRequest E s req session_id time new_last_zxid check_acl ignore_response =
     (case new_last_zxid of
        None \<Rightarrow> process_session E s req session_id time new_last_zxid check_acl ignore_response
      | Some z \<Rightarrow>
          if z <=s zxid s then (s, [], Some LOGICAL_ERROR)
          else process_session E (s\<lparr>zxid := z\<rparr>) req session_id time new_last_zxid check_acl ignore_response)"

section \<open>Finalize, children, counters\<close>

fun finalize_paths :: "Container \<Rightarrow> string list \<Rightarrow> Container \<times> exc option" where
  "finalize_paths c [] = (c, None)"
| "finalize_paths c (p # ps) =
     (case c (parentPath p) of
        None \<Rightarrow> (c, Some NULL_DEREFERENCE)
      | Some parent \<Rightarrow>
          finalize_paths ((c(parentPath p \<mapsto> unlink_ephemeral p parent))(p := None)) ps)"

definition finalize :: "env \<Rightarrow> KeeperStore \<Rightarrow> KeeperStore \<times> exc option" where
  "finalize E s =
     (if finalized s then (s, Some LOGICAL_ERROR)
      else
        let paths = concat (map (\<lambda>sid. path_order E (set_entry (ephemerals s) sid))
              (sid_order E (dom (ephemerals s))))
        in case finalize_paths (container s) paths of
             (c, Some e) \<Rightarrow> (s\<lparr>finalized := True, container := c\<rparr>, Some e)
           | (c, None) \<Rightarrow>
               (s\<lparr>finalized := True, container := c, ephemerals := Map.empty, watches := Map.empty,
                  list_watches := Map.empty, sessions_and_watchers := Map.empty,
                  session_expiry_queue := queue_clear (session_expiry_queue s),
                  session_and_timeout := Map.empty, session_and_auth := Map.empty\<rparr>, None))"

definition link_child :: "bool \<Rightarrow> string \<Rightarrow> KeeperNode \<Rightarrow> KeeperNode" where
  "link_child from_zk_snapshot child parent =
     parent\<lparr>children := insert child (children parent),
       node_stat := (node_stat parent)\<lparr>numChildren :=
         (if from_zk_snapshot then numChildren (node_stat parent) + 1
          else numChildren (node_stat parent))\<rparr>\<rparr>"

fun build_children :: "bool \<Rightarrow> Container \<Rightarrow> string list \<Rightarrow> Container \<times> exc option" where
  "build_children from_zk_snapshot c [] = (c, None)"
| "build_children from_zk_snapshot c (p # ps) =
     (if p = ''/'' then build_children from_zk_snapshot c ps
      else case c (parentPath p) of
             None \<Rightarrow> (c, Some LOGICAL_ERROR)
           | Some parent \<Rightarrow>
               build_children from_zk_snapshot
                 (c(parentPath p \<mapsto> link_child from_zk_snapshot (getBaseName p) parent)) ps)"

definition buildPathChildren :: "env \<Rightarrow> KeeperStore \<Rightarrow> bool \<Rightarrow> KeeperStore \<times> exc option" where
  "buildPathChildren E s from_zk_snapshot =
     (let (c, e) = build_children from_zk_snapshot (container s) (path_order E (dom (container s)))
      in (s\<lparr>container := c\<rparr>, e))"

definition getNodesCount :: "KeeperStore \<Rightarrow> uint64" where
  "getNodesCount s = of_nat (card (dom (container s)))"

definition getTotalWatchesCount :: "KeeperStore \<Rightarrow> uint64" where
  "getTotalWatchesCount s =
     of_nat ((\<Sum>p \<in> dom (watches s). length (list_entry (watches s) p))
       + (\<Sum>p \<in> dom (list_watches s). length (list_entry (list_watches s) p)))"

definition getWatchedPathsCount :: "KeeperStore \<Rightarrow> uint64" where
  "getWatchedPathsCount s = of_nat (card (dom (watches s)) + card (dom (list_watches s)))"

definition getSessionsWithWatchesCount :: "KeeperStore \<Rightarrow> uint64" where
  "getSessionsWithWatchesCount s =
     of_nat (card ((\<Union>p \<in> dom (watches s). set (list_entry (watches s) p))
       \<union> (\<Union>p \<in> dom (list_watches s). set (list_entry (list_watches s) p))))"

definition getSessionWithEphemeralNodesCount :: "KeeperStore \<Rightarrow> uint64" where
  "getSessionWithEphemeralNodesCount s = of_nat (card (dom (ephemerals s)))"

definition getTotalEphemeralNodesCount :: "KeeperStore \<Rightarrow> uint64" where
  "getTotalEphemeralNodesCount s =
     of_nat (\<Sum>sid \<in> dom (ephemerals s). card (set_entry (ephemerals s) sid))"

end
