(* ===== verification/Store_Tree.thy ===== *)
theory Store_Tree
  imports Store_Process
begin

text \<open>
  The tree of nodes. The container is a flat map; that it represents a tree is an invariant: the
  paths are closed under parents, the child set of a node is exactly the set of names of the paths
  below it, the counter in its statistics is the size of that set, ephemeral nodes are leaves, and
  the index of ephemeral nodes by session agrees with the nodes. The theory proves that inserting
  and deleting a leaf and changing a node in place keep the invariant; the request theories apply
  these lemmas.
\<close>

section \<open>The invariant\<close>

definition kids :: "string set \<Rightarrow> string \<Rightarrow> string set" where
  "kids D p = {b. b \<noteq> [] \<and> CHR ''/'' \<notin> set b \<and> child_path p b \<in> D}"

definition paths_ok :: "string set \<Rightarrow> bool" where
  "paths_ok D \<longleftrightarrow> finite D \<and> ''/'' \<in> D \<and> (\<forall>p \<in> D. p \<noteq> ''/'' \<longrightarrow> canonical p \<and> parentPath p \<in> D)"

definition node_ok :: "string set \<Rightarrow> string \<Rightarrow> KeeperNode \<Rightarrow> bool" where
  "node_ok D p n \<longleftrightarrow> children n = kids D p
     \<and> numChildren (node_stat n) = of_nat (card (children n))
     \<and> (is_ephemeral n \<longrightarrow> children n = {} \<and> p \<noteq> ''/'')"

definition tree_inv :: "Container \<Rightarrow> bool" where
  "tree_inv c \<longleftrightarrow> paths_ok (dom c) \<and> (\<forall>p n. c p = Some n \<longrightarrow> node_ok (dom c) p n)"

definition ephemerals_of :: "Container \<Rightarrow> int64 \<Rightarrow> string set" where
  "ephemerals_of c sid = {p. \<exists>n. c p = Some n \<and> is_ephemeral n \<and> ephemeralOwner (node_stat n) = sid}"

definition ephemerals_inv :: "Container \<Rightarrow> (int64 \<rightharpoonup> string set) \<Rightarrow> bool" where
  "ephemerals_inv c e \<longleftrightarrow> (\<forall>sid. set_entry e sid = ephemerals_of c sid)"

definition store_tree_inv :: "KeeperStore \<Rightarrow> bool" where
  "store_tree_inv s \<longleftrightarrow> tree_inv (container s) \<and> ephemerals_inv (container s) (ephemerals s)"

section \<open>Children as a function of the paths\<close>

lemma paths_okD:
  assumes "paths_ok D"
  shows "finite D" "''/'' \<in> D" "p \<in> D \<Longrightarrow> p \<noteq> ''/'' \<Longrightarrow> canonical p"
    "p \<in> D \<Longrightarrow> parentPath p \<in> D" "p \<in> D \<Longrightarrow> p \<noteq> []"
proof -
  show "finite D" "''/'' \<in> D" and can: "p \<in> D \<Longrightarrow> p \<noteq> ''/'' \<Longrightarrow> canonical p"
    using assms by (auto simp: paths_ok_def)
  show "p \<in> D \<Longrightarrow> parentPath p \<in> D"
    using assms by (cases "p = ''/''") (auto simp: paths_ok_def)
  show "p \<in> D \<Longrightarrow> p \<noteq> []" using can canonicalD(4)[of p] by (cases "p = ''/''") auto
qed

lemma kidsI: "canonical q \<Longrightarrow> q \<in> D \<Longrightarrow> getBaseName q \<in> kids D (parentPath q)"
  using canonicalD(1,2)[of q] getBaseName_no_slash[of q] by (simp add: kids_def)

lemma child_path_eqD:
  assumes "child_path p b = q" "p \<noteq> []" "CHR ''/'' \<notin> set b"
  shows "p = parentPath q" "b = getBaseName q"
  using assms by auto

lemma kids_insert:
  assumes "canonical q" "p \<noteq> []"
  shows "kids (insert q D) p = (if p = parentPath q then insert (getBaseName q) (kids D p) else kids D p)"
  using assms canonicalD(1,2)[OF assms(1)] getBaseName_no_slash[of q]
  by (auto simp: kids_def dest: child_path_eqD)

lemma kids_delete:
  assumes "canonical q" "p \<noteq> []"
  shows "kids (D - {q}) p = (if p = parentPath q then kids D p - {getBaseName q} else kids D p)"
  using assms canonicalD(1)[OF assms(1)] by (auto simp: kids_def dest: child_path_eqD)

lemma finite_kids:
  assumes "finite D" "p \<noteq> []"
  shows "finite (kids D p)"
proof (rule finite_imageD)
  show "finite (child_path p ` kids D p)"
    by (rule finite_subset[OF _ assms(1)]) (auto simp: kids_def)
  show "inj_on (child_path p) (kids D p)"
    using assms(2) by (intro inj_on_inverseI[where g = getBaseName]) (auto simp: kids_def)
qed

lemma kids_new_leaf:
  assumes "paths_ok D" "q \<notin> D" "q \<noteq> []"
  shows "kids D q = {}"
proof -
  have "child_path q b \<notin> D" if "b \<noteq> []" "CHR ''/'' \<notin> set b" for b
  proof
    assume "child_path q b \<in> D"
    then have "parentPath (child_path q b) \<in> D" by (rule paths_okD(4)[OF assms(1)])
    with assms(2,3) that show False by simp
  qed
  then show ?thesis by (auto simp: kids_def)
qed

lemma paths_ok_insert:
  assumes "paths_ok D" "canonical q" "parentPath q \<in> D"
  shows "paths_ok (insert q D)"
  using assms by (auto simp: paths_ok_def)

lemma paths_ok_delete:
  assumes "paths_ok D" "q \<noteq> ''/''" "kids D q = {}"
  shows "paths_ok (D - {q})"
proof -
  have "parentPath p \<noteq> q" if "p \<in> D" "p \<noteq> ''/''" for p
    using kidsI[of p D] paths_okD(3)[OF assms(1) that] that(1) assms(3) by auto
  then show ?thesis using assms by (auto simp: paths_ok_def)
qed

section \<open>Changes of the container\<close>

lemma tree_invD:
  assumes "tree_inv c"
  shows "paths_ok (dom c)" "c p = Some n \<Longrightarrow> node_ok (dom c) p n" "c ''/'' \<noteq> None" "c [] = None"
proof -
  show ok: "paths_ok (dom c)" and "c p = Some n \<Longrightarrow> node_ok (dom c) p n"
    using assms by (auto simp: tree_inv_def)
  show "c ''/'' \<noteq> None" using paths_okD(2)[OF ok] by (simp add: domIff)
  show "c [] = None" using paths_okD(5)[OF ok, of "[]"] by (cases "c []") (auto simp: domIff)
qed

lemma tree_inv_children:
  assumes "tree_inv c" "c p = Some n"
  shows "children n = kids (dom c) p" "finite (children n)"
    "numChildren (node_stat n) = of_nat (card (children n))"
    "is_ephemeral n \<Longrightarrow> children n = {}" "is_ephemeral n \<Longrightarrow> p \<noteq> ''/''"
proof -
  have ok: "node_ok (dom c) p n" by (rule tree_invD(2)[OF assms])
  then show "children n = kids (dom c) p" "numChildren (node_stat n) = of_nat (card (children n))"
    "is_ephemeral n \<Longrightarrow> children n = {}" "is_ephemeral n \<Longrightarrow> p \<noteq> ''/''"
    by (auto simp: node_ok_def)
  have "p \<noteq> []" using assms tree_invD(4)[OF assms(1)] by auto
  then show "finite (children n)"
    using ok finite_kids[OF paths_okD(1)[OF tree_invD(1)[OF assms(1)]]] by (simp add: node_ok_def)
qed

lemma tree_inv_canonical:
  assumes "tree_inv c" "c p = Some n" "p \<noteq> ''/''"
  shows "canonical p"
  using paths_okD(3)[OF tree_invD(1)[OF assms(1)] domI[of c p n] assms(3)] assms(2) by simp

lemma tree_inv_parent:
  assumes "tree_inv c" "c p = Some n"
  obtains m where "c (parentPath p) = Some m"
  using paths_okD(4)[OF tree_invD(1)[OF assms(1)] domI[of c p n]] assms(2) by (auto simp: domIff)

lemma tree_inv_base_in_parent:
  assumes "tree_inv c" "c p = Some n" "p \<noteq> ''/''" "c (parentPath p) = Some m"
  shows "getBaseName p \<in> children m"
  using kidsI[OF tree_inv_canonical[OF assms(1-3)], of "dom c"] assms(2)
    tree_inv_children(1)[OF assms(1,4)] by (simp add: domI)

lemma tree_inv_insert:
  assumes inv: "tree_inv c" and q: "canonical q" "q \<notin> dom c"
    and m: "c (parentPath q) = Some m" "\<not> is_ephemeral m"
    and n: "children n = {}" "numChildren (node_stat n) = 0"
    and m': "children m' = insert (getBaseName q) (children m)"
      "numChildren (node_stat m') = numChildren (node_stat m) + 1" "\<not> is_ephemeral m'"
  shows "tree_inv (c(parentPath q \<mapsto> m', q \<mapsto> n))"
proof -
  let ?c = "c(parentPath q \<mapsto> m', q \<mapsto> n)"
  have dom: "dom ?c = insert q (dom c)" using m by auto
  have ok: "paths_ok (dom c)" by (rule tree_invD(1)[OF inv])
  have qne: "q \<noteq> []" "parentPath q \<noteq> q" "q \<noteq> ''/''"
    using canonicalD[OF q(1)] parentPath_neq[OF q(1)] by auto
  have fresh: "getBaseName q \<notin> children m"
    using q tree_inv_children(1)[OF inv m(1)] canonicalD(1)[OF q(1)] by (auto simp: kids_def)
  have "node_ok (dom ?c) p k" if k: "?c p = Some k" for p k
  proof -
    consider "p = q" "k = n" | "p = parentPath q" "k = m'" | "p \<noteq> q" "p \<noteq> parentPath q" "c p = Some k"
      using k by (auto split: if_splits)
    then show ?thesis
    proof cases
      case 1
      have "kids (insert q (dom c)) q = {}"
        using qne kids_new_leaf[OF ok q(2) qne(1)] by (simp add: kids_insert[OF q(1)])
      with 1 n qne dom show ?thesis by (simp add: node_ok_def)
    next
      case 2
      then have "p \<noteq> []" using m tree_invD(4)[OF inv] by auto
      then show ?thesis
        using 2 m' fresh tree_inv_children(1,2,3)[OF inv m(1)] dom
        by (simp add: node_ok_def kids_insert[OF q(1)] of_nat_card_insert add.commute)
    next
      case 3
      then have "p \<noteq> []" using tree_invD(4)[OF inv] by auto
      with 3 tree_invD(2)[OF inv 3(3)] dom show ?thesis
        by (auto simp: node_ok_def kids_insert[OF q(1)])
    qed
  qed
  moreover have "paths_ok (dom ?c)"
    unfolding dom using ok q(1) m(1) by (intro paths_ok_insert) auto
  ultimately show ?thesis by (simp add: tree_inv_def)
qed

lemma tree_inv_delete:
  assumes inv: "tree_inv c" and q: "c q = Some n" "q \<noteq> ''/''" "children n = {}"
    and m: "c (parentPath q) = Some m"
    and m': "children m' = children m - {getBaseName q}"
      "numChildren (node_stat m') = numChildren (node_stat m) - 1" "is_ephemeral m' = is_ephemeral m"
  shows "tree_inv ((c(parentPath q \<mapsto> m'))(q := None))"
proof -
  let ?c = "(c(parentPath q \<mapsto> m'))(q := None)"
  have can: "canonical q" by (rule tree_inv_canonical[OF inv q(1,2)])
  have dom: "dom ?c = dom c - {q}" using m parentPath_neq[OF can] by auto
  have ok: "paths_ok (dom c)" by (rule tree_invD(1)[OF inv])
  have present: "getBaseName q \<in> children m" by (rule tree_inv_base_in_parent[OF inv q(1,2) m])
  then have noeph: "\<not> is_ephemeral m" using tree_inv_children(4)[OF inv m] by auto
  have "node_ok (dom ?c) p k" if k: "?c p = Some k" for p k
  proof (cases "p = parentPath q")
    case True
    then have "p \<noteq> []" "k = m'" using m k tree_invD(4)[OF inv] by (auto split: if_splits)
    moreover have "numChildren (node_stat m') = of_nat (card (children m'))"
      unfolding m' tree_inv_children(3)[OF inv m]
      by (rule of_nat_card_remove[OF tree_inv_children(2)[OF inv m] present, symmetric])
    ultimately show ?thesis
      using True m' noeph tree_inv_children(1)[OF inv m] dom
      by (simp add: node_ok_def kids_delete[OF can])
  next
    case False
    then have p: "c p = Some k" using k by (auto split: if_splits)
    then have "p \<noteq> []" using tree_invD(4)[OF inv] by auto
    with False tree_invD(2)[OF inv p] dom show ?thesis
      by (auto simp: node_ok_def kids_delete[OF can])
  qed
  moreover have "paths_ok (dom ?c)"
    unfolding dom using ok q tree_inv_children(1)[OF inv q(1)] by (intro paths_ok_delete) auto
  ultimately show ?thesis by (simp add: tree_inv_def)
qed

lemma tree_inv_update:
  assumes inv: "tree_inv c" and p: "c p = Some n"
    and n': "children n' = children n" "numChildren (node_stat n') = numChildren (node_stat n)"
      "is_ephemeral n' = is_ephemeral n"
  shows "tree_inv (c(p \<mapsto> n'))"
proof -
  have dom: "dom (c(p \<mapsto> n')) = dom c" using p by auto
  have "node_ok (dom c) k m" if "(c(p \<mapsto> n')) k = Some m" for k m
    using that tree_invD(2)[OF inv p] tree_invD(2)[OF inv, of k m] n'
    by (auto simp: node_ok_def split: if_splits)
  with tree_invD(1)[OF inv] show ?thesis unfolding tree_inv_def dom by blast
qed

lemma tree_inv_root: "tree_inv [''/'' \<mapsto> new_node]"
proof -
  have "kids {''/''} ''/'' = {}" by (auto simp: kids_def child_path_def)
  then show ?thesis
    by (auto simp: tree_inv_def paths_ok_def node_ok_def new_node_def zero_stat_def)
qed

section \<open>Changes of the ephemeral index\<close>

lemma set_entry_insert [simp]:
  "set_entry (entry_insert m k x) j = (if j = k then insert x (set_entry m k) else set_entry m j)"
  by (simp add: set_entry_def entry_insert_def)

lemma set_entry_erase [simp]:
  "set_entry (entry_erase m k x) j = (if j = k then set_entry m k - {x} else set_entry m j)"
  by (simp add: set_entry_def entry_erase_def)

lemma set_entry_empty [simp]: "set_entry Map.empty k = {}"
  by (simp add: set_entry_def)

lemma set_entry_del [simp]: "set_entry (m(k := None)) j = (if j = k then {} else set_entry m j)"
  by (simp add: set_entry_def)

definition eph_attr :: "KeeperNode option \<Rightarrow> int64 \<Rightarrow> bool" where
  "eph_attr v sid \<longleftrightarrow> (case v of None \<Rightarrow> False | Some n \<Rightarrow> is_ephemeral n \<and> ephemeralOwner (node_stat n) = sid)"

lemma eph_attr_simps [simp]:
  "eph_attr None sid = False"
  "eph_attr (Some n) sid = (is_ephemeral n \<and> ephemeralOwner (node_stat n) = sid)"
  by (simp_all add: eph_attr_def)

lemma eph_attr_unique: "eph_attr v a \<Longrightarrow> eph_attr v b \<Longrightarrow> a = b"
  by (auto simp: eph_attr_def split: option.splits)

lemma ephemerals_of_iff: "p \<in> ephemerals_of c sid \<longleftrightarrow> eph_attr (c p) sid"
  by (auto simp: ephemerals_of_def eph_attr_def split: option.splits)

lemma ephemerals_invI:
  assumes "ephemerals_inv c e"
    and "\<And>sid p. p \<in> set_entry e' sid \<longleftrightarrow>
      (if eph_attr (c' p) = eph_attr (c p) then p \<in> set_entry e sid else eph_attr (c' p) sid)"
  shows "ephemerals_inv c' e'"
proof -
  have "p \<in> set_entry e' sid \<longleftrightarrow> p \<in> ephemerals_of c' sid" for sid p
    using assms by (simp add: ephemerals_inv_def ephemerals_of_iff)
  then show ?thesis by (auto simp: ephemerals_inv_def)
qed

lemma ephemerals_inv_upd:
  assumes "ephemerals_inv c e"
    and "\<And>p. p \<noteq> q \<Longrightarrow> eph_attr (c' p) = eph_attr (c p)"
    and "\<And>sid p. p \<in> set_entry e' sid \<longleftrightarrow> (if p = q then eph_attr (c' q) sid else p \<in> set_entry e sid)"
  shows "ephemerals_inv c' e'"
  using assms(1) by (rule ephemerals_invI) (use assms in \<open>auto simp: ephemerals_inv_def ephemerals_of_iff\<close>)

lemma ephemerals_inv_same:
  assumes "ephemerals_inv c e" "\<And>p. eph_attr (c' p) = eph_attr (c p)"
  shows "ephemerals_inv c' e"
  using assms by (auto simp: ephemerals_inv_def ephemerals_of_iff)

end
