(* ===== verification/Store_Invariant.thy ===== *)
theory Store_Invariant
  imports Store_Tree
begin

text \<open>
  Every request keeps the tree invariant of \<open>Store_Tree\<close>, and the undo actions of a failed multi
  request restore the tree exactly. The two exceptions that the code has are the hypothesis
  \<open>request_ok\<close>: a create at a path of the form \<open>//name\<close>, and a remove of the root.
\<close>

section \<open>What the requests leave unchanged\<close>

definition frame :: "KeeperStore \<Rightarrow> KeeperStore \<Rightarrow> bool" where
  "frame s s' \<longleftrightarrow> watches s' = watches s \<and> list_watches s' = list_watches s
     \<and> sessions_and_watchers s' = sessions_and_watchers s \<and> zxid s' = zxid s
     \<and> session_and_timeout s' = session_and_timeout s
     \<and> session_expiry_queue s' = session_expiry_queue s
     \<and> session_id_counter s' = session_id_counter s \<and> finalized s' = finalized s
     \<and> super_digest s' = super_digest s"

lemma frame_refl [simp, frame_simps]: "frame s s"
  by (simp add: frame_def)

lemma frame_trans: "frame s s' \<Longrightarrow> frame s' s'' \<Longrightarrow> frame s s''"
  by (simp add: frame_def)

lemma frameD:
  assumes "frame s s'"
  shows "watches s' = watches s" "list_watches s' = list_watches s"
    "sessions_and_watchers s' = sessions_and_watchers s" "zxid s' = zxid s"
    "session_and_timeout s' = session_and_timeout s" "session_expiry_queue s' = session_expiry_queue s"
    "session_id_counter s' = session_id_counter s" "finalized s' = finalized s"
    "super_digest s' = super_digest s"
  using assms by (simp_all add: frame_def)

lemma create_acl_frame:
  "frame s (fst (create_acl s sid acls))"
  "container (fst (create_acl s sid acls)) = container s"
  "ephemerals (fst (create_acl s sid acls)) = ephemerals s"
  by (auto simp: create_acl_def frame_def Let_def split: prod.splits)

lemma create_acl_error: "create_acl s sid acls = (s1, Inl e) \<Longrightarrow> e = ZINVALIDACL"
  by (auto simp: create_acl_def Let_def split: if_splits prod.splits)

lemma create_target_error:
  "create_target s path q = Inl e \<Longrightarrow>
     e \<in> {ZNONODE, ZNOCHILDRENFOREPHEMERALS, ZNODEEXISTS, ZBADARGUMENTS}"
  by (auto simp: create_target_def Let_def split: option.splits if_splits)

lemma create_process_cases:
  obtains (failed) s1 e where
      "create_process s zx sid time path dat eph sequential acls = reply s1 e (CreateResponse []) NoUndo"
      "e \<noteq> ZOK" "frame s s1" "container s1 = container s" "ephemerals s1 = ephemerals s"
      "create_target s path sequential = Inl e \<and> s1 = s \<or> (\<exists>t. create_target s path sequential = Inr t) \<and> e = ZINVALIDACL"
  | (created) parent pc child s1 acl_id where
      "create_target s path sequential = Inr (parent, pc, child)"
      "create_acl s sid acls = (s1, Inr acl_id)" "frame s s1"
      "container s1 = container s" "ephemerals s1 = ephemerals s"
      "create_process s zx sid time path dat eph sequential acls =
         reply (s1\<lparr>container := (container s)(parentPath path \<mapsto> add_child child zx parent,
                      pc \<mapsto> created_node acl_id zx sid time dat eph sequential),
                    ephemerals := (if eph then entry_insert (ephemerals s) sid pc else ephemerals s)\<rparr>)
           ZOK (CreateResponse pc)
           (UndoCreate sid pc (pzxid (node_stat parent)) eph (parentPath path) child acl_id)"
proof (cases "create_target s path sequential")
  case (Inl e)
  with create_target_error[OF Inl] show ?thesis
    by (intro failed[of s e]) (auto simp: create_process_def)
next
  case (Inr t)
  obtain parent pc child where t: "t = (parent, pc, child)" by (cases t)
  obtain s1 r where r: "create_acl s sid acls = (s1, r)" by (cases "create_acl s sid acls")
  have fr: "frame s s1" "container s1 = container s" "ephemerals s1 = ephemerals s"
    using create_acl_frame[of s sid acls] r by auto
  show ?thesis
  proof (cases r)
    case (Inl e)
    with Inr t r fr create_acl_error[of s sid acls s1 e] show ?thesis
      by (intro failed[of s1 e]) (auto simp: create_process_def)
  next
    case (Inr acl_id)
    with \<open>create_target s path sequential = Inr t\<close> t r fr show ?thesis
      by (intro created[of parent pc child s1 acl_id]) (auto simp: create_process_def)
  qed
qed

lemma remove_process_cases:
  obtains (failed) e where
      "remove_process s zx path ver = reply s e RemoveResponse NoUndo"
      "e \<in> {ZNONODE, ZBADVERSION, ZNOTEMPTY}"
  | (crash) n where "remove_process s zx path ver = (s, Inl NULL_DEREFERENCE)"
      "container s path = Some n" "container s (parentPath path) = None"
  | (removed) n parent where
      "container s path = Some n" "container s (parentPath path) = Some parent" "children n = {}"
      "ver = -1 \<or> ver = version (node_stat n)"
      "remove_process s zx path ver =
         reply (s\<lparr>container := ((container s)(parentPath path \<mapsto> drop_child (getBaseName path) zx parent))
                     (path := None),
                   store_acl_map := removeUsage (store_acl_map s) (node_acl_id n),
                   ephemerals := (if is_ephemeral n
                      then entry_erase (ephemerals s) (ephemeralOwner (node_stat n)) path
                      else ephemerals s)\<rparr>)
           ZOK RemoveResponse
           (UndoRemove n (if is_ephemeral n then ephemeralOwner (node_stat n) else 0) path
              (pzxid (node_stat parent)) (getBaseName path))"
proof (cases "container s path")
  case None
  then show ?thesis by (intro failed[of ZNONODE]) (simp_all add: remove_process_def)
next
  case (Some n)
  consider "ver \<noteq> -1 \<and> ver \<noteq> version (node_stat n)"
    | "ver = -1 \<or> ver = version (node_stat n)" "children n \<noteq> {}"
    | "ver = -1 \<or> ver = version (node_stat n)" "children n = {}" by blast
  then show ?thesis
  proof cases
    case 1
    with Some show ?thesis by (intro failed[of ZBADVERSION]) (simp_all add: remove_process_def)
  next
    case 2
    with Some show ?thesis by (intro failed[of ZNOTEMPTY]) (auto simp: remove_process_def)
  next
    case 3
    then show ?thesis
      using Some crash[of n] removed[of n]
      by (cases "container s (parentPath path)") (auto simp: remove_process_def Let_def)
  qed
qed

lemma set_process_cases:
  obtains (failed) e where
      "set_process s zx time path dat ver = reply s e (SetResponse zero_stat) NoUndo"
      "e \<in> {ZNONODE, ZBADVERSION}"
  | (changed) n where "container s path = Some n" "ver = -1 \<or> ver = version (node_stat n)"
      "set_process s zx time path dat ver =
         reply (s\<lparr>container := (container s)(path \<mapsto> set_node zx time dat n)\<rparr>) ZOK
           (SetResponse (statForResponse (set_node zx time dat n))) (UndoSet path n)"
proof (cases "container s path")
  case None
  then show ?thesis by (intro failed[of ZNONODE]) (simp_all add: set_process_def)
next
  case (Some n)
  then show ?thesis
    using failed[of ZBADVERSION] changed[of n]
    by (cases "ver = -1 \<or> ver = version (node_stat n)") (auto simp: set_process_def Let_def)
qed

lemma check_process_state [simp]:
  "fst (check_process s path ver) = s"
  "snd (check_process s path ver) = Inr (r, u) \<Longrightarrow> u = NoUndo"
  by (auto simp: check_process_def split: option.splits if_splits)

lemma create_process_frame: "frame s (fst (create_process s zx sid time path dat eph sequential acls))"
  by (cases rule: create_process_cases[of s zx sid time path dat eph sequential acls])
     (auto simp: frame_def)

lemma remove_process_frame: "frame s (fst (remove_process s zx path ver))"
  by (cases rule: remove_process_cases[of s zx path ver]) (auto simp: frame_def)

lemma set_process_frame: "frame s (fst (set_process s zx time path dat ver))"
  by (cases rule: set_process_cases[of s zx time path dat ver]) (auto simp: frame_def)

lemma sub_process_frame: "frame s (fst (sub_process s zx sid time r))"
  by (cases r) (simp_all add: create_process_frame remove_process_frame set_process_frame)

lemma run_undo_frame: "run_undo u s = Inr s' \<Longrightarrow> frame s s'"
  by (cases u) (auto simp: undo_create_def undo_remove_def undo_set_def Let_def frame_def
      split: option.splits if_splits)

lemma run_undos_frame: "run_undos us s = Inr s' \<Longrightarrow> frame s s'"
  by (induction us arbitrary: s) (auto split: sum.splits dest: run_undo_frame intro: frame_trans)

lemma multi_loop_frame: "frame s (fst (multi_loop s zx sid time rs done us))"
proof (induction rs arbitrary: s "done" us)
  case (Cons r rs)
  obtain s1 x where sub: "sub_process s zx sid time r = (s1, x)" by (cases "sub_process s zx sid time r")
  have fr: "frame s s1" using sub_process_frame[of s zx sid time r] sub by simp
  show ?case
    using fr Cons.IH[of s1]
    by (auto simp: sub split: sum.splits dest: run_undos_frame intro: frame_trans)
qed simp

lemma multi_process_frame: "frame s (fst (multi_process s zx sid time rs))"
  using multi_loop_frame[of s zx sid time rs "[]" "[]"]
  by (auto simp: multi_process_def split: prod.splits sum.splits)

lemma setACL_process_frame: "frame s (fst (setACL_process s sid path acls ver))"
  by (auto simp: frame_def setACL_process_def Let_def split: option.splits prod.splits)

lemma auth_process_frame: "frame s (fst (auth_process E s sid sch dat))"
  by (simp add: frame_def auth_process_def Let_def)

lemma setSeqNum_process_frame: "frame s (fst (setSeqNum_process s path k))"
  by (simp add: frame_def setSeqNum_process_def split: option.splits)

lemma read_process_state [simp]:
  "fst (heartbeat_process s) = s" "fst (setWatches_process s) = s" "fst (sync_process s path) = s"
  "fst (close_process s) = s" "fst (exists_process s path) = s" "fst (get_process s path) = s"
  "fst (list_process s path) = s" "fst (getACL_process s path) = s"
  by (simp_all add: heartbeat_process_def setWatches_process_def sync_process_def close_process_def
      exists_process_def get_process_def list_process_def getACL_process_def
      split: option.splits sum.splits)

lemma store_process_frame: "frame s (fst (store_process E s zx sid time b))"
  by (cases b) (simp_all add: create_process_frame remove_process_frame set_process_frame
      multi_process_frame setACL_process_frame auth_process_frame setSeqNum_process_frame)

section \<open>Single requests keep the tree\<close>

fun sub_ok :: "request_body \<Rightarrow> bool" where
  "sub_ok (CreateRequest path _ _ _ _) = (\<not> double_slash path)"
| "sub_ok (RemoveRequest path _) = (path \<noteq> ''/'')"
| "sub_ok _ = True"

definition request_ok :: "request_body \<Rightarrow> bool" where
  "request_ok b \<longleftrightarrow>
     (case b of MultiRequest rs \<Rightarrow> list_all (\<lambda>r. sub_ok (req_body r)) rs | _ \<Rightarrow> sub_ok b)"

lemma create_target_tree:
  assumes inv: "tree_inv (container s)" and nd: "\<not> double_slash path"
    and t: "create_target s path q = Inr (parent, pc, child)"
  shows "canonical pc" "pc \<notin> dom (container s)" "parentPath pc = parentPath path"
    "child = getBaseName pc" "container s (parentPath path) = Some parent" "\<not> is_ephemeral parent"
proof -
  from t have par: "container s (parentPath path) = Some parent" and ne: "\<not> is_ephemeral parent"
    and pc: "pc = (if q then path @ seq_num_str (cversion (node_stat parent)) else path)"
    and new: "container s pc = None" and child: "child = getBaseName pc" "child \<noteq> []"
    by (auto simp: create_target_def Let_def split: option.splits if_splits)
  show "pc \<notin> dom (container s)" "child = getBaseName pc" "container s (parentPath path) = Some parent"
    "\<not> is_ephemeral parent"
    using new child par ne by auto
  have slash: "CHR ''/'' \<in> set path"
  proof (rule ccontr)
    assume no: "CHR ''/'' \<notin> set path"
    then have "parentPath path = path" by (simp add: parentPath_def rfind_slash_None[THEN iffD2])
    with par have "container s path = Some parent" by simp
    moreover have "path \<noteq> ''/''" using no by auto
    ultimately have "canonical path" using tree_inv_canonical[OF inv] by blast
    with no show False using canonicalD(5) by blast
  qed
  then show "parentPath pc = parentPath path" using pc by simp
  have "\<not> double_slash pc" "CHR ''/'' \<in> set pc"
    using nd slash pc double_slash_append[OF slash] by (auto split: if_splits)
  with child show "canonical pc" by (simp add: canonical_iff)
qed

lemma store_tree_invD:
  assumes "store_tree_inv s"
  shows "tree_inv (container s)" "ephemerals_inv (container s) (ephemerals s)"
  using assms by (simp_all add: store_tree_inv_def)

lemma create_process_tree:
  assumes inv: "store_tree_inv s" and nd: "\<not> double_slash path"
  shows "store_tree_inv (fst (create_process s zx sid time path dat eph sequential acls))"
proof (cases rule: create_process_cases[of s zx sid time path dat eph sequential acls])
  case (created parent pc child s1 acl_id)
  note t = create_target_tree[OF store_tree_invD(1)[OF inv] nd created(1)]
  let ?n = "created_node acl_id zx sid time dat eph sequential"
  let ?c = "(container s)(parentPath path \<mapsto> add_child child zx parent, pc \<mapsto> ?n)"
  have "tree_inv ((container s)(parentPath pc \<mapsto> add_child child zx parent, pc \<mapsto> ?n))"
    using t(1,2) by (rule tree_inv_insert[OF store_tree_invD(1)[OF inv]])
      (use t in \<open>auto simp: add_child_def created_node_def new_node_def\<close>)
  then have "tree_inv ?c" using t(3) by simp
  moreover have "ephemerals_inv ?c (if eph then entry_insert (ephemerals s) sid pc else ephemerals s)"
  proof (rule ephemerals_inv_upd[OF store_tree_invD(2)[OF inv], of pc])
    show "eph_attr (?c p) = eph_attr (container s p)" if "p \<noteq> pc" for p
      using that t(5) by (auto simp: add_child_def fun_eq_iff)
    have "pc \<notin> set_entry (ephemerals s) sid'" for sid'
      using store_tree_invD(2)[OF inv] t(2) by (auto simp: ephemerals_inv_def ephemerals_of_def domIff)
    then show "p \<in> set_entry (if eph then entry_insert (ephemerals s) sid pc else ephemerals s) sid' \<longleftrightarrow>
        (if p = pc then eph_attr (?c pc) sid' else p \<in> set_entry (ephemerals s) sid')" for sid' p
      by (auto simp: created_node_def new_node_def)
  qed
  ultimately show ?thesis using created(6) by (simp add: store_tree_inv_def)
next
  case (failed s1 e)
  with inv show ?thesis by (simp add: store_tree_inv_def)
qed

lemma remove_process_tree:
  assumes inv: "store_tree_inv s" and np: "path \<noteq> ''/''"
  shows "store_tree_inv (fst (remove_process s zx path ver))"
proof (cases rule: remove_process_cases[of s zx path ver])
  case (removed n parent)
  let ?c = "((container s)(parentPath path \<mapsto> drop_child (getBaseName path) zx parent))(path := None)"
  let ?e = "if is_ephemeral n then entry_erase (ephemerals s) (ephemeralOwner (node_stat n)) path
    else ephemerals s"
  have "tree_inv ?c"
    using removed np by (intro tree_inv_delete[OF store_tree_invD(1)[OF inv]]) (auto simp: drop_child_def)
  moreover have "ephemerals_inv ?c ?e"
  proof (rule ephemerals_inv_upd[OF store_tree_invD(2)[OF inv], of path])
    show "eph_attr (?c p) = eph_attr (container s p)" if "p \<noteq> path" for p
      using that removed(2) by (auto simp: drop_child_def fun_eq_iff)
    have "path \<in> set_entry (ephemerals s) sid \<longleftrightarrow> eph_attr (Some n) sid" for sid
      using store_tree_invD(2)[OF inv] removed(1) by (simp add: ephemerals_inv_def ephemerals_of_iff)
    then show "p \<in> set_entry ?e sid \<longleftrightarrow>
        (if p = path then eph_attr (?c path) sid else p \<in> set_entry (ephemerals s) sid)" for sid p
      by auto
  qed
  ultimately show ?thesis using removed(5) by (simp add: store_tree_inv_def)
qed (use inv in simp_all)

lemma store_tree_inv_update:
  assumes inv: "store_tree_inv s" and p: "container s p = Some n"
    and n': "children n' = children n" "numChildren (node_stat n') = numChildren (node_stat n)"
      "is_ephemeral n' = is_ephemeral n" "ephemeralOwner (node_stat n') = ephemeralOwner (node_stat n)"
    and s': "container s' = (container s)(p \<mapsto> n')" "ephemerals s' = ephemerals s"
  shows "store_tree_inv s'"
proof -
  have "ephemerals_inv ((container s)(p \<mapsto> n')) (ephemerals s)"
    by (rule ephemerals_inv_same[OF store_tree_invD(2)[OF inv]]) (use p n' in \<open>auto simp: fun_eq_iff\<close>)
  then show ?thesis
    using tree_inv_update[OF store_tree_invD(1)[OF inv] p n'(1-3)] s' by (simp add: store_tree_inv_def)
qed

lemma set_process_tree:
  assumes "store_tree_inv s"
  shows "store_tree_inv (fst (set_process s zx time path dat ver))"
proof (cases rule: set_process_cases[of s zx time path dat ver])
  case (changed n)
  then show ?thesis
    by (auto intro!: store_tree_inv_update[OF assms changed(1), of "set_node zx time dat n"]
        simp: set_node_def)
qed (use assms in simp)

lemma sub_process_tree:
  assumes "store_tree_inv s" "sub_ok r"
  shows "store_tree_inv (fst (sub_process s zx sid time r))"
  using assms by (cases r) (simp_all add: create_process_tree remove_process_tree set_process_tree)

section \<open>Undo restores the tree\<close>

text \<open>
  Two stores with the same nodes and the same index of ephemeral nodes, up to entries of the index
  for sessions without ephemeral nodes.
\<close>

definition same_tree :: "KeeperStore \<Rightarrow> KeeperStore \<Rightarrow> bool" where
  "same_tree s t \<longleftrightarrow> container t = container s
     \<and> (\<forall>sid. set_entry (ephemerals t) sid = set_entry (ephemerals s) sid)"

lemma same_tree_refl [simp]: "same_tree s s"
  by (simp add: same_tree_def)

lemma same_tree_inv: "same_tree s t \<Longrightarrow> store_tree_inv s \<Longrightarrow> store_tree_inv t"
  by (simp add: same_tree_def store_tree_inv_def ephemerals_inv_def)

lemma node_restore_add:
  assumes "c \<notin> children p"
  shows "(add_child c zx p)\<lparr>children := children (add_child c zx p) - {c},
     node_stat := (node_stat (add_child c zx p))\<lparr>cversion := cversion (node_stat (add_child c zx p)) - 1,
       numChildren := numChildren (node_stat (add_child c zx p)) - 1, pzxid := pzxid (node_stat p)\<rparr>\<rparr> = p"
  using assms by (simp add: add_child_def)

lemma node_restore_drop:
  assumes "c \<in> children p"
  shows "(drop_child c zx p)\<lparr>children := insert c (children (drop_child c zx p)),
     node_stat := (node_stat (drop_child c zx p))\<lparr>
       numChildren := numChildren (node_stat (drop_child c zx p)) + 1, pzxid := pzxid (node_stat p)\<rparr>\<rparr> = p"
  using assms by (simp add: drop_child_def insert_absorb)

lemma create_undo_restores:
  assumes inv: "store_tree_inv s" and nd: "\<not> double_slash path"
    and run: "create_process s zx sid time path dat eph sequential acls = (s1, Inr (r, u))"
    and same: "same_tree s1 t"
  shows "\<exists>t'. run_undo u t = Inr t' \<and> same_tree s t'"
proof (cases rule: create_process_cases[of s zx sid time path dat eph sequential acls])
  case (failed s2 e)
  with run same show ?thesis by (auto simp: same_tree_def)
next
  case (created parent pc child s2 acl_id)
  note tr = create_target_tree[OF store_tree_invD(1)[OF inv] nd created(1)]
  let ?n = "created_node acl_id zx sid time dat eph sequential"
  have neq: "parentPath path \<noteq> pc" using parentPath_neq[OF tr(1)] tr(3) by metis
  have fresh: "child \<notin> children parent"
  proof
    assume "child \<in> children parent"
    with tree_inv_children(1)[OF store_tree_invD(1)[OF inv] tr(5)] tr(3,4)
    have "child_path (parentPath pc) (getBaseName pc) \<in> dom (container s)" by (simp add: kids_def)
    with canonicalD(1)[OF tr(1)] tr(2) show False by simp
  qed
  have u: "u = UndoCreate sid pc (pzxid (node_stat parent)) eph (parentPath path) child acl_id"
    and ct: "container t = (container s)(parentPath path \<mapsto> add_child child zx parent, pc \<mapsto> ?n)"
    and et: "set_entry (ephemerals t) k =
      set_entry (if eph then entry_insert (ephemerals s) sid pc else ephemerals s) k" for k
    using run same unfolding created(6) same_tree_def prod.inject sum.inject by (force+)
  have restored: "(container t)(pc := None, parentPath path \<mapsto> parent) = container s"
    using ct tr(2,5) neq by (auto simp: fun_eq_iff domIff)
  have out: "pc \<notin> set_entry (ephemerals s) k" for k
    using store_tree_invD(2)[OF inv] tr(2) by (auto simp: ephemerals_inv_def ephemerals_of_def domIff)
  then have "set_entry (if eph then entry_erase (ephemerals t) sid pc else ephemerals t) k =
      set_entry (ephemerals s) k" for k
    by (auto simp: et)
  then show ?thesis
    using ct neq restored node_restore_add[OF fresh, of zx]
    by (auto simp: u undo_create_def Let_def same_tree_def)
qed

lemma remove_undo_restores:
  assumes inv: "store_tree_inv s" and np: "path \<noteq> ''/''"
    and run: "remove_process s zx path ver = (s1, Inr (r, u))" and same: "same_tree s1 t"
  shows "\<exists>t'. run_undo u t = Inr t' \<and> same_tree s t'"
proof (cases rule: remove_process_cases[of s zx path ver])
  case (removed n parent)
  have can: "canonical path" by (rule tree_inv_canonical[OF store_tree_invD(1)[OF inv] removed(1) np])
  have neq: "parentPath path \<noteq> path" by (rule parentPath_neq[OF can])
  have mem: "getBaseName path \<in> children parent"
    by (rule tree_inv_base_in_parent[OF store_tree_invD(1)[OF inv] removed(1) np removed(2)])
  let ?o = "if is_ephemeral n then ephemeralOwner (node_stat n) else 0"
  have u: "u = UndoRemove n ?o path (pzxid (node_stat parent)) (getBaseName path)"
    and ct: "container t = ((container s)(parentPath path \<mapsto> drop_child (getBaseName path) zx parent))
      (path := None)"
    and et: "set_entry (ephemerals t) k = set_entry (if is_ephemeral n
      then entry_erase (ephemerals s) (ephemeralOwner (node_stat n)) path else ephemerals s) k" for k
    using run same unfolding removed(5) same_tree_def prod.inject sum.inject by (force+)
  have restored: "(container t)(path \<mapsto> n, parentPath path \<mapsto> parent) = container s"
    using ct removed(1,2) neq by (auto simp: fun_eq_iff)
  have "path \<in> set_entry (ephemerals s) (ephemeralOwner (node_stat n))" if "is_ephemeral n"
    using store_tree_invD(2)[OF inv] removed(1) that by (simp add: ephemerals_inv_def ephemerals_of_iff)
  then have "set_entry (if is_ephemeral n then entry_insert (ephemerals t) ?o path else ephemerals t) k =
      set_entry (ephemerals s) k" for k
    by (auto simp: et)
  then show ?thesis
    using ct neq restored node_restore_drop[OF mem, of zx]
    by (auto simp: u undo_remove_def Let_def same_tree_def)
qed (use run same in auto)

lemma set_undo_restores:
  assumes run: "set_process s zx time path dat ver = (s1, Inr (r, u))" and same: "same_tree s1 t"
  shows "\<exists>t'. run_undo u t = Inr t' \<and> same_tree s t'"
proof (cases rule: set_process_cases[of s zx time path dat ver])
  case (changed n)
  with run have "u = UndoSet path n" "s1 = s\<lparr>container := (container s)(path \<mapsto> set_node zx time dat n)\<rparr>"
    by auto
  with same show ?thesis
    using changed(1) by (auto simp: undo_set_def same_tree_def map_upd_idem)
qed (use run same in auto)

lemma sub_undo_restores:
  assumes "store_tree_inv s" "sub_ok r" "sub_process s zx sid time r = (s1, Inr (x, u))" "same_tree s1 t"
  shows "\<exists>t'. run_undo u t = Inr t' \<and> same_tree s t'"
proof (cases r)
  case (CheckRequest path ver)
  with assms(3) have "s1 = s" "u = NoUndo"
    using check_process_state[of s path ver] by (metis fst_conv snd_conv sub_process.simps(4))+
  with assms(4) show ?thesis by simp
qed (use assms create_undo_restores remove_undo_restores set_undo_restores in \<open>fastforce\<close>)+

section \<open>Multi\<close>

lemma sub_process_no_exception:
  assumes inv: "store_tree_inv s" and "multi_allowed r"
  shows "\<exists>s1 x u. sub_process s zx sid time r = (s1, Inr (x, u))"
proof (cases r)
  case (CreateRequest path dat eph sequential acls)
  then show ?thesis
    by (cases rule: create_process_cases[of s zx sid time path dat eph sequential acls]) auto
next
  case (RemoveRequest path ver)
  then show ?thesis
    by (cases rule: remove_process_cases[of s zx path ver])
       (auto elim: tree_inv_parent[OF store_tree_invD(1)[OF inv]])
next
  case (SetRequest path dat ver)
  then show ?thesis by (cases rule: set_process_cases[of s zx time path dat ver]) auto
next
  case (CheckRequest path ver)
  then show ?thesis by (auto simp: check_process_def split: option.splits)
qed (use assms in auto)

definition undoable :: "KeeperStore \<Rightarrow> KeeperStore \<Rightarrow> undo list \<Rightarrow> bool" where
  "undoable s0 s us \<longleftrightarrow> (\<forall>t. same_tree s t \<longrightarrow> (\<exists>t'. run_undos us t = Inr t' \<and> same_tree s0 t'))"

lemma undoable_Nil [simp]: "undoable s s []"
  by (simp add: undoable_def)

lemma undoable_step:
  assumes "undoable s0 s us" "store_tree_inv s" "sub_ok r" "sub_process s zx sid time r = (s1, Inr (x, u))"
  shows "undoable s0 s1 (u # us)"
  using assms sub_undo_restores[OF assms(2-4)] by (fastforce simp: undoable_def)

lemma sub_process_error_state:
  assumes "sub_process s zx sid time r = (s1, Inr (x, u))" "resp_error x \<noteq> ZOK"
  shows "same_tree s s1"
proof (cases r)
  case (CreateRequest path dat eph sequential acls)
  with assms show ?thesis
    by (cases rule: create_process_cases[of s zx sid time path dat eph sequential acls])
       (auto simp: same_tree_def)
next
  case (RemoveRequest path ver)
  with assms show ?thesis by (cases rule: remove_process_cases[of s zx path ver]) auto
next
  case (SetRequest path dat ver)
  with assms show ?thesis by (cases rule: set_process_cases[of s zx time path dat ver]) auto
next
  case (CheckRequest path ver)
  with assms have "s1 = s" using check_process_state(1)[of s path ver] by simp
  then show ?thesis by simp
qed (use assms in auto)

definition multi_failed :: "response list \<Rightarrow> bool" where
  "multi_failed rs \<longleftrightarrow> (\<exists>r \<in> set rs. resp_error r \<noteq> ZOK)"

lemma multi_loop_atomic:
  assumes "store_tree_inv s0" "store_tree_inv s" "undoable s0 s us"
    "list_all sub_ok rs" "list_all multi_allowed rs" "\<forall>d \<in> set done. resp_error d = ZOK"
  shows "\<exists>s' out. multi_loop s zx sid time rs done us = (s', Inr out) \<and> store_tree_inv s'
    \<and> length out = length done + length rs \<and> (multi_failed out \<longrightarrow> same_tree s0 s')"
  using assms
proof (induction rs arbitrary: s "done" us)
  case Nil
  then show ?case by (auto simp: multi_failed_def)
next
  case (Cons r rs)
  obtain s1 x u where sub: "sub_process s zx sid time r = (s1, Inr (x, u))"
    using sub_process_no_exception[OF Cons.prems(2)] Cons.prems(5) by fastforce
  show ?case
  proof (cases "resp_error x = ZOK")
    case True
    have "store_tree_inv s1"
      using sub_process_tree[OF Cons.prems(2), of r zx sid time] Cons.prems(4) sub by simp
    moreover have "undoable s0 s1 (u # us)"
      using Cons.prems(4) by (intro undoable_step[OF Cons.prems(3,2) _ sub]) simp
    ultimately show ?thesis
      using Cons.IH[of s1 "u # us" "done @ [x]"] Cons.prems True sub by auto
  next
    case False
    obtain s2 where "run_undos us s1 = Inr s2" "same_tree s0 s2"
      using Cons.prems(3) sub_process_error_state[OF sub False] by (auto simp: undoable_def)
    with sub False same_tree_inv[OF _ Cons.prems(1)] show ?thesis by auto
  qed
qed

lemma multi_process_atomic:
  assumes "store_tree_inv s" "list_all sub_ok rs" "list_all multi_allowed rs"
  shows "\<exists>s' out. multi_process s zx sid time rs = reply s' ZOK (MultiResponse out) NoUndo
    \<and> store_tree_inv s' \<and> length out = length rs \<and> (multi_failed out \<longrightarrow> same_tree s s')"
  using multi_loop_atomic[OF assms(1,1) undoable_Nil assms(2,3), of "[]" zx sid time]
  by (auto simp: multi_process_def)

section \<open>All requests\<close>

lemma setACL_process_cases:
  obtains (failed) e auths where
      "setACL_process s sid path acls ver = reply (s\<lparr>session_and_auth := auths\<rparr>) e (SetACLResponse zero_stat) NoUndo"
      "e \<in> {ZNONODE, ZBADVERSION, ZINVALIDACL}"
  | (changed) n auths node_acls m acl_id n' where "container s path = Some n"
      "fixupACL acls (list_entry (session_and_auth s) sid) = (True, node_acls)"
      "convertACLs (store_acl_map s) node_acls = (m, acl_id)"
      "n' = n\<lparr>node_acl_id := acl_id,
         node_stat := (node_stat n)\<lparr>aversion := aversion (node_stat n) + 1\<rparr>\<rparr>"
      "setACL_process s sid path acls ver =
         reply (s\<lparr>session_and_auth := auths, store_acl_map := addUsage m acl_id 1,
           container := (container s)(path \<mapsto> n')\<rparr>) ZOK (SetACLResponse (node_stat n')) NoUndo"
proof (cases "container s path")
  case None
  then show ?thesis by (intro failed[of "session_and_auth s" ZNONODE]) (simp_all add: setACL_process_def)
next
  case (Some n)
  let ?ids = "list_entry (session_and_auth s) sid"
  let ?auths = "(session_and_auth s)(sid \<mapsto> ?ids)"
  obtain valid node_acls where fx: "fixupACL acls ?ids = (valid, node_acls)" by (cases "fixupACL acls ?ids")
  obtain m acl_id where conv: "convertACLs (store_acl_map s) node_acls = (m, acl_id)"
    by (cases "convertACLs (store_acl_map s) node_acls")
  consider "ver \<noteq> -1 \<and> ver \<noteq> aversion (node_stat n)"
    | "ver = -1 \<or> ver = aversion (node_stat n)" "\<not> valid"
    | "ver = -1 \<or> ver = aversion (node_stat n)" valid by blast
  then show ?thesis
  proof cases
    case 1
    with Some show ?thesis
      by (intro failed[of "session_and_auth s" ZBADVERSION]) (simp_all add: setACL_process_def)
  next
    case 2
    with Some fx show ?thesis
      by (intro failed[of ?auths ZINVALIDACL]) (auto simp: setACL_process_def)
  next
    case 3
    with Some fx conv show ?thesis
      by (intro changed[of n node_acls m acl_id _ ?auths]) (auto simp: setACL_process_def)
  qed
qed

lemma setACL_process_tree:
  assumes "store_tree_inv s"
  shows "store_tree_inv (fst (setACL_process s sid path acls ver))"
proof (cases rule: setACL_process_cases[of s sid path acls ver])
  case (changed n auths node_acls m acl_id n')
  show ?thesis
    by (rule store_tree_inv_update[OF assms changed(1), where n' = n']) (simp_all add: changed(4,5))
next
  case (failed e auths)
  with assms show ?thesis by (simp add: store_tree_inv_def)
qed

lemma setSeqNum_process_tree:
  assumes "store_tree_inv s"
  shows "store_tree_inv (fst (setSeqNum_process s path k))"
proof (cases "container s path")
  case (Some n)
  show ?thesis
    by (rule store_tree_inv_update[OF assms Some,
          where n' = "n\<lparr>node_stat := (node_stat n)\<lparr>cversion := k\<rparr>\<rparr>"])
       (simp_all add: setSeqNum_process_def Some)
qed (use assms in \<open>simp add: setSeqNum_process_def\<close>)

lemma auth_process_tree:
  assumes "store_tree_inv s"
  shows "store_tree_inv (fst (auth_process E s sid sch dat))"
  using assms by (simp add: auth_process_def Let_def store_tree_inv_def)

lemma store_process_tree:
  assumes inv: "store_tree_inv s" and ok: "request_ok b" and get: "wrapper_get b = Inr ()"
  shows "store_tree_inv (fst (store_process E s zx sid time b))"
proof (cases b)
  case (MultiRequest rs)
  then have "list_all sub_ok (map req_body rs)" "list_all multi_allowed (map req_body rs)"
    using ok get by (auto simp: request_ok_def wrapper_get_def concrete_requests_def list.pred_map
        comp_def split: if_splits)
  with multi_process_atomic[OF inv this, of zx sid time] MultiRequest show ?thesis by auto
qed (use inv ok in \<open>auto simp: request_ok_def create_process_tree remove_process_tree set_process_tree
    setACL_process_tree setSeqNum_process_tree auth_process_tree\<close>)

lemma finish_request_fields:
  "container (fst (finish_request s req r sid time z ign)) = container s"
  "ephemerals (fst (finish_request s req r sid time z ign)) = ephemerals s"
  by (auto simp: finish_request_def next_zxid_def getZXID_def register_data_watch_def
      register_list_watch_def Let_def split: prod.splits)

lemma process_other_tree:
  assumes inv: "store_tree_inv s" and ok: "request_ok (req_body req)"
  shows "store_tree_inv (fst (process_other E s req sid time z acl ign))"
proof -
  have "store_tree_inv (fst (finish_request t req r sid time z ign))" if "store_tree_inv t" for t r
    using that by (simp add: store_tree_inv_def finish_request_fields)
  then show ?thesis
    using inv store_process_tree[OF inv ok, of E "zxid s" sid time]
    by (auto simp: process_other_def split: sum.splits bool.splits prod.splits)
qed

section \<open>Watch operations\<close>

definition watch_frame :: "KeeperStore \<Rightarrow> KeeperStore \<Rightarrow> bool" where
  "watch_frame s s' \<longleftrightarrow> container s' = container s \<and> ephemerals s' = ephemerals s
     \<and> session_and_auth s' = session_and_auth s \<and> session_expiry_queue s' = session_expiry_queue s
     \<and> session_and_timeout s' = session_and_timeout s \<and> store_acl_map s' = store_acl_map s
     \<and> zxid s' = zxid s \<and> finalized s' = finalized s \<and> super_digest s' = super_digest s
     \<and> session_id_counter s' = session_id_counter s"

lemma watch_frame_refl [simp]: "watch_frame s s"
  by (simp add: watch_frame_def)

text \<open>Each watch operation has the frame of the store it is applied to.\<close>

lemma watch_frame_steps [simp]:
  "watch_frame s (fst (trigger_watches t path ev)) = watch_frame s t"
  "watch_frame s (register_data_watch t sid path) = watch_frame s t"
  "watch_frame s (register_list_watch t sid path) = watch_frame s t"
  "watch_frame s (clearDeadWatches E t sid) = watch_frame s t"
  by (simp_all add: watch_frame_def trigger_watches_def register_data_watch_def register_list_watch_def
      clearDeadWatches_def split: prod.splits option.splits)

lemma set_watches_frame [simp]:
  "watch_frame s (fst (set_data_watches t sid rel ps)) = watch_frame s t"
  "watch_frame s (fst (set_exist_watches t sid ps)) = watch_frame s t"
  "watch_frame s (fst (set_list_watches t sid rel ps)) = watch_frame s t"
proof -
  show "watch_frame s (fst (set_data_watches t sid rel ps)) = watch_frame s t"
    by (induction ps arbitrary: t) (auto simp: Let_def split_beta split: option.splits)
  show "watch_frame s (fst (set_exist_watches t sid ps)) = watch_frame s t"
    by (induction ps arbitrary: t) (auto simp: Let_def split_beta split: option.splits)
  show "watch_frame s (fst (set_list_watches t sid rel ps)) = watch_frame s t"
    by (induction ps arbitrary: t) (auto simp: Let_def split_beta split: option.splits)
qed

lemma process_setwatches_frame: "watch_frame s (fst (process_setwatches s req rel dw ew lw sid ign))"
  by (simp add: process_setwatches_def Let_def split_beta)

section \<open>Close\<close>

lemma close_ephemeral_tree:
  assumes inv: "tree_inv (container s)" and p: "container s p = Some n" "is_ephemeral n"
  shows "\<exists>m. container s (parentPath p) = Some m \<and> parentPath p \<noteq> p \<and> \<not> is_ephemeral m
    \<and> container (fst (close_ephemeral s p)) =
        ((container s)(parentPath p \<mapsto> unlink_ephemeral p m))(p := None)
    \<and> tree_inv (container (fst (close_ephemeral s p)))"
proof -
  note np = tree_inv_children(5)[OF inv p] and leaf = tree_inv_children(4)[OF inv p]
  obtain m where m: "container s (parentPath p) = Some m" by (rule tree_inv_parent[OF inv p(1)])
  have "getBaseName p \<in> children m" by (rule tree_inv_base_in_parent[OF inv p(1) np m])
  then have "\<not> is_ephemeral m" using tree_inv_children(4)[OF inv m] by auto
  moreover have c: "container (fst (close_ephemeral s p)) =
      ((container s)(parentPath p \<mapsto> unlink_ephemeral p m))(p := None)"
    using m by (simp add: close_ephemeral_def trigger_watches_def split_beta)
  moreover have "tree_inv (container (fst (close_ephemeral s p)))"
    unfolding c by (rule tree_inv_delete[OF inv p(1) np leaf m]) (simp_all add: unlink_ephemeral_def)
  ultimately show ?thesis using m parentPath_neq[OF tree_inv_canonical[OF inv p(1) np]] by blast
qed

lemma close_ephemerals_tree:
  assumes "tree_inv (container s)" "distinct ps"
    "\<And>p. p \<in> set ps \<Longrightarrow> \<exists>n. container s p = Some n \<and> is_ephemeral n"
  shows "tree_inv (container (fst (close_ephemerals s ps)))
    \<and> (\<forall>p. eph_attr (container (fst (close_ephemerals s ps)) p) =
          (if p \<in> set ps then eph_attr None else eph_attr (container s p)))
    \<and> dom (container (fst (close_ephemerals s ps))) = dom (container s) - set ps"
  using assms
proof (induction ps arbitrary: s)
  case (Cons p ps)
  let ?s1 = "fst (close_ephemeral s p)"
  obtain n where n: "container s p = Some n" "is_ephemeral n" using Cons.prems(3)[of p] by auto
  obtain m where m: "container s (parentPath p) = Some m" "parentPath p \<noteq> p" "\<not> is_ephemeral m"
    and c: "container ?s1 = ((container s)(parentPath p \<mapsto> unlink_ephemeral p m))(p := None)"
    and t: "tree_inv (container ?s1)"
    using close_ephemeral_tree[OF Cons.prems(1) n] by blast
  have attr: "eph_attr (container ?s1 q) = (if q = p then eph_attr None else eph_attr (container s q))" for q
    using m(1) by (auto simp: c unlink_ephemeral_def fun_eq_iff)
  have dom: "dom (container ?s1) = dom (container s) - {p}" using m by (auto simp: c)
  have "\<exists>n. container ?s1 q = Some n \<and> is_ephemeral n" if "q \<in> set ps" for q
  proof -
    from Cons.prems(3)[of q] that obtain k where "container s q = Some k" "is_ephemeral k" by auto
    moreover have "q \<noteq> p" using Cons.prems(2) that by auto
    moreover have "q \<noteq> parentPath p" using calculation m by auto
    ultimately show ?thesis by (simp add: c)
  qed
  from Cons.IH[OF t _ this] Cons.prems(2) show ?case
    by (auto simp: Let_def split_beta attr dom fun_eq_iff)
qed (simp add: fun_eq_iff)

lemma close_ephemerals_fields:
  "ephemerals (fst (close_ephemerals s ps)) = ephemerals s"
  "sessions_and_watchers (fst (close_ephemerals s ps)) = sessions_and_watchers s"
  "session_expiry_queue (fst (close_ephemerals s ps)) = session_expiry_queue s"
  "session_and_timeout (fst (close_ephemerals s ps)) = session_and_timeout s"
  "session_and_auth (fst (close_ephemerals s ps)) = session_and_auth s"
  "store_acl_map (fst (close_ephemerals s ps)) = store_acl_map s"
  "zxid (fst (close_ephemerals s ps)) = zxid s"
  by (induction ps arbitrary: s)
     (auto simp: Let_def split_beta close_ephemeral_def trigger_watches_def split: option.splits)

text \<open>The store after the ephemeral nodes of the session are gone.\<close>

definition closed_tree :: "env \<Rightarrow> KeeperStore \<Rightarrow> int64 \<Rightarrow> KeeperStore" where
  "closed_tree E s sid = fst (close_ephemerals s (path_order E (set_entry (ephemerals s) sid)))"

lemma clearDeadWatches_fields [simp]:
  "container (clearDeadWatches E s sid) = container s"
  "ephemerals (clearDeadWatches E s sid) = ephemerals s"
  "session_expiry_queue (clearDeadWatches E s sid) = session_expiry_queue s"
  "session_and_timeout (clearDeadWatches E s sid) = session_and_timeout s"
  "session_and_auth (clearDeadWatches E s sid) = session_and_auth s"
  "zxid (clearDeadWatches E s sid) = zxid s"
  "store_acl_map (clearDeadWatches E s sid) = store_acl_map s"
  by (simp_all add: clearDeadWatches_def split: option.splits)

lemma next_zxid_fields [simp]:
  "container (fst (next_zxid s z b)) = container s" "ephemerals (fst (next_zxid s z b)) = ephemerals s"
  "watches (fst (next_zxid s z b)) = watches s" "list_watches (fst (next_zxid s z b)) = list_watches s"
  "sessions_and_watchers (fst (next_zxid s z b)) = sessions_and_watchers s"
  "session_expiry_queue (fst (next_zxid s z b)) = session_expiry_queue s"
  "session_and_timeout (fst (next_zxid s z b)) = session_and_timeout s"
  "session_and_auth (fst (next_zxid s z b)) = session_and_auth s"
  "store_acl_map (fst (next_zxid s z b)) = store_acl_map s"
  by (simp_all add: next_zxid_def getZXID_def)

lemma enumerates_empty: "enumerates ord \<Longrightarrow> ord {} = []"
  using enumeratesD(1)[of ord "{}"] by simp

lemma process_close_container:
  assumes "env_ok E"
  shows "container (fst (process_close E s req sid z ign)) = container (closed_tree E s sid)"
    and "ephemerals (fst (process_close E s req sid z ign)) = (ephemerals s)(sid := None)"
proof -
  have nil: "path_order E {} = []" using assms by (simp add: env_ok_def enumerates_empty)
  show "container (fst (process_close E s req sid z ign)) = container (closed_tree E s sid)"
    by (simp add: process_close_def closed_tree_def set_entry_def nil Let_def split_beta
        split: option.splits sum.splits)
  show "ephemerals (fst (process_close E s req sid z ign)) = (ephemerals s)(sid := None)"
    by (auto simp: process_close_def Let_def split_beta close_ephemerals_fields fun_upd_idem
        split: option.splits sum.splits)
qed

lemma closed_tree_inv:
  assumes env: "env_ok E" and inv: "store_tree_inv s"
  shows "tree_inv (container (closed_tree E s sid))"
    and "eph_attr (container (closed_tree E s sid) p) =
      (if p \<in> ephemerals_of (container s) sid then eph_attr None else eph_attr (container s p))"
    and "dom (container (closed_tree E s sid)) = dom (container s) - ephemerals_of (container s) sid"
proof -
  let ?S = "set_entry (ephemerals s) sid"
  have S: "?S = ephemerals_of (container s) sid"
    using store_tree_invD(2)[OF inv] by (simp add: ephemerals_inv_def)
  have "finite (dom (container s))"
    by (rule paths_okD(1)[OF tree_invD(1)[OF store_tree_invD(1)[OF inv]]])
  then have "finite ?S" by (rule finite_subset[rotated]) (auto simp: S ephemerals_of_def)
  then have ord: "set (path_order E ?S) = ?S" "distinct (path_order E ?S)"
    using env by (auto simp: env_ok_def enumeratesD)
  have "\<exists>n. container s p = Some n \<and> is_ephemeral n" if "p \<in> set (path_order E ?S)" for p
    using that ord S by (auto simp: ephemerals_of_def)
  note * = close_ephemerals_tree[OF store_tree_invD(1)[OF inv] ord(2) this]
  show "tree_inv (container (closed_tree E s sid))"
    and "eph_attr (container (closed_tree E s sid) p) =
      (if p \<in> ephemerals_of (container s) sid then eph_attr None else eph_attr (container s p))"
    and "dom (container (closed_tree E s sid)) = dom (container s) - ephemerals_of (container s) sid"
    using * ord(1) S by (auto simp: closed_tree_def)
qed

lemma process_close_tree:
  assumes env: "env_ok E" and inv: "store_tree_inv s"
  shows "store_tree_inv (fst (process_close E s req sid z ign))"
proof -
  have "set_entry ((ephemerals s)(sid := None)) k = ephemerals_of (container (closed_tree E s sid)) k" for k
    using store_tree_invD(2)[OF inv]
    by (auto simp: ephemerals_inv_def ephemerals_of_iff closed_tree_inv(2)[OF env inv]
        dest: eph_attr_unique split: if_splits)
  then show ?thesis
    using closed_tree_inv(1)[OF env inv, of sid]
    by (simp add: store_tree_inv_def process_close_container[OF env] ephemerals_inv_def)
qed

section \<open>processRequest\<close>

lemma store_tree_inv_cong:
  "container s' = container s \<Longrightarrow> ephemerals s' = ephemerals s \<Longrightarrow> store_tree_inv s' = store_tree_inv s"
  by (simp add: store_tree_inv_def)

lemma watch_frame_tree: "watch_frame s s' \<Longrightarrow> store_tree_inv s' = store_tree_inv s"
  by (simp add: watch_frame_def store_tree_inv_def)

lemma touch_session_fields:
  assumes "touch_session E s sid = Inr s1"
  shows "container s1 = container s" "ephemerals s1 = ephemerals s" "watches s1 = watches s"
    "list_watches s1 = list_watches s" "sessions_and_watchers s1 = sessions_and_watchers s"
    "session_and_auth s1 = session_and_auth s" "store_acl_map s1 = store_acl_map s" "zxid s1 = zxid s"
  using assms by (auto simp: touch_session_def Let_def split: sum.splits)

lemma process_heartbeat_state [simp]: "fst (process_heartbeat s req sid ign) = s"
  by (simp add: process_heartbeat_def heartbeat_process_def)

lemma process_body_tree:
  assumes "store_tree_inv s" "request_ok (req_body req)"
  shows "store_tree_inv (fst (process_body E s req sid time z acl ign))"
  using process_other_tree[OF assms, of E sid time z acl ign] assms(1)
  by (auto simp: process_body_def watch_frame_tree[OF process_setwatches_frame] split: request_body.splits)

lemma process_session_tree:
  assumes env: "env_ok E" and inv: "store_tree_inv s" and ok: "request_ok (req_body req)"
  shows "store_tree_inv (fst (process_session E s req sid time z acl ign))"
proof (cases "touch_session E s sid")
  case (Inl e)
  then show ?thesis using inv process_close_tree[OF env inv] by (simp add: process_session_def)
next
  case (Inr s1)
  have "store_tree_inv s1" using inv touch_session_fields[OF Inr] by (simp add: store_tree_inv_def)
  from process_body_tree[OF this ok] Inr show ?thesis
    using inv process_close_tree[OF env inv] by (simp add: process_session_def)
qed

lemma processRequest_tree:
  assumes env: "env_ok E" and inv: "store_tree_inv s" and ok: "request_ok (req_body req)"
  shows "store_tree_inv (fst (processRequest E s req sid time z acl ign))"
proof -
  have "store_tree_inv (s\<lparr>zxid := k\<rparr>)" for k using inv by (simp add: store_tree_inv_def)
  then show ?thesis
    using inv process_session_tree[OF env _ ok]
    by (auto simp: processRequest_def split: option.splits)
qed

end
