(* ===== verification/Store_Watches.thy ===== *)
theory Store_Watches
  imports Store_Invariant
begin

text \<open>
  Watches and sessions. The reverse index \<open>sessions_and_watchers\<close> covers the two watch tables, so
  that closing a session finds all of its watches; the sessions with a timeout all have an
  expiration time, so that each of them can expire. Every request keeps both, and the watch events
  that a request pushes are those of the tables.
\<close>

section \<open>The reverse index covers the tables\<close>

definition covered :: "Watches \<Rightarrow> (int64 \<rightharpoonup> string set) \<Rightarrow> bool" where
  "covered w saw \<longleftrightarrow> (\<forall>p x. x \<in> set (list_entry w p) \<longrightarrow> p \<in> set_entry saw x)"

definition watch_inv :: "KeeperStore \<Rightarrow> bool" where
  "watch_inv s \<longleftrightarrow> covered (watches s) (sessions_and_watchers s)
     \<and> covered (list_watches s) (sessions_and_watchers s)
     \<and> (\<forall>x. finite (set_entry (sessions_and_watchers s) x))"

lemma list_entry_simps [simp]:
  "list_entry (w(p \<mapsto> xs)) q = (if q = p then xs else list_entry w q)"
  "list_entry (w(p := None)) q = (if q = p then [] else list_entry w q)"
  "list_entry Map.empty q = []"
  by (simp_all add: list_entry_def)

lemma list_entry_Some: "w p = Some xs \<Longrightarrow> list_entry w p = xs"
  by (simp add: list_entry_def)

lemma list_entry_None: "w p = None \<Longrightarrow> list_entry w p = []"
  by (simp add: list_entry_def)

text \<open>\<open>w'\<close> has only watches of \<open>w\<close>.\<close>

definition fewer :: "Watches \<Rightarrow> Watches \<Rightarrow> bool" where
  "fewer w' w \<longleftrightarrow> (\<forall>p. set (list_entry w' p) \<subseteq> set (list_entry w p))"

lemma fewer_refl [simp]: "fewer w w"
  by (simp add: fewer_def)

lemma fewer_trans: "fewer a b \<Longrightarrow> fewer b c \<Longrightarrow> fewer a c"
  by (fastforce simp: fewer_def)

lemma fewer_del [simp]: "fewer (w(p := None)) w"
  by (simp add: fewer_def)

lemma covered_fewer: "covered w saw \<Longrightarrow> fewer w' w \<Longrightarrow> covered w' saw"
  by (fastforce simp: covered_def fewer_def)

lemma trigger_data_watch_fewer: "fewer (fst (trigger_data_watch path ev w)) w"
  by (simp add: trigger_data_watch_def split: option.splits)

lemma trigger_list_watches_fewer: "fewer (fst (trigger_list_watches pp ps lw)) lw"
proof (induction ps arbitrary: lw)
  case (Cons p ps)
  have "fewer (fst (trigger_list_watches pp ps (lw(p := None)))) lw"
    by (rule fewer_trans[OF Cons.IH fewer_del])
  with Cons.IH[of lw] show ?case by (cases "lw p") (simp_all add: Let_def split_beta)
qed simp

lemma processWatchesImpl_fewer [simp]:
  "fewer (fst (processWatchesImpl path w lw ev)) w"
  "fewer (fst (snd (processWatchesImpl path w lw ev))) lw"
  by (simp_all add: processWatchesImpl_def Let_def split_beta trigger_data_watch_fewer
      trigger_list_watches_fewer)

lemma sub_processWatches_fewer [simp]:
  "fewer (fst (sub_processWatches b w lw)) w" "fewer (fst (snd (sub_processWatches b w lw))) lw"
  by (cases b; simp)+

lemma multi_processWatches_fewer:
  "fewer (fst (multi_processWatches bs w lw)) w \<and> fewer (fst (snd (multi_processWatches bs w lw))) lw"
proof (induction bs arbitrary: w lw)
  case (Cons b bs)
  show ?case
    using Cons.IH[of "fst (sub_processWatches b w lw)" "fst (snd (sub_processWatches b w lw))"]
    by (auto simp: Let_def split_beta intro: fewer_trans)
qed auto

lemma store_processWatches_fewer [simp]:
  "fewer (fst (store_processWatches b w lw)) w" "fewer (fst (snd (store_processWatches b w lw))) lw"
  using multi_processWatches_fewer by (cases b; simp)+

section \<open>Requests keep the index\<close>

lemma watch_invI_fewer:
  assumes "watch_inv s" "fewer (watches s') (watches s)" "fewer (list_watches s') (list_watches s)"
    "sessions_and_watchers s' = sessions_and_watchers s"
  shows "watch_inv s'"
  using assms by (auto simp: watch_inv_def intro: covered_fewer)

lemma watch_inv_frame:
  assumes "watch_inv s" "frame s s'"
  shows "watch_inv s'"
  using assms by (simp add: watch_inv_def frame_def)

lemma watch_inv_trigger: "watch_inv s \<Longrightarrow> watch_inv (fst (trigger_watches s path ev))"
  by (rule watch_invI_fewer) (auto simp: trigger_watches_def split_beta)

lemma covered_register:
  assumes "covered w saw"
  shows "covered (w(p \<mapsto> list_entry w p @ [sid])) (entry_insert saw sid p)"
  using assms by (auto simp: covered_def)

lemma covered_insert: "covered w saw \<Longrightarrow> covered w (entry_insert saw sid p)"
  by (auto simp: covered_def)

lemma watch_inv_register:
  "watch_inv s \<Longrightarrow> watch_inv (register_data_watch s sid p)"
  "watch_inv s \<Longrightarrow> watch_inv (register_list_watch s sid p)"
  by (auto simp: watch_inv_def register_data_watch_def register_list_watch_def covered_register
      intro: covered_insert)

lemma watch_inv_set_watches:
  "watch_inv s \<Longrightarrow> watch_inv (fst (set_data_watches s sid rel ps))"
  "watch_inv s \<Longrightarrow> watch_inv (fst (set_exist_watches s sid ps))"
  "watch_inv s \<Longrightarrow> watch_inv (fst (set_list_watches s sid rel ps))"
proof -
  show "watch_inv s \<Longrightarrow> watch_inv (fst (set_data_watches s sid rel ps))"
    by (induction ps arbitrary: s)
       (auto simp: Let_def split_beta watch_inv_trigger watch_inv_register split: option.splits)
  show "watch_inv s \<Longrightarrow> watch_inv (fst (set_exist_watches s sid ps))"
    by (induction ps arbitrary: s)
       (auto simp: Let_def split_beta watch_inv_trigger watch_inv_register split: option.splits)
  show "watch_inv s \<Longrightarrow> watch_inv (fst (set_list_watches s sid rel ps))"
    by (induction ps arbitrary: s)
       (auto simp: Let_def split_beta watch_inv_trigger watch_inv_register split: option.splits)
qed

lemma watch_inv_cong:
  "watches s' = watches s \<Longrightarrow> list_watches s' = list_watches s \<Longrightarrow>
   sessions_and_watchers s' = sessions_and_watchers s \<Longrightarrow> watch_inv s' = watch_inv s"
  by (simp add: watch_inv_def)

lemma watch_inv_next_zxid [simp]: "watch_inv (fst (next_zxid s z b)) = watch_inv s"
  by (rule watch_inv_cong) simp_all

lemma watch_inv_finish:
  assumes "watch_inv s"
  shows "watch_inv (fst (finish_request s req r sid time z ign))"
proof -
  let ?s1 = "fst (next_zxid s z (shouldIncreaseZxid req))"
  let ?t = "store_processWatches (req_body req) (watches ?s1) (list_watches ?s1)"
  have inv1: "watch_inv ?s1" using assms by simp
  moreover have "watch_inv (?s1\<lparr>watches := fst ?t, list_watches := fst (snd ?t)\<rparr>)"
    by (rule watch_invI_fewer[OF inv1]) simp_all
  ultimately show ?thesis
    by (simp add: finish_request_def Let_def split_beta watch_inv_register)
qed

section \<open>Clearing the watches of a session\<close>

lemma clear_watch_entry:
  "list_entry (clear_watch sid p w) q = (if q = p then removeAll sid (list_entry w q) else list_entry w q)"
  by (cases "w p") (auto simp: clear_watch_def Let_def list_entry_def removeAll_id)

lemma fold_clear_watch_entry:
  "list_entry (fold (clear_watch sid) ps w) q =
     (if q \<in> set ps then removeAll sid (list_entry w q) else list_entry w q)"
  by (induction ps arbitrary: w) (auto simp: clear_watch_entry removeAll_id)

lemma clearDeadWatches_watches:
  assumes env: "env_ok E" and inv: "watch_inv s"
  shows "list_entry (watches (clearDeadWatches E s sid)) p = removeAll sid (list_entry (watches s) p)"
    "list_entry (list_watches (clearDeadWatches E s sid)) p = removeAll sid (list_entry (list_watches s) p)"
    "sessions_and_watchers (clearDeadWatches E s sid) = (sessions_and_watchers s)(sid := None)"
proof -
  let ?S = "set_entry (sessions_and_watchers s) sid"
  have fin: "finite ?S" using inv by (simp add: watch_inv_def)
  have ord: "set (path_order E ?S) = ?S" using env fin by (simp add: env_ok_def enumeratesD)
  have out: "sid \<notin> set (list_entry (watches s) p)" "sid \<notin> set (list_entry (list_watches s) p)"
    if "p \<notin> ?S" for p
    using inv that by (auto simp: watch_inv_def covered_def)
  show "list_entry (watches (clearDeadWatches E s sid)) p = removeAll sid (list_entry (watches s) p)"
    "list_entry (list_watches (clearDeadWatches E s sid)) p = removeAll sid (list_entry (list_watches s) p)"
    "sessions_and_watchers (clearDeadWatches E s sid) = (sessions_and_watchers s)(sid := None)"
    using ord out[of p]
    by (auto simp: clearDeadWatches_def fold_clear_watch_entry set_entry_def removeAll_id fun_upd_idem
        split: option.splits)
qed

lemma watch_inv_clear:
  assumes env: "env_ok E" and inv: "watch_inv s"
  shows "watch_inv (clearDeadWatches E s sid)"
  using inv by (auto simp: watch_inv_def covered_def clearDeadWatches_watches[OF env inv])

lemma watch_inv_close_ephemerals:
  "watch_inv s \<Longrightarrow> watch_inv (fst (close_ephemerals s ps))"
proof (induction ps arbitrary: s)
  case (Cons p ps)
  have "watch_inv (fst (close_ephemeral s p))"
    unfolding close_ephemeral_def Let_def
    by (rule watch_inv_trigger) (use Cons.prems in \<open>simp add: watch_inv_def\<close>)
  from Cons.IH[OF this] show ?case by (simp add: Let_def split_beta)
qed simp

text \<open>The store of a close after its ephemeral nodes and its watches are gone.\<close>

lemma process_close_watches:
  assumes env: "env_ok E" and inv: "watch_inv s"
  shows "watch_inv (fst (process_close E s req sid z ign))"
    and "sid \<notin> set (list_entry (watches (fst (process_close E s req sid z ign))) p)"
    and "sid \<notin> set (list_entry (list_watches (fst (process_close E s req sid z ign))) p)"
    and "sessions_and_watchers (fst (process_close E s req sid z ign)) = (sessions_and_watchers s)(sid := None)"
proof -
  define t where "t = (case ephemerals s sid of None \<Rightarrow> s
    | Some ps \<Rightarrow> (fst (close_ephemerals s (path_order E ps)))\<lparr>ephemerals := (ephemerals s)(sid := None)\<rparr>)"
  let ?s' = "fst (process_close E s req sid z ign)"
  have tinv: "watch_inv t"
    using inv watch_inv_close_ephemerals[OF inv] by (auto simp: t_def watch_inv_def split: option.splits)
  have same: "watches ?s' = watches (clearDeadWatches E t sid)"
    "list_watches ?s' = list_watches (clearDeadWatches E t sid)"
    "sessions_and_watchers ?s' = sessions_and_watchers (clearDeadWatches E t sid)"
    by (auto simp: process_close_def t_def Let_def split_beta close_ephemerals_fields
        split: option.splits sum.splits)
  show "watch_inv ?s'"
    using watch_inv_clear[OF env tinv, of sid] by (simp add: watch_inv_def same)
  show "sid \<notin> set (list_entry (watches ?s') p)" "sid \<notin> set (list_entry (list_watches ?s') p)"
    by (simp_all add: same clearDeadWatches_watches[OF env tinv])
  have "sessions_and_watchers t = sessions_and_watchers s"
    by (simp add: t_def close_ephemerals_fields split: option.splits)
  then show "sessions_and_watchers ?s' = (sessions_and_watchers s)(sid := None)"
    by (simp add: same clearDeadWatches_watches[OF env tinv])
qed

section \<open>Sessions\<close>

definition session_inv :: "KeeperStore \<Rightarrow> bool" where
  "session_inv s \<longleftrightarrow> expiry_inv (session_expiry_queue s)
     \<and> dom (session_and_timeout s) \<subseteq> dom (session_to_expiration_time (session_expiry_queue s))"

lemma session_inv_cong:
  "session_expiry_queue s' = session_expiry_queue s \<Longrightarrow> session_and_timeout s' = session_and_timeout s \<Longrightarrow>
   session_inv s' = session_inv s"
  by (simp add: session_inv_def)

lemma addNewSessionOrUpdate_ok:
  assumes "expiry_inv q"
  shows "\<exists>q'. addNewSessionOrUpdate now q sid timeout = Inr q' \<and> expiry_inv q'
    \<and> session_to_expiration_time q' =
        (session_to_expiration_time q)(sid \<mapsto> roundToNextInterval q (now + timeout))
    \<and> expiration_interval q' = expiration_interval q"
  using assms by (simp add: addNewSessionOrUpdate_def setSessionExpirationTime_eq expiry_inv_def)

lemma touch_session_ok:
  assumes "session_inv s"
  shows "\<exists>s'. touch_session E s sid = Inr s' \<and> session_inv s' \<and> sid \<in> dom (session_and_timeout s')"
proof -
  let ?t = "case session_and_timeout s sid of None \<Rightarrow> 0 | Some t \<Rightarrow> t"
  obtain q where "addNewSessionOrUpdate (now_ms E) (session_expiry_queue s) sid ?t = Inr q" "expiry_inv q"
    "session_to_expiration_time q = (session_to_expiration_time (session_expiry_queue s))
       (sid \<mapsto> roundToNextInterval (session_expiry_queue s) (now_ms E + ?t))"
    using addNewSessionOrUpdate_ok[of "session_expiry_queue s" "now_ms E" sid ?t] assms
    by (auto simp: session_inv_def)
  then show ?thesis using assms by (auto simp: touch_session_def session_inv_def Let_def)
qed

lemma getSessionID_ok:
  assumes "session_inv s"
  shows "\<exists>s'. getSessionID E s timeout = Inr (s', session_id_counter s) \<and> session_inv s'
    \<and> session_id_counter s \<in> dom (session_and_timeout s')
    \<and> session_id_counter s' = session_id_counter s + 1 \<and> zxid s' = zxid s + 1
    \<and> container s' = container s \<and> ephemerals s' = ephemerals s
    \<and> watches s' = watches s \<and> list_watches s' = list_watches s
    \<and> sessions_and_watchers s' = sessions_and_watchers s"
  using assms addNewSessionOrUpdate_ok[of "session_expiry_queue s" "now_ms E" "session_id_counter s" timeout]
  by (fastforce simp: getSessionID_def getZXID_def timeout_emplace_def session_inv_def Let_def
      split: option.splits)

lemma process_close_session:
  assumes "session_inv s"
  shows "session_inv (fst (process_close E s req sid z ign))"
    and "snd (snd (process_close E s req sid z ign)) = None"
    and "session_and_timeout (fst (process_close E s req sid z ign)) = (session_and_timeout s)(sid := None)"
    and "session_to_expiration_time (session_expiry_queue (fst (process_close E s req sid z ign))) =
      (session_to_expiration_time (session_expiry_queue s))(sid := None)"
    and "session_and_auth (fst (process_close E s req sid z ign)) = (session_and_auth s)(sid := None)"
proof -
  have inv: "expiry_inv (session_expiry_queue s)"
    and sub: "dom (session_and_timeout s) \<subseteq> dom (session_to_expiration_time (session_expiry_queue s))"
    using assms by (auto simp: session_inv_def)
  let ?s' = "fst (process_close E s req sid z ign)"
  let ?f = "(session_to_expiration_time (session_expiry_queue s))(sid := None)"
  show none: "snd (snd (process_close E s req sid z ign)) = None"
    using inv by (auto simp: process_close_def Let_def split_beta close_ephemerals_fields queue_remove_eq
        split: option.splits)
  have q: "session_expiry_queue ?s' =
      (session_expiry_queue s)\<lparr>session_to_expiration_time := ?f, expiry_to_sessions := buckets ?f\<rparr>"
    using inv by (auto simp: process_close_def Let_def split_beta close_ephemerals_fields queue_remove_eq
        split: option.splits)
  show t: "session_and_timeout ?s' = (session_and_timeout s)(sid := None)"
    using inv by (auto simp: process_close_def Let_def split_beta close_ephemerals_fields queue_remove_eq
        split: option.splits)
  show "session_to_expiration_time (session_expiry_queue ?s') = ?f" by (simp add: q)
  show "session_and_auth ?s' = (session_and_auth s)(sid := None)"
    using inv by (auto simp: process_close_def Let_def split_beta close_ephemerals_fields queue_remove_eq
        split: option.splits)
  show "session_inv ?s'"
    using inv sub by (auto simp: session_inv_def q t expiry_inv_def)
qed

lemma finish_request_session [simp]:
  "session_inv (fst (finish_request s req r sid time z ign)) = session_inv s"
  by (rule session_inv_cong) (auto simp: finish_request_def Let_def split_beta register_data_watch_def
      register_list_watch_def)

lemma session_inv_frame: "frame s s' \<Longrightarrow> session_inv s' = session_inv s"
  by (rule session_inv_cong) (simp_all add: frame_def)

lemma process_other_watch_session:
  assumes "watch_inv s" "session_inv s"
  shows "watch_inv (fst (process_other E s req sid time z acl ign))"
    and "session_inv (fst (process_other E s req sid time z acl ign))"
proof -
  let ?p = "store_process E s (zxid s) sid time (req_body req)"
  have fr: "frame s (fst ?p)" by (rule store_process_frame)
  then have p: "watch_inv (fst ?p)" "session_inv (fst ?p)"
    using assms watch_inv_frame session_inv_frame by blast+
  show "watch_inv (fst (process_other E s req sid time z acl ign))"
    "session_inv (fst (process_other E s req sid time z acl ign))"
    using assms p by (auto simp: process_other_def split_beta watch_inv_finish
        split: sum.splits bool.splits prod.splits)
qed

section \<open>processRequest\<close>

lemma process_setwatches_inv:
  assumes "watch_inv s" "session_inv s"
  shows "watch_inv (fst (process_setwatches s req rel dw ew lw sid ign))"
    and "session_inv (fst (process_setwatches s req rel dw ew lw sid ign))"
proof -
  show "watch_inv (fst (process_setwatches s req rel dw ew lw sid ign))"
    using assms(1) by (simp add: process_setwatches_def Let_def split_beta watch_inv_set_watches)
  show "session_inv (fst (process_setwatches s req rel dw ew lw sid ign))"
    using assms(2) process_setwatches_frame[of s req rel dw ew lw sid ign]
    by (simp add: watch_frame_def session_inv_def)
qed

lemma process_body_watch_session:
  assumes "watch_inv s" "session_inv s"
  shows "watch_inv (fst (process_body E s req sid time z acl ign))
    \<and> session_inv (fst (process_body E s req sid time z acl ign))"
  using process_other_watch_session[OF assms, of E req sid time z acl ign]
    process_setwatches_inv[OF assms] assms
  by (auto simp: process_body_def split: request_body.splits)

lemma process_session_watch_session:
  assumes env: "env_ok E" and "watch_inv s" "session_inv s"
  shows "watch_inv (fst (process_session E s req sid time z acl ign))
    \<and> session_inv (fst (process_session E s req sid time z acl ign))"
proof -
  obtain s1 where s1: "touch_session E s sid = Inr s1" "session_inv s1"
    using touch_session_ok[OF assms(3)] by blast
  have "watch_inv s1" using assms(2) touch_session_fields[OF s1(1)] by (simp add: watch_inv_def)
  from process_body_watch_session[OF this s1(2)] s1(1) show ?thesis
    using process_close_watches(1)[OF env assms(2)] process_close_session(1)[OF assms(3)] assms(2,3)
    by (simp add: process_session_def)
qed

lemma processRequest_watch_session:
  assumes env: "env_ok E" and inv: "watch_inv s" "session_inv s"
  shows "watch_inv (fst (processRequest E s req sid time z acl ign))"
    and "session_inv (fst (processRequest E s req sid time z acl ign))"
proof -
  have "watch_inv (s\<lparr>zxid := k\<rparr>)" "session_inv (s\<lparr>zxid := k\<rparr>)" for k
    using inv by (simp_all add: watch_inv_def session_inv_def)
  then show "watch_inv (fst (processRequest E s req sid time z acl ign))"
    "session_inv (fst (processRequest E s req sid time z acl ign))"
    using inv process_session_watch_session[OF env]
    by (auto simp: processRequest_def split: option.splits)
qed

section \<open>Which events a request pushes\<close>

lemma notify_Nil [simp]: "notify r [] = []"
  by (simp add: notify_def)

lemma processWatchesImpl_CHANGED:
  "processWatchesImpl p w lw CHANGED =
     (w(p := None), lw, notify (watch_response CHANGED p) (list_entry w p))"
  by (auto simp: processWatchesImpl_def trigger_data_watch_def paths_to_check_for_list_watches_def
      list_entry_def fun_upd_idem split: option.splits)

lemma processWatchesImpl_CREATED:
  "processWatchesImpl p w lw CREATED =
     (w(p := None), lw(parentPath p := None),
      notify (watch_response CREATED p) (list_entry w p)
      @ notify (watch_response CHILD (parentPath p)) (list_entry lw (parentPath p)))"
  by (auto simp: processWatchesImpl_def trigger_data_watch_def paths_to_check_for_list_watches_def
      list_entry_def fun_upd_idem Let_def split: option.splits)

lemma processWatchesImpl_DELETED:
  assumes "parentPath p \<noteq> p"
  shows "processWatchesImpl p w lw DELETED =
     (w(p := None), lw(p := None, parentPath p := None),
      notify (watch_response DELETED p) (list_entry w p)
      @ notify (watch_response DELETED p) (list_entry lw p)
      @ notify (watch_response CHILD (parentPath p)) (list_entry lw (parentPath p)))"
  using assms
  by (auto simp: processWatchesImpl_def trigger_data_watch_def paths_to_check_for_list_watches_def
      list_entry_def fun_upd_idem Let_def split: option.splits)

end
