(* ===== verification/Store_Properties.thy ===== *)
theory Store_Properties
  imports Store_Watches
begin

text \<open>
  The properties of the node store over all reachable states. A state is reachable from the empty
  store by any sequence of requests, new sessions, session refreshes, remote expirations and
  finalisation, each with its own clock and iteration orders.
\<close>

section \<open>Finalize\<close>

lemma finalize_paths_close:
  assumes "tree_inv c" "distinct ps" "\<And>p. p \<in> set ps \<Longrightarrow> \<exists>n. c p = Some n \<and> is_ephemeral n"
  shows "\<exists>c'. finalize_paths c ps = (c', None) \<and> tree_inv c'
    \<and> (\<forall>p. eph_attr (c' p) = (if p \<in> set ps then eph_attr None else eph_attr (c p)))
    \<and> dom c' = dom c - set ps"
  using assms
proof (induction ps arbitrary: c)
  case (Cons p ps)
  define s :: KeeperStore where "s = (new_KeeperStore 0 [])\<lparr>container := c\<rparr>"
  have c: "container s = c" by (simp add: s_def)
  obtain n where n: "c p = Some n" "is_ephemeral n" using Cons.prems(3)[of p] by auto
  then obtain m where m: "c (parentPath p) = Some m" "parentPath p \<noteq> p" "\<not> is_ephemeral m"
    and t: "tree_inv ((c(parentPath p \<mapsto> unlink_ephemeral p m))(p := None))"
    using close_ephemeral_tree[of s p n] Cons.prems(1) by (auto simp: c)
  define c1 where "c1 = (c(parentPath p \<mapsto> unlink_ephemeral p m))(p := None)"
  have attr: "eph_attr (c1 q) = (if q = p then eph_attr None else eph_attr (c q))" for q
    using m by (auto simp: c1_def unlink_ephemeral_def fun_eq_iff)
  have dom: "dom c1 = dom c - {p}" using m by (auto simp: c1_def)
  have "\<exists>n. c1 q = Some n \<and> is_ephemeral n" if "q \<in> set ps" for q
  proof -
    from Cons.prems(3)[of q] that obtain k where k: "c q = Some k" "is_ephemeral k" by auto
    moreover have "q \<noteq> p" using Cons.prems(2) that by auto
    moreover have "q \<noteq> parentPath p" using k m by auto
    ultimately show ?thesis by (simp add: c1_def)
  qed
  with Cons.IH[of c1] t[folded c1_def] Cons.prems(2) have "\<exists>c'. finalize_paths c1 ps = (c', None) \<and> tree_inv c'
      \<and> (\<forall>p. eph_attr (c' p) = (if p \<in> set ps then eph_attr None else eph_attr (c1 p)))
      \<and> dom c' = dom c1 - set ps" by simp
  moreover have "finalize_paths c (p # ps) = finalize_paths c1 ps" using m(1) by (simp add: c1_def)
  ultimately show ?case unfolding dom attr by (auto simp: fun_eq_iff[of "eph_attr None"] simp del: finalize_paths.simps)
qed simp

text \<open>The paths that \<open>finalize\<close> visits: the ephemeral nodes of all sessions, each once.\<close>

definition finalize_order :: "env \<Rightarrow> KeeperStore \<Rightarrow> string list" where
  "finalize_order E s = concat (map (\<lambda>sid. path_order E (set_entry (ephemerals s) sid))
     (sid_order E (dom (ephemerals s))))"

definition ephemeral_paths :: "Container \<Rightarrow> string set" where
  "ephemeral_paths c = {p. \<exists>n. c p = Some n \<and> is_ephemeral n}"

lemma finalize_order:
  assumes env: "env_ok E" and inv: "store_tree_inv s" and fin: "finite (dom (ephemerals s))"
  shows "set (finalize_order E s) = ephemeral_paths (container s)" "distinct (finalize_order E s)"
proof -
  have e: "set_entry (ephemerals s) k = ephemerals_of (container s) k" for k
    using store_tree_invD(2)[OF inv] by (simp add: ephemerals_inv_def)
  have "finite (dom (container s))"
    by (rule paths_okD(1)[OF tree_invD(1)[OF store_tree_invD(1)[OF inv]]])
  then have "finite (ephemerals_of (container s) k)" for k
    by (rule finite_subset[rotated]) (auto simp: ephemerals_of_def)
  then have po: "set (path_order E (set_entry (ephemerals s) k)) = ephemerals_of (container s) k"
    "distinct (path_order E (set_entry (ephemerals s) k))" for k
    using env e by (auto simp: env_ok_def enumeratesD)
  have so: "set (sid_order E (dom (ephemerals s))) = dom (ephemerals s)"
    "distinct (sid_order E (dom (ephemerals s)))"
    using env fin by (auto simp: env_ok_def enumeratesD)
  have "k \<in> dom (ephemerals s)" if "p \<in> ephemerals_of (container s) k" for p k
    using that e[of k] by (auto simp: set_entry_def split: option.splits)
  then show "set (finalize_order E s) = ephemeral_paths (container s)"
    by (auto simp: finalize_order_def po so ephemeral_paths_def ephemerals_of_def) blast
  have "distinct (concat (map (\<lambda>k. path_order E (set_entry (ephemerals s) k)) ks))" if "distinct ks" for ks
    using that po by (induction ks) (auto simp: ephemerals_of_iff dest: eph_attr_unique)
  then show "distinct (finalize_order E s)" using so(2) by (simp add: finalize_order_def)
qed

lemma finalize_ok:
  assumes env: "env_ok E" and inv: "store_tree_inv s" and fin: "finite (dom (ephemerals s))"
    and nf: "\<not> finalized s"
  shows "\<exists>s'. finalize E s = (s', None) \<and> store_tree_inv s' \<and> watch_inv s' \<and> session_inv s' \<and> finalized s'
    \<and> dom (container s') = dom (container s) - ephemeral_paths (container s)"
proof -
  note o = finalize_order[OF env inv fin]
  obtain c' where c': "finalize_paths (container s) (finalize_order E s) = (c', None)" "tree_inv c'"
    "\<forall>p. eph_attr (c' p) = (if p \<in> set (finalize_order E s) then eph_attr None else eph_attr (container s p))"
    "dom c' = dom (container s) - set (finalize_order E s)"
    using finalize_paths_close[OF store_tree_invD(1)[OF inv] o(2)] o(1)
    by (auto simp: ephemeral_paths_def)
  have "eph_attr (container s p) k \<Longrightarrow> p \<in> ephemeral_paths (container s)" for p k
    by (auto simp: eph_attr_def ephemeral_paths_def split: option.splits)
  then have "\<not> eph_attr (c' p) k" for p k using c'(3) o(1) by auto
  then have "ephemerals_of c' k = {}" for k by (auto simp: ephemerals_of_iff)
  then show ?thesis
    using c' nf o(1) by (simp add: finalize_def finalize_order_def[symmetric] store_tree_inv_def
        ephemerals_inv_def watch_inv_def covered_def session_inv_def)
qed

section \<open>Reachable states\<close>

inductive reachable :: "KeeperStore \<Rightarrow> bool" where
  start: "reachable (new_KeeperStore tick_time_ms digest)"
| request: "reachable s \<Longrightarrow> env_ok E \<Longrightarrow> request_ok (req_body req) \<Longrightarrow>
    processRequest E s req sid time z acl ign = (s', rs, e) \<Longrightarrow> reachable s'"
| new_session: "reachable s \<Longrightarrow> getSessionID E s timeout = Inr (s', sid) \<Longrightarrow> reachable s'"
| add_session: "reachable s \<Longrightarrow> addSessionID E s sid timeout = Inr s' \<Longrightarrow> reachable s'"
| refresh: "reachable s \<Longrightarrow> updateSessionTimeout E s sid = Inr (s', b) \<Longrightarrow> reachable s'"
| remote: "reachable s \<Longrightarrow> handleRemoteSession s sid t = Inr s' \<Longrightarrow> reachable s'"
| shutdown: "reachable s \<Longrightarrow> env_ok E \<Longrightarrow> finalize E s = (s', e) \<Longrightarrow> reachable s'"

definition store_inv :: "KeeperStore \<Rightarrow> bool" where
  "store_inv s \<longleftrightarrow> store_tree_inv s \<and> watch_inv s \<and> session_inv s \<and> finite (dom (ephemerals s))"

lemma store_invD:
  assumes "store_inv s"
  shows "store_tree_inv s" "watch_inv s" "session_inv s" "finite (dom (ephemerals s))"
  using assms by (simp_all add: store_inv_def)

lemma finite_dom_entry [simp]:
  "finite (dom (entry_insert m k x)) = finite (dom m)" "finite (dom (entry_erase m k x)) = finite (dom m)"
  by (simp_all add: entry_insert_def entry_erase_def)

lemma sub_process_finite:
  "finite (dom (ephemerals s)) \<Longrightarrow> finite (dom (ephemerals (fst (sub_process s zx sid time r))))"
proof (cases r)
  case (CreateRequest path dat eph sequential acls)
  moreover assume "finite (dom (ephemerals s))"
  ultimately show ?thesis
    by (cases rule: create_process_cases[of s zx sid time path dat eph sequential acls]) auto
next
  case (RemoveRequest path ver)
  moreover assume "finite (dom (ephemerals s))"
  ultimately show ?thesis by (cases rule: remove_process_cases[of s zx path ver]) auto
next
  case (SetRequest path dat ver)
  moreover assume "finite (dom (ephemerals s))"
  ultimately show ?thesis by (cases rule: set_process_cases[of s zx time path dat ver]) auto
qed simp_all

lemma run_undos_finite:
  "finite (dom (ephemerals s)) \<Longrightarrow> run_undos us s = Inr s' \<Longrightarrow> finite (dom (ephemerals s'))"
proof (induction us arbitrary: s)
  case (Cons u us)
  then obtain t where t: "run_undo u s = Inr t" "run_undos us t = Inr s'" by (auto split: sum.splits)
  have "finite (dom (ephemerals t))"
    using t(1) Cons.prems(1) by (cases u) (auto simp: undo_create_def undo_remove_def undo_set_def Let_def
        split: option.splits if_splits)
  from Cons.IH[OF this t(2)] show ?case .
qed simp

lemma multi_loop_finite:
  "finite (dom (ephemerals s)) \<Longrightarrow> finite (dom (ephemerals (fst (multi_loop s zx sid time rs done us))))"
proof (induction rs arbitrary: s "done" us)
  case (Cons r rs)
  obtain s1 x where sub: "sub_process s zx sid time r = (s1, x)" by (cases "sub_process s zx sid time r")
  have "finite (dom (ephemerals s1))" using sub_process_finite[OF Cons.prems, of zx sid time r] sub by simp
  with sub Cons.IH show ?case by (auto split: sum.splits dest: run_undos_finite)
qed simp

lemma store_process_finite:
  assumes "finite (dom (ephemerals s))"
  shows "finite (dom (ephemerals (fst (store_process E s zx sid time b))))"
proof (cases b)
  case (MultiRequest rs)
  then show ?thesis
    using multi_loop_finite[OF assms, of zx sid time "map req_body rs" "[]" "[]"]
    by (auto simp: multi_process_def split: prod.splits sum.splits)
next
  case (SetACLRequest path acls ver)
  then show ?thesis using assms by (cases rule: setACL_process_cases[of s sid path acls ver]) auto
next
  case (SetSeqNumRequest path k)
  then show ?thesis using assms by (simp add: setSeqNum_process_def split: option.splits)
next
  case (AuthRequest t sch dat)
  then show ?thesis using assms by (simp add: auth_process_def Let_def)
qed (use assms sub_process_finite[OF assms, of zx sid time b] in simp_all)

lemma process_other_finite:
  assumes "finite (dom (ephemerals s))"
  shows "finite (dom (ephemerals (fst (process_other E s req sid time z acl ign))))"
  using assms store_process_finite[OF assms, of E "zxid s" sid time "req_body req"]
  by (auto simp: process_other_def finish_request_fields split_beta split: sum.splits bool.splits prod.splits)

lemma process_session_finite:
  assumes env: "env_ok E" and fin: "finite (dom (ephemerals s))"
  shows "finite (dom (ephemerals (fst (process_session E s req sid time z acl ign))))"
proof -
  have body: "finite (dom (ephemerals (fst (process_body E t req sid time z acl ign))))"
    if "finite (dom (ephemerals t))" for t
    using that process_other_finite[OF that, of E req sid time z acl ign]
      process_setwatches_frame[of t req _ _ _ _ sid ign]
    by (auto simp: process_body_def watch_frame_def split: request_body.splits)
  then show ?thesis
    using fin process_close_container(2)[OF env] touch_session_fields(2)[of E s sid]
    by (auto simp: process_session_def split: sum.splits)
qed

lemma updateSessionTimeout_ok:
  assumes "session_inv s" "updateSessionTimeout E s sid = Inr (s', b)"
  shows "session_inv s'" "container s' = container s" "ephemerals s' = ephemerals s"
    "watches s' = watches s" "list_watches s' = list_watches s"
    "sessions_and_watchers s' = sessions_and_watchers s"
proof -
  have inv: "expiry_inv (session_expiry_queue s)" using assms(1) by (simp add: session_inv_def)
  show "session_inv s'"
  proof (cases "session_and_timeout s sid")
    case (Some t)
    with addNewSessionOrUpdate_ok[OF inv, of "now_ms E" sid t] assms show ?thesis
      by (fastforce simp: updateSessionTimeout_def session_inv_def)
  qed (use assms in \<open>simp add: updateSessionTimeout_def\<close>)
  show "container s' = container s" "ephemerals s' = ephemerals s" "watches s' = watches s"
    "list_watches s' = list_watches s" "sessions_and_watchers s' = sessions_and_watchers s"
    using assms(2) by (auto simp: updateSessionTimeout_def split: option.splits sum.splits)
qed

lemma addSessionID_ok:
  assumes "session_inv s" "addSessionID E s sid timeout = Inr s'"
  shows "session_inv s'" "container s' = container s" "ephemerals s' = ephemerals s"
    "watches s' = watches s" "list_watches s' = list_watches s"
    "sessions_and_watchers s' = sessions_and_watchers s"
proof -
  have inv: "expiry_inv (session_expiry_queue s)" using assms(1) by (simp add: session_inv_def)
  show "session_inv s'"
    using addNewSessionOrUpdate_ok[OF inv, of "now_ms E" sid timeout] assms
    by (fastforce simp: addSessionID_def timeout_emplace_def session_inv_def Let_def split: option.splits)
  show "container s' = container s" "ephemerals s' = ephemerals s" "watches s' = watches s"
    "list_watches s' = list_watches s" "sessions_and_watchers s' = sessions_and_watchers s"
    using assms(2) by (auto simp: addSessionID_def Let_def split: sum.splits)
qed

lemma handleRemoteSession_ok:
  assumes "session_inv s" "handleRemoteSession s sid t = Inr s'"
  shows "session_inv s'" "container s' = container s" "ephemerals s' = ephemerals s"
    "watches s' = watches s" "list_watches s' = list_watches s"
    "sessions_and_watchers s' = sessions_and_watchers s"
  using assms by (fastforce simp: handleRemoteSession_def session_inv_def setSessionExpirationTime_eq
      expiry_inv_def)+

lemma processRequest_finite:
  assumes "env_ok E" "finite (dom (ephemerals s))"
  shows "finite (dom (ephemerals (fst (processRequest E s req sid time z acl ign))))"
  using assms(2) process_session_finite[OF assms(1)]
  by (auto simp: processRequest_def split: option.splits)

lemma store_inv_request:
  assumes "store_inv s" "env_ok E" "request_ok (req_body req)"
  shows "store_inv (fst (processRequest E s req sid time z acl ign))"
  using assms processRequest_tree processRequest_watch_session processRequest_finite
  by (simp add: store_inv_def)

lemma reachable_store_inv: "reachable s \<Longrightarrow> store_inv s"
proof (induction rule: reachable.induct)
  case (start tick_time_ms digest)
  have "ephemerals_of [''/'' \<mapsto> new_node] k = {}" for k
    by (auto simp: ephemerals_of_def new_node_def split: if_splits)
  then show ?case
    by (simp add: store_inv_def new_KeeperStore_def store_tree_inv_def tree_inv_root ephemerals_inv_def
        watch_inv_def covered_def session_inv_def)
next
  case (request s E req sid time z acl ign s' rs e)
  then show ?case using store_inv_request[of s E req sid time z acl ign] by simp
next
  case (new_session s E timeout s' sid)
  then show ?case
    using getSessionID_ok[OF store_invD(3), of s E timeout]
    by (auto simp: store_inv_def store_tree_inv_def watch_inv_def)
next
  case (add_session s E sid timeout s')
  then show ?case
    using addSessionID_ok[OF store_invD(3), of s E sid timeout s']
    by (auto simp: store_inv_def store_tree_inv_def watch_inv_def)
next
  case (refresh s E sid s' b)
  then show ?case
    using updateSessionTimeout_ok[OF store_invD(3), of s E sid s' b]
    by (auto simp: store_inv_def store_tree_inv_def watch_inv_def)
next
  case (remote s sid t s')
  then show ?case
    using handleRemoteSession_ok[OF store_invD(3), of s sid t s']
    by (auto simp: store_inv_def store_tree_inv_def watch_inv_def)
next
  case (shutdown s E s' e)
  then show ?case
  proof (cases "finalized s")
    case False
    obtain t where t: "finalize E s = (t, None)" "store_tree_inv t" "watch_inv t" "session_inv t"
      using finalize_ok[OF shutdown(2) store_invD(1,4)[OF shutdown.IH] False] by blast
    moreover have "finite (dom (ephemerals t))"
      using t(1) False by (auto simp: finalize_def Let_def split: prod.splits option.splits)
    ultimately show ?thesis using shutdown(3) by (simp add: store_inv_def)
  qed (simp add: finalize_def)
qed

end
