(* ===== verification/Store_Theorems.thy ===== *)
theory Store_Theorems
  imports Store_Properties
begin

text \<open>
  What the node store guarantees. The theorems are about the operations of \<open>KeeperStore\<close> on
  reachable states; each has a witness on a concrete store. The last section holds the places where
  the code does something else than it means to.
\<close>

section \<open>A concrete environment and stores for the witnesses\<close>

definition env0 :: env where
  "env0 = \<lparr>now_ms = 1000, sha1_digest = (\<lambda>s. s), base64_encode = (\<lambda>s. s),
     split_colon = (\<lambda>s. [takeWhile (\<lambda>c. c \<noteq> CHR '':'') s]),
     path_order = sorted_list_of_set, sid_order = sorted_sids\<rparr>"

lemma env0_ok: "env_ok env0"
  using enumerates_sorted_sids by (simp add: env_ok_def env0_def enumerates_def)

definition store0 :: KeeperStore where
  "store0 = new_KeeperStore 500 []"

lemma reachable_store0: "reachable store0"
  unfolding store0_def by (rule reachable.start)

definition store1 :: KeeperStore where
  "store1 = fst (projr (getSessionID env0 store0 30000))"

lemma getSessionID_store0: "getSessionID env0 store0 30000 = Inr (store1, 1)"
  using getSessionID_ok[OF store_invD(3)[OF reachable_store_inv[OF reachable_store0]], of env0 30000]
  by (auto simp: store1_def store0_def new_KeeperStore_def)

lemma reachable_store1: "reachable store1"
  by (rule reachable.new_session[OF reachable_store0 getSessionID_store0])

lemma store1_fields:
  "container store1 = [''/'' \<mapsto> new_node]" "ephemerals store1 = Map.empty" "watches store1 = Map.empty"
  "list_watches store1 = Map.empty" "zxid store1 = 1" "1 \<in> dom (session_and_timeout store1)"
  using getSessionID_ok[OF store_invD(3)[OF reachable_store_inv[OF reachable_store0]], of env0 30000]
  by (auto simp: getSessionID_store0) (auto simp: store0_def new_KeeperStore_def)

definition create_req :: "string \<Rightarrow> bool \<Rightarrow> request" where
  "create_req path eph = Request 1 False (CreateRequest path ''x'' eph False [])"

definition store2 :: KeeperStore where
  "store2 = fst (processRequest env0 store1 (create_req ''/a'' True) 1 7 None True False)"

lemma reachable_store2: "reachable store2"
proof (rule reachable.request[OF reachable_store1 env0_ok])
  show "request_ok (req_body (create_req ''/a'' True))"
    by (simp add: request_ok_def create_req_def double_slash_def)
  show "processRequest env0 store1 (create_req ''/a'' True) 1 7 None True False =
      (store2, fst (snd (processRequest env0 store1 (create_req ''/a'' True) 1 7 None True False)),
       snd (snd (processRequest env0 store1 (create_req ''/a'' True) 1 7 None True False)))"
    by (simp add: store2_def)
qed

section \<open>Invariants\<close>





section \<open>Multi\<close>


definition failing_multi :: "request list" where
  "failing_multi = [create_req ''/b'' False, Request 1 False (RemoveRequest ''/c'' (-1))]"

lemma failing_multi_responses:
  "snd (store_process env0 store1 1 1 7 (MultiRequest failing_multi)) =
     Inr (answer ZOK (MultiResponse [error_response ZOK, error_response ZNONODE]), NoUndo)"
  by (simp add: failing_multi_def create_req_def multi_process_def create_process_def create_target_def
      create_acl_def remove_process_def store1_fields new_node_def parentPath_def getBaseName_def
      undo_create_def Let_def)


section \<open>Closing a session\<close>


definition close_req :: request where
  "close_req = Request 9 False CloseRequest"


section \<open>Single operations\<close>



text \<open>
  C8. A set request is a compare-and-swap on the version: it succeeds exactly when the node exists
  and the version is -1 or the one of the node; then only the node changes, to the new data with the
  version incremented; otherwise the store is unchanged.
\<close>

theorem set_compare_and_swap:
  assumes run: "set_process s zx time path dat ver = (s', x)"
  shows "(\<exists>r u. x = Inr (r, u) \<and>
      (resp_error r = ZOK \<longleftrightarrow> (\<exists>n. container s path = Some n \<and> (ver = -1 \<or> ver = version (node_stat n))))
      \<and> (resp_error r \<noteq> ZOK \<longrightarrow> s' = s)
      \<and> (resp_error r = ZOK \<longrightarrow> (\<exists>n n'. container s path = Some n
          \<and> s' = s\<lparr>container := (container s)(path \<mapsto> n')\<rparr>
          \<and> node_data n' = dat \<and> version (node_stat n') = version (node_stat n) + 1
          \<and> mzxid (node_stat n') = zx \<and> children n' = children n \<and> node_acl_id n' = node_acl_id n
          \<and> is_ephemeral n' = is_ephemeral n)))"
proof (cases "container s path")
  case None
  with run show ?thesis by (auto simp: set_process_def)
next
  case (Some n)
  let ?n' = "set_node zx time dat n"
  have "node_data ?n' = dat" "version (node_stat ?n') = version (node_stat n) + 1"
    "mzxid (node_stat ?n') = zx" "children ?n' = children n" "node_acl_id ?n' = node_acl_id n"
    "is_ephemeral ?n' = is_ephemeral n"
    by (simp_all add: set_node_def)
  with run Some show ?thesis
    by (auto simp: set_process_def Let_def intro!: exI[of _ ?n'] split: if_splits)
qed

theorem set_compare_and_swap_witness:
  "\<exists>r u. snd (set_process store1 1 7 ''/'' ''y'' 0) = Inr (r, u) \<and> resp_error r = ZOK"
proof -
  obtain s' x where run: "set_process store1 1 7 ''/'' ''y'' 0 = (s', x)"
    by (cases "set_process store1 1 7 ''/'' ''y'' 0")
  have "container store1 ''/'' = Some new_node \<and> (0 = (-1 :: int32) \<or> 0 = version (node_stat new_node))"
    by (simp add: store1_fields new_node_def zero_stat_def)
  with set_compare_and_swap[OF run] run show ?thesis by auto
qed



section \<open>Exceptions\<close>

lemma node_auth_exc: "node_auth s path perm sid = Inl e \<Longrightarrow> e = LOGICAL_ERROR"
  by (auto simp: node_auth_def convertNumber_def split: option.splits sum.splits if_splits)

lemma sub_checkAuth_exc: "sub_checkAuth s sid b = Inl e \<Longrightarrow> e = LOGICAL_ERROR"
  by (cases b) (auto simp: checkAuth_defs dest: node_auth_exc)

lemma multi_checkAuth_exc: "multi_checkAuth s sid bs = Inl e \<Longrightarrow> e = LOGICAL_ERROR"
  by (induction bs) (auto split: sum.splits bool.splits dest: sub_checkAuth_exc)

lemma store_checkAuth_exc: "store_checkAuth s sid b = Inl e \<Longrightarrow> e = LOGICAL_ERROR"
  by (cases b) (auto simp: checkAuth_defs dest: node_auth_exc multi_checkAuth_exc)

lemma wrapper_get_exc: "wrapper_get b = Inl e \<Longrightarrow> e \<noteq> NULL_DEREFERENCE"
  by (auto simp: wrapper_get_def concrete_requests_def split: request_body.splits sum.splits if_splits)

lemma store_process_no_null:
  assumes inv: "store_tree_inv s" and ok: "request_ok b" "wrapper_get b = Inr ()"
    and seqn: "\<And>path k. b = SetSeqNumRequest path k \<Longrightarrow> path \<in> dom (container s)"
  shows "snd (store_process E s zx sid time b) \<noteq> Inl NULL_DEREFERENCE"
proof (cases b)
  case (MultiRequest rs)
  then have "list_all sub_ok (map req_body rs)" "list_all multi_allowed (map req_body rs)"
    using ok by (auto simp: request_ok_def wrapper_get_def concrete_requests_def list.pred_map
        comp_def split: if_splits)
  with multi_process_atomic[OF inv this, of zx sid time] MultiRequest show ?thesis by auto
next
  case (RemoveRequest path ver)
  with sub_process_no_exception[OF inv, of b zx sid time] show ?thesis by auto
next
  case (CreateRequest path dat eph sequential acls)
  with sub_process_no_exception[OF inv, of b zx sid time] show ?thesis by auto
next
  case (SetRequest path dat ver)
  with sub_process_no_exception[OF inv, of b zx sid time] show ?thesis by auto
next
  case (SetSeqNumRequest path k)
  with seqn show ?thesis by (auto simp: setSeqNum_process_def)
next
  case (SetACLRequest path acls ver)
  then show ?thesis by (cases rule: setACL_process_cases[of s sid path acls ver]) auto
qed (auto simp: heartbeat_process_def setWatches_process_def sync_process_def auth_process_def
    close_process_def exists_process_def get_process_def list_process_def check_process_def
    getACL_process_def convertNumber_def Let_def split: option.splits sum.splits)

lemma finish_request_no_exc [simp]: "snd (snd (finish_request s req r sid time z ign)) = None"
  by (simp add: finish_request_def Let_def split_beta)

lemma process_other_no_null:
  assumes "store_tree_inv s" "request_ok (req_body req)"
    and "\<And>path k. req_body req = SetSeqNumRequest path k \<Longrightarrow> path \<in> dom (container s)"
  shows "snd (snd (process_other E s req sid time z acl ign)) \<noteq> Some NULL_DEREFERENCE"
proof -
  have "snd (store_process E s (zxid s) sid time (req_body req)) \<noteq> Inl NULL_DEREFERENCE"
    if "wrapper_get (req_body req) = Inr ()"
    using assms that by (intro store_process_no_null) auto
  then show ?thesis
    using wrapper_get_exc[of "req_body req"] store_checkAuth_exc[of s sid "req_body req"]
    by (auto simp: process_other_def split_beta split: sum.splits bool.splits prod.splits if_splits)
qed



section \<open>Transaction numbers and reads\<close>

lemma finish_request_zxid:
  "zxid (fst (finish_request s req r sid time z ign)) =
     (if z = None \<and> shouldIncreaseZxid req then zxid s + 1 else zxid s)"
  by (simp add: finish_request_def next_zxid_def getZXID_def register_data_watch_def
      register_list_watch_def Let_def split_beta)

lemma process_other_zxid:
  "zxid (fst (process_other E s req sid time z acl ign)) \<in> {zxid s, if z = None then zxid s + 1 else zxid s}"
  using frameD(4)[OF store_process_frame[of s E "zxid s" sid time "req_body req"]]
  by (auto simp: process_other_def finish_request_zxid split_beta split: sum.splits bool.splits prod.splits)

lemma process_session_zxid:
  "zxid (fst (process_session E s req sid time z acl ign)) \<in> {zxid s, if z = None then zxid s + 1 else zxid s}"
proof -
  have body: "zxid (fst (process_body E t req sid time z acl ign)) \<in> {zxid t, if z = None then zxid t + 1 else zxid t}" for t
    using process_other_zxid[of E t req sid time z acl ign] process_setwatches_frame[of t req _ _ _ _ sid ign]
    by (auto simp: process_body_def watch_frame_def split: request_body.splits)
  have close: "zxid (fst (process_close E s req sid z ign)) \<in> {zxid s, if z = None then zxid s + 1 else zxid s}"
    by (auto simp: process_close_def next_zxid_def getZXID_def Let_def split_beta close_ephemerals_fields
        split: option.splits sum.splits)
  define S where "S = {zxid s, if z = None then zxid s + 1 else zxid s}"
  have S: "zxid s \<in> S" by (simp add: S_def)
  show ?thesis
    unfolding S_def[symmetric]
  proof (cases "touch_session E s sid")
    case (Inr t)
    have "zxid (fst (process_body E t req sid time z acl ign)) \<in> S"
      using body[of t] unfolding S_def touch_session_fields(8)[OF Inr] .
    with close S Inr show "zxid (fst (process_session E s req sid time z acl ign)) \<in> S"
      by (simp add: process_session_def S_def[symmetric])
  qed (use close S in \<open>simp_all add: process_session_def S_def[symmetric]\<close>)
qed



lemma read_store_process:
  assumes "body_isReadRequest b"
  shows "fst (store_process E s zx sid time b) = s"
  using assms by (cases b) simp_all

definition read_frame :: "KeeperStore \<Rightarrow> KeeperStore \<Rightarrow> bool" where
  "read_frame s s' \<longleftrightarrow> container s' = container s \<and> ephemerals s' = ephemerals s
     \<and> store_acl_map s' = store_acl_map s \<and> session_and_auth s' = session_and_auth s"

lemma read_frame_finish: "read_frame s (fst (finish_request s req r sid time z ign))"
  by (simp add: read_frame_def finish_request_def register_data_watch_def register_list_watch_def
      Let_def split_beta)

lemma process_other_read:
  assumes "isReadRequest req"
  shows "read_frame s (fst (process_other E s req sid time z acl ign))"
    and "\<not> shouldIncreaseZxid req \<Longrightarrow> zxid (fst (process_other E s req sid time z acl ign)) = zxid s"
proof -
  obtain x where x: "store_process E s (zxid s) sid time (req_body req) = (s, x)"
    using read_store_process[of "req_body req" E s "zxid s" sid time] assms
    by (cases "store_process E s (zxid s) sid time (req_body req)") (simp add: isReadRequest_def)
  show "read_frame s (fst (process_other E s req sid time z acl ign))"
    using read_frame_finish[of s req]
    by (auto simp: process_other_def x read_frame_def split: sum.splits bool.splits)
  show "\<not> shouldIncreaseZxid req \<Longrightarrow> zxid (fst (process_other E s req sid time z acl ign)) = zxid s"
    by (auto simp: process_other_def x finish_request_zxid split: sum.splits bool.splits)
qed

lemma process_body_read:
  assumes "isReadRequest req"
  shows "read_frame s (fst (process_body E s req sid time z acl ign))
    \<and> (\<not> shouldIncreaseZxid req \<longrightarrow> zxid (fst (process_body E s req sid time z acl ign)) = zxid s)"
  using process_other_read[OF assms] process_setwatches_frame[of s req _ _ _ _ sid ign]
  by (auto simp: process_body_def watch_frame_def read_frame_def split: request_body.splits)

text \<open>
  C12. Read requests are read only: they change neither the nodes, nor the ephemeral index, nor the
  access control map, nor the authentications. Those that do not count as transactions do not
  change the transaction number either, unless one is given from the log.
\<close>

theorem read_only:
  assumes "isReadRequest req" and run: "processRequest E s req sid time z acl ign = (s', rs, e)"
  shows "container s' = container s \<and> ephemerals s' = ephemerals s \<and> store_acl_map s' = store_acl_map s
    \<and> session_and_auth s' = session_and_auth s
    \<and> (z = None \<longrightarrow> \<not> shouldIncreaseZxid req \<longrightarrow> zxid s' = zxid s)"
proof -
  have no_close: "getOpNum req \<noteq> Op_Close"
    using assms(1) by (cases "req_body req") (simp_all add: isReadRequest_def getOpNum_def)
  have ses: "read_frame t (fst (process_session E t req sid time z acl ign))
      \<and> (\<not> shouldIncreaseZxid req \<longrightarrow> zxid (fst (process_session E t req sid time z acl ign)) = zxid t)" for t
  proof (cases "touch_session E t sid")
    case (Inr t1)
    with process_body_read[OF assms(1), of t1 E sid time z acl ign] touch_session_fields[OF Inr] no_close
    show ?thesis by (simp add: process_session_def read_frame_def)
  qed (simp add: process_session_def no_close read_frame_def)
  show ?thesis
  proof (cases z)
    case None
    with ses[of s] run show ?thesis by (simp add: processRequest_def read_frame_def)
  next
    case (Some k)
    with ses[of "s\<lparr>zxid := k\<rparr>"] run show ?thesis
      by (auto simp: processRequest_def read_frame_def split: if_splits)
  qed
qed

theorem read_only_witness:
  "container (fst (processRequest env0 store2 (Request 2 True (GetRequest ''/a'')) 1 8 None True False))
     = container store2
   \<and> zxid (fst (processRequest env0 store2 (Request 2 True (GetRequest ''/a'')) 1 8 None True False))
     = zxid store2"
proof -
  let ?req = "Request 2 True (GetRequest ''/a'')"
  obtain s' rs e where run: "processRequest env0 store2 ?req 1 8 None True False = (s', rs, e)"
    by (cases "processRequest env0 store2 ?req 1 8 None True False") auto
  have "isReadRequest ?req" "\<not> shouldIncreaseZxid ?req"
    by (simp_all add: isReadRequest_def shouldIncreaseZxid_def)
  with read_only[OF _ run] run show ?thesis by simp
qed

section \<open>Access control\<close>

lemma acl_grants_iff:
  "acl_grants perm acls auths \<longleftrightarrow>
     (\<exists>a \<in> set acls. permissions a AND perm \<noteq> 0 \<and>
        ((scheme a = ''world'' \<and> ident a = ''anyone'')
         \<or> (\<exists>i \<in> set auths. scheme a = auth_scheme i \<and> ident a = auth_ident i)))"
  by (induction acls) (auto simp: list_ex_iff)

text \<open>
  C13. The access check grants a permission exactly when the node has no list, or the session is
  authenticated as super user, or some entry of the list has one of the wanted permission bits and
  is for everyone or for one of the identities of the session.
\<close>

theorem checkACL_exact:
  "checkACL perm acls auths \<longleftrightarrow>
     acls = [] \<or> (\<exists>i \<in> set auths. auth_scheme i = ''super'')
     \<or> (\<exists>a \<in> set acls. permissions a AND perm \<noteq> 0 \<and>
          ((scheme a = ''world'' \<and> ident a = ''anyone'')
           \<or> (\<exists>i \<in> set auths. scheme a = auth_scheme i \<and> ident a = auth_ident i)))"
  by (auto simp: checkACL_def acl_grants_iff list_ex_iff)

definition acl_entry_valid :: "AuthIDs \<Rightarrow> ACL \<Rightarrow> bool" where
  "acl_entry_valid ids a \<longleftrightarrow>
     (\<exists>i \<in> set ids. scheme a = auth_scheme i \<and> ident a = auth_ident i)
     \<or> (scheme a = ''world'' \<and> ident a = ''anyone'')
     \<or> (scheme a = ''digest'' \<and> count_list (ident a) (CHR '':'') = 1)"

lemma fixup_loop_sound:
  assumes "fixup_loop acls ids v out = Some (True, res)" "\<forall>a \<in> set out. acl_entry_valid ids a" "v \<longrightarrow> out \<noteq> []"
  shows "res \<noteq> [] \<and> (\<forall>a \<in> set res. acl_entry_valid ids a)"
  using assms
proof (induction acls arbitrary: v out)
  case (Cons a as)
  consider "scheme a = ''auth''" | "scheme a \<noteq> ''auth''" "scheme a = ''world'' \<and> ident a = ''anyone''"
    | "scheme a \<noteq> ''auth''" "\<not> (scheme a = ''world'' \<and> ident a = ''anyone'')" "scheme a = ''digest''"
    | "scheme a \<noteq> ''auth''" "\<not> (scheme a = ''world'' \<and> ident a = ''anyone'')" "scheme a \<noteq> ''digest''"
    by blast
  then show ?case
  proof cases
    case 1
    let ?out = "out @ map (\<lambda>i. a\<lparr>scheme := auth_scheme i, ident := auth_ident i\<rparr>) ids"
    have "fixup_loop as ids (v \<or> ids \<noteq> []) ?out = Some (True, res)" using 1 Cons.prems(1) by simp
    moreover have "\<forall>a \<in> set ?out. acl_entry_valid ids a" using Cons.prems(2) by (auto simp: acl_entry_valid_def)
    ultimately show ?thesis using Cons.IH[of "v \<or> ids \<noteq> []" ?out] Cons.prems(3) by simp
  next
    case 2
    have valid: "acl_entry_valid ids a" using 2(2) unfolding acl_entry_valid_def by blast
    have step: "fixup_loop as ids True (out @ [a]) = Some (True, res)" using 2 Cons.prems(1) by simp
    show ?thesis by (rule Cons.IH[OF step]) (use valid Cons.prems(2) in auto)
  next
    case 3
    have step: "fixup_loop as ids True (out @ [a]) = Some (True, res)" "count_list (ident a) (CHR '':'') = 1"
      using 3 Cons.prems(1) by (auto split: if_splits)
    have valid: "acl_entry_valid ids a" using 3(3) step(2) unfolding acl_entry_valid_def by blast
    show ?thesis by (rule Cons.IH[OF step(1)]) (use valid Cons.prems(2) in auto)
  next
    case 4
    then have "fixup_loop as ids v out = Some (True, res)" using Cons.prems(1) by (auto split: if_splits)
    then show ?thesis using Cons.prems(2,3) by (rule Cons.IH)
  qed
qed simp



lemma finish_request_last:
  "snd (snd (finish_request s req r sid time z ign)) = None"
  "last (fst (snd (finish_request s req r sid time z False))) =
     (sid, Response (resp_error r) (req_xid req) (snd (next_zxid s z (shouldIncreaseZxid req))) time (resp_body r))"
  by (simp_all add: finish_request_def Let_def split_beta set_response_def)

text \<open>
  C15. A request that the access check denies changes no node, no ephemeral index and no access
  control number, and is answered with \<open>ZNOAUTH\<close>.
\<close>

theorem denied_request:
  assumes "wrapper_get (req_body req) = Inr ()" "store_checkAuth s sid (req_body req) = Inr False"
    and run: "process_other E s req sid time z True False = (s', rs, e)"
  shows "e = None \<and> container s' = container s \<and> ephemerals s' = ephemerals s
    \<and> store_acl_map s' = store_acl_map s \<and> session_and_auth s' = session_and_auth s
    \<and> resp_error (snd (last rs)) = ZNOAUTH \<and> fst (last rs) = sid \<and> resp_xid (snd (last rs)) = req_xid req"
proof -
  let ?r = "answer ZNOAUTH (resp_body (makeResponse req))"
  have r: "finish_request s req ?r sid time z False = (s', rs, e)"
    using assms by (simp add: process_other_def)
  show ?thesis
    using read_frame_finish[of s req ?r sid time z False] finish_request_last[of s req ?r sid time z]
      finish_request_last(1)[of s req ?r sid time z False]
    by (simp add: read_frame_def r)
qed

definition locked_store :: KeeperStore where
  "locked_store = store0\<lparr>container := [''/'' \<mapsto> new_node\<lparr>node_acl_id := 1\<rparr>],
     store_acl_map := fst (convertACLs empty_acl_map [\<lparr>permissions = 1, scheme = ''digest'', ident = ''u:h''\<rparr>])\<rparr>"

theorem denied_request_witness:
  "resp_error (snd (last (fst (snd (process_other env0 locked_store (Request 4 False (SetRequest ''/'' ''d'' (-1)))
     1 7 None True False))))) = ZNOAUTH"
proof -
  let ?req = "Request 4 False (SetRequest ''/'' ''d'' (-1))"
  obtain s' rs e where run: "process_other env0 locked_store ?req 1 7 None True False = (s', rs, e)"
    by (cases "process_other env0 locked_store ?req 1 7 None True False")
  have "store_checkAuth locked_store 1 (req_body ?req) = Inr False"
    by (simp add: checkAuth_defs node_auth_def locked_store_def store0_def new_KeeperStore_def convertACLs_def
        empty_acl_map_def convertNumber_def checkACL_def list_entry_def ACL_Write_def
        world_anyone_def)
  moreover have "wrapper_get (req_body ?req) = Inr ()" by (simp add: wrapper_get_def)
  ultimately show ?thesis using denied_request[OF _ _ run] by (simp add: run)
qed

end
