(* ===== verification/Wire_IO.thy ===== *)
theory Wire_IO
  imports Coordination
begin

text \<open>
  The primitive codecs of \<open>src/src/Common/ZooKeeper/ZooKeeperIO.h\<close> and \<open>ZooKeeperIO.cpp\<close> over the
  byte readers of \<open>src/src/IO\<close>. A buffer is a string; a writer returns the bytes it appends, a
  reader returns the value and the rest of the buffer, or the exception it throws. The machine is
  little endian: \<open>writePODBinary\<close> and \<open>readPODBinary\<close> copy the bytes of the object from the lowest.
\<close>

section \<open>Integers in memory\<close>

fun nat_bytes :: "nat \<Rightarrow> nat \<Rightarrow> string" where
  "nat_bytes 0 k = []"
| "nat_bytes (Suc n) k = char_of k # nat_bytes n (k div 256)"

fun bytes_nat :: "string \<Rightarrow> nat" where
  "bytes_nat [] = 0"
| "bytes_nat (c # cs) = of_char c + 256 * bytes_nat cs"

definition pod_bytes :: "'a :: len word \<Rightarrow> string" where
  "pod_bytes x = nat_bytes (LENGTH('a) div 8) (unat x)"

definition pod_word :: "string \<Rightarrow> 'a :: len word" where
  "pod_word cs = of_nat (bytes_nat cs)"

text \<open>\<open>__builtin_bswap32\<close> and \<open>__builtin_bswap64\<close> reverse the bytes of their argument.\<close>

definition bswap :: "'a :: len word \<Rightarrow> 'a word" where
  "bswap x = pod_word (rev (pod_bytes x))"

lemma length_nat_bytes [simp]: "length (nat_bytes n k) = n"
  by (induction n arbitrary: k) simp_all

lemma bytes_nat_nat_bytes: "bytes_nat (nat_bytes n k) = k mod 256 ^ n"
proof (induction n arbitrary: k)
  case (Suc n)
  have "bytes_nat (nat_bytes (Suc n) k) = k mod 256 + 256 * (k div 256 mod 256 ^ n)"
    using Suc.IH[of "k div 256"] by simp
  also have "\<dots> = k mod 256 ^ Suc n" by (simp add: mod_mult2_eq)
  finally show ?case .
qed simp

lemma bytes_nat_less: "bytes_nat cs < 256 ^ length cs"
proof (induction cs)
  case (Cons c cs)
  have "of_char c < (256 :: nat)" by simp
  with Cons.IH show ?case unfolding bytes_nat.simps length_Cons power_Suc by linarith
qed simp

lemma nat_bytes_bytes_nat: "nat_bytes (length cs) (bytes_nat cs) = cs"
proof (induction cs)
  case (Cons c cs)
  have c: "of_char c < (256 :: nat)" by simp
  have "char_of (of_char c + 256 * bytes_nat cs) = (char_of (of_char c :: nat) :: char)"
    by (metis char_of_mod_256 mod_mult_self2)
  moreover have "(of_char c + 256 * bytes_nat cs) div 256 = bytes_nat cs" using c by simp
  ultimately show ?case using Cons.IH by simp
qed simp

text \<open>The widths the codecs use.\<close>

lemma length_pod_bytes [simp]:
  "length (pod_bytes (x :: 8 word)) = 1" "length (pod_bytes (y :: 32 word)) = 4"
  "length (pod_bytes (z :: 64 word)) = 8"
  by (simp_all add: pod_bytes_def)

lemma pod_word_bytes:
  assumes "LENGTH('a) = 8 * n"
  shows "pod_word (pod_bytes (x :: 'a :: len word)) = x"
proof -
  have "256 ^ n = (2 :: nat) ^ LENGTH('a)" using assms by (simp add: power_mult)
  then have "unat x mod 256 ^ n = unat x" using unsigned_less[of x] by simp
  then show ?thesis using assms by (simp add: pod_word_def pod_bytes_def bytes_nat_nat_bytes)
qed

lemma pod_bytes_word:
  assumes "LENGTH('a) = 8 * length cs"
  shows "pod_bytes (pod_word cs :: 'a :: len word) = cs"
proof -
  have "256 ^ length cs = (2 :: nat) ^ LENGTH('a)" using assms by (simp add: power_mult)
  then have "unat (pod_word cs :: 'a word) = bytes_nat cs"
    using bytes_nat_less[of cs] by (simp add: pod_word_def unat_of_nat)
  then show ?thesis using assms by (simp add: pod_bytes_def nat_bytes_bytes_nat)
qed

lemma pod_bytes_bswap:
  assumes "LENGTH('a) = 8 * n"
  shows "pod_bytes (bswap (x :: 'a :: len word)) = rev (pod_bytes x)"
  using assms pod_bytes_word[where 'a = 'a, of "rev (pod_bytes x)"] by (simp add: bswap_def pod_bytes_def)

lemma bswap_bswap:
  assumes "LENGTH('a) = 8 * n"
  shows "bswap (bswap (x :: 'a :: len word)) = x"
  unfolding bswap_def[of "bswap x"] pod_bytes_bswap[OF assms] by (simp add: pod_word_bytes[OF assms])

section \<open>Readers\<close>

type_synonym 'a reader = "string \<Rightarrow> exc + 'a \<times> string"

definition rbind :: "'a reader \<Rightarrow> ('a \<Rightarrow> 'b reader) \<Rightarrow> 'b reader" where
  "rbind r f inp = (case r inp of Inl e \<Rightarrow> Inl e | Inr (x, rest) \<Rightarrow> f x rest)"

definition rreturn :: "'a \<Rightarrow> 'a reader" where
  "rreturn x inp = Inr (x, inp)"

definition rthrow :: "exc \<Rightarrow> 'a reader" where
  "rthrow e inp = Inl e"

lemmas reader_defs [wire_simps] = rbind_def rreturn_def rthrow_def

lemma rbind_InrE:
  assumes "rbind r f inp = Inr (y, rest)"
  obtains x mid where "r inp = Inr (x, mid)" "f x mid = Inr (y, rest)"
  using assms by (auto simp: rbind_def split: sum.splits)

text \<open>
  \<open>ReadBuffer::readStrict\<close> throws when fewer bytes are left; \<open>ReadBuffer::read\<close> copies what is
  there and leaves the rest of the destination.
\<close>

definition readStrict :: "nat \<Rightarrow> string reader" where
  "readStrict n inp = (if n \<le> length inp then Inr (take n inp, drop n inp) else Inl CANNOT_READ_ALL_DATA)"

definition read_into :: "string \<Rightarrow> string reader" where
  "read_into s inp = Inr (take (length s) inp @ drop (length inp) s, drop (length s) inp)"

section \<open>Primitive codecs\<close>

definition write_int64 :: "int64 \<Rightarrow> string" where
  "write_int64 x = pod_bytes (bswap x)"

definition write_int32 :: "int32 \<Rightarrow> string" where
  "write_int32 x = pod_bytes (bswap x)"

definition write_int8 :: "int8 \<Rightarrow> string" where
  "write_int8 x = pod_bytes x"

definition write_OpNum :: "OpNum \<Rightarrow> string" where
  "write_OpNum x = write_int32 (op_code x)"

definition write_bool :: "bool \<Rightarrow> string" where
  "write_bool x = [char_of (of_bool x :: nat)]"

definition write_string :: "string \<Rightarrow> string" where
  "write_string s = write_int32 (of_nat (length s)) @ s"

definition write_Error :: "Error \<Rightarrow> string" where
  "write_Error x = write_int32 (error_code x)"

definition write_ACL :: "ACL \<Rightarrow> string" where
  "write_ACL acl = write_int32 (permissions acl) @ write_string (scheme acl) @ write_string (ident acl)"

definition write_AuthID :: "AuthID \<Rightarrow> string" where
  "write_AuthID a = write_string (auth_scheme a) @ write_string (auth_ident a)"

definition write_Stat :: "Stat \<Rightarrow> string" where
  "write_Stat s =
     write_int64 (czxid s) @ write_int64 (mzxid s) @ write_int64 (ctime s) @ write_int64 (mtime s)
     @ write_int32 (version s) @ write_int32 (cversion s) @ write_int32 (aversion s)
     @ write_int64 (ephemeralOwner s) @ write_int32 (dataLength s) @ write_int32 (numChildren s)
     @ write_int64 (pzxid s)"

definition write_array :: "string \<Rightarrow> string" where
  "write_array s = write_int32 (of_nat (length s)) @ s"

definition write_vector :: "('a \<Rightarrow> string) \<Rightarrow> 'a list \<Rightarrow> string" where
  "write_vector wr arr = write_int32 (of_nat (length arr)) @ concat (map wr arr)"

definition read_int64 :: "int64 reader" where
  "read_int64 = rbind (readStrict 8) (\<lambda>bs. rreturn (bswap (pod_word bs)))"

definition read_int32 :: "int32 reader" where
  "read_int32 = rbind (readStrict 4) (\<lambda>bs. rreturn (bswap (pod_word bs)))"

definition read_int8 :: "int8 reader" where
  "read_int8 = rbind (readStrict 1) (\<lambda>bs. rreturn (pod_word bs))"

definition read_OpNum :: "OpNum reader" where
  "read_OpNum = rbind read_int32 (\<lambda>raw inp.
     case getOpNum_of_raw raw of Inl e \<Rightarrow> Inl e | Inr x \<Rightarrow> Inr (x, inp))"

definition read_bool :: "bool reader" where
  "read_bool = rbind (readStrict 1) (\<lambda>bs. rreturn (bytes_nat bs \<noteq> 0))"

definition read_string :: "string reader" where
  "read_string = rbind read_int32 (\<lambda>size.
     if size = -1 then rreturn []
     else if size <s 0 then rthrow (KEEPER_EXCEPTION ZMARSHALLINGERROR)
     else if MAX_STRING_OR_ARRAY_SIZE <s size then rthrow (KEEPER_EXCEPTION ZMARSHALLINGERROR)
     else read_into (replicate (unat size) (CHR 0x00)))"

definition read_Error :: "Error reader" where
  "read_Error = rbind read_int32 (\<lambda>code. rreturn (error_of_code code))"

definition read_ACL :: "ACL reader" where
  "read_ACL = rbind read_int32 (\<lambda>p. rbind read_string (\<lambda>s. rbind read_string (\<lambda>i.
     rreturn \<lparr>permissions = p, scheme = s, ident = i\<rparr>)))"

definition read_AuthID :: "AuthID reader" where
  "read_AuthID = rbind read_string (\<lambda>s. rbind read_string (\<lambda>i.
     rreturn \<lparr>auth_scheme = s, auth_ident = i\<rparr>))"

definition read_Stat :: "Stat reader" where
  "read_Stat = rbind read_int64 (\<lambda>cz. rbind read_int64 (\<lambda>mz. rbind read_int64 (\<lambda>ct.
     rbind read_int64 (\<lambda>mt. rbind read_int32 (\<lambda>v. rbind read_int32 (\<lambda>cv. rbind read_int32 (\<lambda>av.
     rbind read_int64 (\<lambda>eo. rbind read_int32 (\<lambda>dl. rbind read_int32 (\<lambda>nc. rbind read_int64 (\<lambda>pz.
     rreturn \<lparr>czxid = cz, mzxid = mz, ctime = ct, mtime = mt, version = v, cversion = cv,
       aversion = av, ephemeralOwner = eo, dataLength = dl, numChildren = nc, pzxid = pz\<rparr>)))))))))))"

definition read_array :: "string \<Rightarrow> string reader" where
  "read_array s = rbind read_int32 (\<lambda>size.
     if sint size \<noteq> int (length s) then rthrow (KEEPER_EXCEPTION ZMARSHALLINGERROR)
     else read_into s)"

fun read_elements :: "'a reader \<Rightarrow> nat \<Rightarrow> 'a list reader" where
  "read_elements rd 0 = rreturn []"
| "read_elements rd (Suc n) = rbind rd (\<lambda>x. rbind (read_elements rd n) (\<lambda>xs. rreturn (x # xs)))"

definition read_vector :: "'a reader \<Rightarrow> 'a list reader" where
  "read_vector rd = rbind read_int32 (\<lambda>size.
     if size <s 0 then rthrow (KEEPER_EXCEPTION ZMARSHALLINGERROR)
     else if MAX_STRING_OR_ARRAY_SIZE <s size then rthrow (KEEPER_EXCEPTION ZMARSHALLINGERROR)
     else read_elements rd (unat size))"

section \<open>The contract of a codec\<close>

text \<open>A reader only ever consumes a prefix of the buffer.\<close>

definition consuming :: "'a reader \<Rightarrow> bool" where
  "consuming r \<longleftrightarrow> (\<forall>inp x rest. r inp = Inr (x, rest) \<longrightarrow> (\<exists>pre. inp = pre @ rest))"

named_theorems consuming_intros \<open>readers that consume a prefix\<close>

lemma consumingD: "consuming r \<Longrightarrow> r inp = Inr (x, rest) \<Longrightarrow> \<exists>pre. inp = pre @ rest"
  by (auto simp: consuming_def)

lemma consuming_length: "consuming r \<Longrightarrow> r inp = Inr (x, rest) \<Longrightarrow> length rest \<le> length inp"
  by (auto dest: consumingD)

lemma consuming_rreturn [consuming_intros]: "consuming (rreturn x)"
  by (simp add: consuming_def rreturn_def)

lemma consuming_rthrow [consuming_intros]: "consuming (rthrow e)"
  by (simp add: consuming_def rthrow_def)

lemma consuming_rbind [consuming_intros]:
  assumes "consuming r" "\<And>x. consuming (f x)"
  shows "consuming (rbind r f)"
  unfolding consuming_def
proof (intro allI impI)
  fix inp y rest
  assume "rbind r f inp = Inr (y, rest)"
  then obtain x mid where "r inp = Inr (x, mid)" "f x mid = Inr (y, rest)" by (rule rbind_InrE)
  then obtain pre pre' where "inp = pre @ mid" "mid = pre' @ rest"
    using consumingD[OF assms(1)] consumingD[OF assms(2)] by blast
  then show "\<exists>pre. inp = pre @ rest" by simp
qed

lemma consuming_if [consuming_intros]: "consuming r \<Longrightarrow> consuming t \<Longrightarrow> consuming (if c then r else t)"
  by simp

lemma drop_is_suffix: "\<exists>pre. inp = pre @ drop n inp"
  by (rule exI[of _ "take n inp"]) simp

lemma consuming_readStrict [consuming_intros]: "consuming (readStrict n)"
  by (auto simp: consuming_def readStrict_def intro: drop_is_suffix)

lemma consuming_read_into [consuming_intros]: "consuming (read_into s)"
  by (auto simp: consuming_def read_into_def intro: drop_is_suffix)

lemma consuming_read_elements [consuming_intros]: "consuming rd \<Longrightarrow> consuming (read_elements rd n)"
  by (induction n) (auto intro: consuming_intros)

lemma consuming_OpNum [consuming_intros]: "consuming read_OpNum"
  unfolding read_OpNum_def read_int32_def
  by (intro consuming_intros) (auto simp: consuming_def split: sum.splits)

lemma consuming_read [consuming_intros]:
  "consuming read_int64" "consuming read_int32" "consuming read_int8" "consuming read_bool"
  "consuming read_string" "consuming read_Error" "consuming read_ACL" "consuming read_AuthID"
  "consuming read_Stat" "consuming (read_array s)"
  unfolding read_Stat_def read_ACL_def read_AuthID_def read_array_def read_string_def read_Error_def
    read_int64_def read_int32_def read_int8_def read_bool_def
  by (intro consuming_intros)+

lemma consuming_read_vector [consuming_intros]: "consuming rd \<Longrightarrow> consuming (read_vector rd)"
  unfolding read_vector_def by (intro consuming_intros)

text \<open>A reader undoes its writer whatever follows, for the values that the writer can represent.\<close>

locale codec =
  fixes wr :: "'a \<Rightarrow> string" and rd :: "'a reader" and ok :: "'a \<Rightarrow> bool"
  assumes roundtrip: "ok x \<Longrightarrow> rd (wr x @ rest) = Inr (x, rest)"
    and consumes: "consuming rd"
begin

lemma unique_decoding:
  assumes "ok x" "ok y" "wr x @ r = wr y @ r'"
  shows "x = y \<and> r = r'"
proof -
  have "Inr (x, r) = (Inr (y, r') :: exc + 'a \<times> string)"
    using roundtrip[OF assms(1), of r] roundtrip[OF assms(2), of r'] unfolding assms(3) by (rule trans[OF sym])
  then show ?thesis by simp
qed

lemma elements_roundtrip:
  "\<forall>x \<in> set xs. ok x \<Longrightarrow> read_elements rd (length xs) (concat (map wr xs) @ rest) = Inr (xs, rest)"
  by (induction xs) (simp_all add: reader_defs roundtrip)

end

section \<open>Integers\<close>

lemma readStrict_append [wire_simps]: "n = length bs \<Longrightarrow> readStrict n (bs @ rest) = Inr (bs, rest)"
  by (simp add: readStrict_def)

lemma bswap_cancel [simp]: "bswap (bswap (x :: int32)) = x" "bswap (bswap (y :: int64)) = y"
  by (rule bswap_bswap[where n = 4] bswap_bswap[where n = 8], simp)+

lemma pod_cancel [simp]:
  "pod_word (pod_bytes x) = (x :: int8)" "pod_word (pod_bytes y) = (y :: int32)"
  "pod_word (pod_bytes z) = (z :: int64)"
  by (rule pod_word_bytes[where n = 1] pod_word_bytes[where n = 4] pod_word_bytes[where n = 8], simp)+

interpretation i64: codec write_int64 read_int64 "\<lambda>_. True"
  by unfold_locales (simp add: write_int64_def read_int64_def wire_simps, intro consuming_intros)

interpretation i32: codec write_int32 read_int32 "\<lambda>_. True"
  by unfold_locales (simp add: write_int32_def read_int32_def wire_simps, intro consuming_intros)

interpretation i8: codec write_int8 read_int8 "\<lambda>_. True"
  by unfold_locales (simp add: write_int8_def read_int8_def wire_simps, intro consuming_intros)

interpretation bl: codec write_bool read_bool "\<lambda>_. True"
proof unfold_locales
  fix x :: bool and rest
  show "read_bool (write_bool x @ rest) = Inr (x, rest)"
    by (cases x) (simp_all add: read_bool_def write_bool_def reader_defs readStrict_def)
qed (intro consuming_intros)

lemmas int_roundtrip [wire_simps] =
  i64.roundtrip[OF TrueI] i32.roundtrip[OF TrueI] i8.roundtrip[OF TrueI] bl.roundtrip[OF TrueI]

lemma length_write [simp]:
  "length (write_int64 x) = 8" "length (write_int32 y) = 4" "length (write_int8 z) = 1" "length (write_bool b) = 1"
  by (simp_all add: write_int64_def write_int32_def write_int8_def write_bool_def)

interpretation op: codec write_OpNum read_OpNum "\<lambda>_. True"
  by unfold_locales (simp add: write_OpNum_def read_OpNum_def wire_simps, intro consuming_intros)

interpretation err: codec write_Error read_Error named_error
  by unfold_locales
    (simp add: write_Error_def read_Error_def wire_simps error_of_code_code, intro consuming_intros)

section \<open>Strings, vectors and records\<close>

abbreviation size_ok :: "nat \<Rightarrow> bool" where
  "size_ok n \<equiv> n \<le> 2 ^ 28"

lemma size_of_nat:
  assumes "size_ok n"
  shows "sint (of_nat n :: int32) = int n" "unat (of_nat n :: int32) = n" "of_nat n \<noteq> (-1 :: int32)"
    "\<not> of_nat n <s (0 :: int32)" "\<not> MAX_STRING_OR_ARRAY_SIZE <s of_nat n"
proof -
  have n: "int n < 2 ^ 31" using assms by simp
  show s: "sint (of_nat n :: int32) = int n"
    using n signed_take_bit_int_eq_self[of 31 "int n"] by (simp add: signed_of_nat)
  show "unat (of_nat n :: int32) = n" using assms by (simp add: unat_of_nat)
  show "of_nat n \<noteq> (-1 :: int32)" 
  proof
    assume "of_nat n = (-1 :: int32)"
    then have "sint (of_nat n :: int32) = -1" by simp
    then show False using s by simp
  qed
  show "\<not> of_nat n <s (0 :: int32)" using s by (simp add: word_sless_alt)
  show "\<not> MAX_STRING_OR_ARRAY_SIZE <s of_nat n"
    using s assms by (simp add: word_sless_alt MAX_STRING_OR_ARRAY_SIZE_def)
qed

lemma read_into_append [wire_simps]: "length s = length t \<Longrightarrow> read_into t (s @ rest) = Inr (s, rest)"
  by (simp add: read_into_def)

interpretation str: codec write_string read_string "\<lambda>s. size_ok (length s)"
proof unfold_locales
  fix s rest :: string
  assume "size_ok (length s)"
  from size_of_nat[OF this] show "read_string (write_string s @ rest) = Inr (s, rest)"
    by (simp add: read_string_def write_string_def wire_simps)
qed (intro consuming_intros)

text \<open>A vector of values of one codec is a codec.\<close>

lemma vector_codec:
  assumes "codec wr rd ok"
  shows "codec (write_vector wr) (read_vector rd) (\<lambda>xs. size_ok (length xs) \<and> (\<forall>x \<in> set xs. ok x))"
proof
  fix xs rest
  assume "size_ok (length xs) \<and> (\<forall>x \<in> set xs. ok x)"
  then show "read_vector rd (write_vector wr xs @ rest) = Inr (xs, rest)"
    using size_of_nat[of "length xs"] codec.elements_roundtrip[OF assms, of xs rest]
    by (simp add: read_vector_def write_vector_def wire_simps)
next
  show "consuming (read_vector rd)" by (intro consuming_intros codec.consumes[OF assms])
qed

lemmas str_roundtrip [wire_simps] = str.roundtrip

interpretation acl_io: codec write_ACL read_ACL "\<lambda>a. size_ok (length (scheme a)) \<and> size_ok (length (ident a))"
  by unfold_locales (simp add: write_ACL_def read_ACL_def wire_simps, intro consuming_intros)

interpretation auth_io: codec write_AuthID read_AuthID
    "\<lambda>a. size_ok (length (auth_scheme a)) \<and> size_ok (length (auth_ident a))"
  by unfold_locales (simp add: write_AuthID_def read_AuthID_def wire_simps, intro consuming_intros)

interpretation stat_io: codec write_Stat read_Stat "\<lambda>_. True"
  by unfold_locales (simp add: write_Stat_def read_Stat_def wire_simps, intro consuming_intros)

interpretation acls_io: codec "write_vector write_ACL" "read_vector read_ACL"
    "\<lambda>xs. size_ok (length xs) \<and> (\<forall>a \<in> set xs. size_ok (length (scheme a)) \<and> size_ok (length (ident a)))"
  by (rule vector_codec) (rule acl_io.codec_axioms)

interpretation strs_io: codec "write_vector write_string" "read_vector read_string"
    "\<lambda>xs. size_ok (length xs) \<and> (\<forall>s \<in> set xs. size_ok (length s))"
  by (rule vector_codec) (rule str.codec_axioms)

lemma array_roundtrip [wire_simps]:
  assumes "size_ok (length s)" "length init = length s"
  shows "read_array init (write_array s @ rest) = Inr (s, rest)"
  using assms size_of_nat[of "length s"] by (simp add: read_array_def write_array_def wire_simps)

lemmas record_roundtrip [wire_simps] =
  op.roundtrip[OF TrueI] err.roundtrip stat_io.roundtrip[OF TrueI] acls_io.roundtrip strs_io.roundtrip

section \<open>Short buffers\<close>

text \<open>A fixed-size value is read completely or not at all.\<close>

lemma short_int:
  "length inp < 8 \<Longrightarrow> read_int64 inp = Inl CANNOT_READ_ALL_DATA"
  "length inp < 4 \<Longrightarrow> read_int32 inp = Inl CANNOT_READ_ALL_DATA"
  "length inp < 4 \<Longrightarrow> read_OpNum inp = Inl CANNOT_READ_ALL_DATA"
  by (simp_all add: read_int64_def read_int32_def read_OpNum_def readStrict_def wire_simps)

text \<open>
  A string is not: \<open>read(std::string \&)\<close> calls \<open>in.read\<close>, which does not check how many bytes it
  copied, so that a truncated string is padded with zero bytes.
\<close>

lemma short_string:
  assumes "size_ok n" "length bs < n"
  shows "read_string (write_int32 (of_nat n) @ bs) = Inr (bs @ replicate (n - length bs) (CHR 0x00), [])"
  using assms size_of_nat[OF assms(1)] by (simp add: read_string_def read_into_def wire_simps)

section \<open>Exceptions of the readers\<close>

definition format_errors :: "exc set" where
  "format_errors = {CANNOT_READ_ALL_DATA, KEEPER_EXCEPTION ZMARSHALLINGERROR, KEEPER_EXCEPTION ZUNIMPLEMENTED,
     KEEPER_EXCEPTION ZBADARGUMENTS}"

definition fails_well :: "'a reader \<Rightarrow> bool" where
  "fails_well r \<longleftrightarrow> (\<forall>inp e. r inp = Inl e \<longrightarrow> e \<in> format_errors)"

named_theorems fails_intros \<open>readers that throw only format errors\<close>

lemma fails_wellD: "fails_well r \<Longrightarrow> r inp = Inl e \<Longrightarrow> e \<in> format_errors"
  by (simp add: fails_well_def)

lemma fails_rreturn [fails_intros]: "fails_well (rreturn x)"
  by (simp add: fails_well_def rreturn_def)

lemma fails_rthrow [fails_intros]: "e \<in> format_errors \<Longrightarrow> fails_well (rthrow e)"
  by (simp add: fails_well_def rthrow_def)

lemma format_errors_mem [fails_intros]:
  "CANNOT_READ_ALL_DATA \<in> format_errors" "KEEPER_EXCEPTION ZMARSHALLINGERROR \<in> format_errors"
  "KEEPER_EXCEPTION ZUNIMPLEMENTED \<in> format_errors" "KEEPER_EXCEPTION ZBADARGUMENTS \<in> format_errors"
  by (simp_all add: format_errors_def)

lemma fails_rbind [fails_intros]: "fails_well r \<Longrightarrow> (\<And>x. fails_well (f x)) \<Longrightarrow> fails_well (rbind r f)"
  by (auto simp: fails_well_def rbind_def split: sum.splits)

lemma fails_if [fails_intros]: "fails_well r \<Longrightarrow> fails_well t \<Longrightarrow> fails_well (if c then r else t)"
  by simp

lemma fails_bytes [fails_intros]: "fails_well (readStrict n)" "fails_well (read_into s)"
  by (auto simp: fails_well_def readStrict_def read_into_def format_errors_def)

lemma fails_read_elements [fails_intros]: "fails_well rd \<Longrightarrow> fails_well (read_elements rd n)"
  by (induction n) (auto intro: fails_intros)

lemma fails_OpNum [fails_intros]: "fails_well read_OpNum"
  unfolding read_OpNum_def read_int32_def
  by (intro fails_intros) (auto simp: fails_well_def getOpNum_of_raw_def format_errors_def split: sum.splits option.splits)

lemma fails_read [fails_intros]:
  "fails_well read_int64" "fails_well read_int32" "fails_well read_int8" "fails_well read_bool"
  "fails_well read_string" "fails_well read_Error" "fails_well read_ACL" "fails_well read_AuthID"
  "fails_well read_Stat" "fails_well (read_array s)"
  unfolding read_Stat_def read_ACL_def read_AuthID_def read_array_def read_string_def read_Error_def
    read_int64_def read_int32_def read_int8_def read_bool_def
  by (intro fails_intros)+

lemma fails_read_vector [fails_intros]: "fails_well rd \<Longrightarrow> fails_well (read_vector rd)"
  unfolding read_vector_def by (intro fails_intros)

end
