(* ===== verification/Wire_Requests.thy ===== *)
theory Wire_Requests
  imports Wire_IO
begin

text \<open>
  The serialisation of requests of \<open>src/src/Common/ZooKeeper/ZooKeeperCommon.cpp\<close>: \<open>writeImpl\<close> and
  \<open>readImpl\<close> of every request class, \<open>ZooKeeperRequest::write\<close> and \<open>read\<close>, and the request factory.
  The watch flag of a request is a field of the base class that only some classes transmit; it is
  passed beside the body. The main result is that a request is read back as it was written.
\<close>

unbundle bit_operations_syntax

section \<open>Writing\<close>

definition create_flags :: "bool \<Rightarrow> bool \<Rightarrow> int32" where
  "create_flags ephemeral sequential =
     (let flags = 0;
          flags = (if ephemeral then flags OR 1 else flags)
      in if sequential then flags OR 2 else flags)"

definition write_multi_header :: "OpNum \<Rightarrow> bool \<Rightarrow> int32 \<Rightarrow> string" where
  "write_multi_header op_num finished err = write_OpNum op_num @ write_bool finished @ write_int32 err"

fun body_writeImpl :: "bool \<Rightarrow> request_body \<Rightarrow> string" where
  "body_writeImpl watch HeartbeatRequest = []"
| "body_writeImpl watch CloseRequest = []"
| "body_writeImpl watch (SyncRequest path) = write_string path"
| "body_writeImpl watch (AuthRequest type sch dat) = write_int32 type @ write_string sch @ write_string dat"
| "body_writeImpl watch (CreateRequest path dat ephemeral sequential acls) =
     write_string path @ write_string dat @ write_vector write_ACL acls
     @ write_int32 (create_flags ephemeral sequential)"
| "body_writeImpl watch (RemoveRequest path ver) = write_string path @ write_int32 ver"
| "body_writeImpl watch (ExistsRequest path) = write_string path @ write_bool watch"
| "body_writeImpl watch (GetRequest path) = write_string path @ write_bool watch"
| "body_writeImpl watch (SetRequest path dat ver) = write_string path @ write_string dat @ write_int32 ver"
| "body_writeImpl watch (ListRequest path) = write_string path @ write_bool watch"
| "body_writeImpl watch (SimpleListRequest path) = write_string path @ write_bool watch"
| "body_writeImpl watch (SetACLRequest path acls ver) =
     write_string path @ write_vector write_ACL acls @ write_int32 ver"
| "body_writeImpl watch (GetACLRequest path) = write_string path"
| "body_writeImpl watch (CheckRequest path ver) = write_string path @ write_int32 ver"
| "body_writeImpl watch (MultiRequest rs) =
     concat (map (\<lambda>r. write_multi_header (getOpNum r) False (-1) @ body_writeImpl (has_watch r) (req_body r)) rs)
     @ write_multi_header Op_Error True (-1)"
| "body_writeImpl watch (SetSeqNumRequest path seq_num) = write_string path @ write_int32 seq_num"
| "body_writeImpl watch (SetWatchesRequest relative_zxid dw ew lw) =
     write_int64 relative_zxid @ write_vector write_string dw @ write_vector write_string ew
     @ write_vector write_string lw"
| "body_writeImpl watch (SessionIDRequest internal_id timeout server_id) =
     write_int64 internal_id @ write_int64 timeout @ write_int32 server_id"

definition request_write :: "request \<Rightarrow> string" where
  "request_write r =
     write_string (write_int32 (req_xid r) @ write_OpNum (getOpNum r) @ body_writeImpl (has_watch r) (req_body r))"

section \<open>Reading\<close>

definition read_multi_header :: "(OpNum \<times> bool \<times> int32) reader" where
  "read_multi_header = rbind read_OpNum (\<lambda>op_num. rbind read_bool (\<lambda>finished. rbind read_int32 (\<lambda>err.
     rreturn (op_num, finished, err))))"

text \<open>
  \<open>readImpl\<close> of the classes other than the multi request, on the object that the factory has just
  made for an operation number; the multi request and \<open>Op_Error\<close>, which has no class, are treated
  in \<open>request_readImpl\<close>. The result is the watch flag and the body.
\<close>

fun simple_readImpl :: "OpNum \<Rightarrow> (bool \<times> request_body) reader" where
  "simple_readImpl Op_Heartbeat = rreturn (False, HeartbeatRequest)"
| "simple_readImpl Op_Close = rreturn (False, CloseRequest)"
| "simple_readImpl Op_Sync = rbind read_string (\<lambda>path. rreturn (False, SyncRequest path))"
| "simple_readImpl Op_Auth = rbind read_int32 (\<lambda>type. rbind read_string (\<lambda>sch. rbind read_string (\<lambda>dat.
     rreturn (False, AuthRequest type sch dat))))"
| "simple_readImpl Op_Create = rbind read_string (\<lambda>path. rbind read_string (\<lambda>dat.
     rbind (read_vector read_ACL) (\<lambda>acls. rbind read_int32 (\<lambda>flags.
     rreturn (False, CreateRequest path dat (flags AND 1 \<noteq> 0) (flags AND 2 \<noteq> 0) acls)))))"
| "simple_readImpl Op_Remove = rbind read_string (\<lambda>path. rbind read_int32 (\<lambda>ver.
     rreturn (False, RemoveRequest path ver)))"
| "simple_readImpl Op_Exists = rbind read_string (\<lambda>path. rbind read_bool (\<lambda>watch.
     rreturn (watch, ExistsRequest path)))"
| "simple_readImpl Op_Get = rbind read_string (\<lambda>path. rbind read_bool (\<lambda>watch.
     rreturn (watch, GetRequest path)))"
| "simple_readImpl Op_Set = rbind read_string (\<lambda>path. rbind read_string (\<lambda>dat. rbind read_int32 (\<lambda>ver.
     rreturn (False, SetRequest path dat ver))))"
| "simple_readImpl Op_List = rbind read_string (\<lambda>path. rbind read_bool (\<lambda>watch.
     rreturn (watch, ListRequest path)))"
| "simple_readImpl Op_SimpleList = rbind read_string (\<lambda>path. rbind read_bool (\<lambda>watch.
     rreturn (watch, SimpleListRequest path)))"
| "simple_readImpl Op_SetACL = rbind read_string (\<lambda>path. rbind (read_vector read_ACL) (\<lambda>acls.
     rbind read_int32 (\<lambda>ver. rreturn (False, SetACLRequest path acls ver))))"
| "simple_readImpl Op_GetACL = rbind read_string (\<lambda>path. rreturn (False, GetACLRequest path))"
| "simple_readImpl Op_Check = rbind read_string (\<lambda>path. rbind read_int32 (\<lambda>ver.
     rreturn (False, CheckRequest path ver)))"
| "simple_readImpl Op_SetSeqNum = rbind read_string (\<lambda>path. rbind read_int32 (\<lambda>seq_num.
     rreturn (False, SetSeqNumRequest path seq_num)))"
| "simple_readImpl Op_SetWatches = rbind read_int64 (\<lambda>relative_zxid. rbind (read_vector read_string) (\<lambda>dw.
     rbind (read_vector read_string) (\<lambda>ew. rbind (read_vector read_string) (\<lambda>lw.
     rreturn (False, SetWatchesRequest relative_zxid dw ew lw)))))"
| "simple_readImpl Op_SessionID = rbind read_int64 (\<lambda>internal_id. rbind read_int64 (\<lambda>timeout.
     rbind read_int32 (\<lambda>server_id. rreturn (False, SessionIDRequest internal_id timeout server_id))))"
| "simple_readImpl Op_Multi = rthrow LOGICAL_ERROR"
| "simple_readImpl Op_Error = rthrow (KEEPER_EXCEPTION ZBADARGUMENTS)"

lemma consuming_multi_header [consuming_intros]: "consuming read_multi_header"
  unfolding read_multi_header_def by (intro consuming_intros)

lemma consuming_simple_readImpl [consuming_intros]: "consuming (simple_readImpl op_num)"
  by (cases op_num; simp only: simple_readImpl.simps; intro consuming_intros)

lemma multi_header_length: "read_multi_header inp = Inr (h, rest) \<Longrightarrow> length rest < length inp"
  by (auto simp: read_multi_header_def read_OpNum_def read_bool_def read_int32_def readStrict_def reader_defs
      split: sum.splits if_splits) arith

text \<open>
  The loop of \<open>ZooKeeperMultiRequest::readImpl\<close>, which calls the factory and \<open>readImpl\<close> of the
  parts, among them nested multi requests. The test that a part has not lengthened the buffer makes
  the recursion evidently terminate; it never fails, as \<open>request_readImpl_consuming\<close> shows.
\<close>

function (sequential) request_readImpl :: "OpNum \<Rightarrow> string \<Rightarrow> exc + (bool \<times> request_body) \<times> string"
  and multi_readImpl :: "string \<Rightarrow> exc + request list \<times> string" where
  "request_readImpl Op_Multi inp =
     (case multi_readImpl inp of Inl e \<Rightarrow> Inl e | Inr (rs, rest) \<Rightarrow> Inr ((False, MultiRequest rs), rest))"
| "request_readImpl op_num inp = simple_readImpl op_num inp"
| "multi_readImpl inp =
     (case read_multi_header inp of
        Inl e \<Rightarrow> Inl e
      | Inr ((op_num, finished, err), in1) \<Rightarrow>
          if finished then
            if op_num \<noteq> Op_Error then Inl (KEEPER_EXCEPTION ZMARSHALLINGERROR)
            else if err \<noteq> -1 then Inl (KEEPER_EXCEPTION ZMARSHALLINGERROR)
            else Inr ([], in1)
          else
            (case request_readImpl op_num in1 of
               Inl e \<Rightarrow> Inl e
             | Inr ((watch, b), in2) \<Rightarrow>
                 if in2 = [] \<or> length in1 < length in2 then Inl (KEEPER_EXCEPTION ZMARSHALLINGERROR)
                 else (case multi_readImpl in2 of
                         Inl e \<Rightarrow> Inl e
                       | Inr (rs, rest) \<Rightarrow> Inr (Request 0 watch b # rs, rest))))"
  by pat_completeness auto
termination
  by (relation "measure (\<lambda>x. case x of Inl (op_num, inp) \<Rightarrow> 2 * length inp + 1 | Inr inp \<Rightarrow> 2 * length inp)")
    (auto dest!: multi_header_length)

declare multi_readImpl.simps [simp del]

definition request_read :: "request reader" where
  "request_read = rbind read_int32 (\<lambda>xid. rbind read_OpNum (\<lambda>op_num.
     rbind (request_readImpl op_num) (\<lambda>(watch, b). rreturn (Request xid watch b))))"

section \<open>Readers consume a prefix\<close>

lemma request_readImpl_consuming:
  "request_readImpl op_num inp = Inr (x, rest) \<Longrightarrow> \<exists>pre. inp = pre @ rest"
  "multi_readImpl inp' = Inr (rs, rest') \<Longrightarrow> \<exists>pre. inp' = pre @ rest'"
proof (induction op_num inp and inp' arbitrary: x rest and rs rest' rule: request_readImpl_multi_readImpl.induct)
  case (1 inp)
  then show ?case by (auto split: sum.splits)
next
  case (3 inp)
  show ?case
  proof (cases "read_multi_header inp")
    case (Inr a)
    obtain op_num finished err in1 where a: "a = ((op_num, finished, err), in1)" by (metis surj_pair)
    obtain pre where pre: "inp = pre @ in1" using consumingD[OF consuming_multi_header] Inr a by blast
    show ?thesis
    proof (cases finished)
      case True
      then have "in1 = rest'" using 3(3) Inr a by (auto simp: multi_readImpl.simps[of inp] split: if_splits)
      then show ?thesis using pre by blast
    next
      case False
      obtain watch b in2 rs' where part: "request_readImpl op_num in1 = Inr ((watch, b), in2)"
        and ok: "\<not> (in2 = [] \<or> length in1 < length in2)" and loop: "multi_readImpl in2 = Inr (rs', rest')"
        using 3(3) Inr a False by (auto simp: multi_readImpl.simps[of inp] split: sum.splits if_splits)
      obtain pre1 where "in1 = pre1 @ in2" using 3(1)[OF Inr a[symmetric] refl refl False part] by blast
      moreover obtain pre2 where "in2 = pre2 @ rest'"
        using 3(2)[OF Inr a[symmetric] refl refl False part refl refl ok loop] by blast
      ultimately show ?thesis using pre by simp
    qed
  qed (use 3(3) in \<open>simp add: multi_readImpl.simps[of inp]\<close>)
qed (simp_all only: request_readImpl.simps consumingD[OF consuming_simple_readImpl])

section \<open>Exceptions\<close>

lemma fails_simple_readImpl:
  assumes "op_num \<noteq> Op_Multi"
  shows "fails_well (simple_readImpl op_num)"
  using assms by (cases op_num; simp only: simple_readImpl.simps; intro fails_intros; simp)

lemma fails_multi_header: "fails_well read_multi_header"
  unfolding read_multi_header_def by (intro fails_intros)

lemma request_readImpl_fails:
  "request_readImpl op_num inp = Inl e \<Longrightarrow> e \<in> format_errors"
  "multi_readImpl inp' = Inl e' \<Longrightarrow> e' \<in> format_errors"
proof (induction op_num inp and inp' arbitrary: e and e' rule: request_readImpl_multi_readImpl.induct)
  case (3 inp)
  note fails_wellD[OF fails_multi_header, dest]
  show ?case
  proof (cases "read_multi_header inp")
    case (Inr a)
    obtain op_num finished err in1 where a: "a = ((op_num, finished, err), in1)" by (metis surj_pair)
    show ?thesis
    proof (cases "finished \<or> (\<exists>x. request_readImpl op_num in1 = Inl x)")
      case True
      then show ?thesis using 3(1)[OF Inr a[symmetric] refl refl] 3(3) Inr a
        by (auto simp: multi_readImpl.simps[of inp] format_errors_def split: if_splits)
    next
      case False
      then obtain watch b in2 where "\<not> finished" "request_readImpl op_num in1 = Inr ((watch, b), in2)"
        by (cases "request_readImpl op_num in1") (auto dest: that)
      then show ?thesis using 3(2)[OF Inr a[symmetric] refl refl] 3(3) Inr a
        by (auto simp: multi_readImpl.simps[of inp] format_errors_def split: if_splits sum.splits)
    qed
  qed (use 3(3) in \<open>auto simp: multi_readImpl.simps[of inp]\<close>)
next
  case (1 inp)
  then show ?case by (auto split: sum.splits)
qed (auto simp del: simple_readImpl.simps dest: fails_wellD[OF fails_simple_readImpl, rotated])

section \<open>Round trip\<close>

text \<open>
  The requests that the format can carry: strings and vectors within the limit the reader accepts,
  the watch flag only where it is transmitted, and parts of a multi request without an xid.
\<close>

abbreviation acls_ok :: "ACLs \<Rightarrow> bool" where
  "acls_ok xs \<equiv> size_ok (length xs) \<and> (\<forall>a \<in> set xs. size_ok (length (scheme a)) \<and> size_ok (length (ident a)))"

abbreviation strings_ok :: "string list \<Rightarrow> bool" where
  "strings_ok xs \<equiv> size_ok (length xs) \<and> (\<forall>s \<in> set xs. size_ok (length s))"

fun body_ok :: "bool \<Rightarrow> request_body \<Rightarrow> bool" where
  "body_ok watch (ExistsRequest path) = size_ok (length path)"
| "body_ok watch (GetRequest path) = size_ok (length path)"
| "body_ok watch (ListRequest path) = size_ok (length path)"
| "body_ok watch (SimpleListRequest path) = size_ok (length path)"
| "body_ok watch HeartbeatRequest = (\<not> watch)"
| "body_ok watch CloseRequest = (\<not> watch)"
| "body_ok watch (SyncRequest path) = (\<not> watch \<and> size_ok (length path))"
| "body_ok watch (AuthRequest type sch dat) = (\<not> watch \<and> size_ok (length sch) \<and> size_ok (length dat))"
| "body_ok watch (CreateRequest path dat ephemeral sequential acls) =
     (\<not> watch \<and> size_ok (length path) \<and> size_ok (length dat) \<and> acls_ok acls)"
| "body_ok watch (RemoveRequest path ver) = (\<not> watch \<and> size_ok (length path))"
| "body_ok watch (SetRequest path dat ver) = (\<not> watch \<and> size_ok (length path) \<and> size_ok (length dat))"
| "body_ok watch (SetACLRequest path acls ver) = (\<not> watch \<and> size_ok (length path) \<and> acls_ok acls)"
| "body_ok watch (GetACLRequest path) = (\<not> watch \<and> size_ok (length path))"
| "body_ok watch (CheckRequest path ver) = (\<not> watch \<and> size_ok (length path))"
| "body_ok watch (MultiRequest rs) =
     (\<not> watch \<and> (\<forall>r \<in> set rs. req_xid r = 0 \<and> body_ok (has_watch r) (req_body r)))"
| "body_ok watch (SetSeqNumRequest path seq_num) = (\<not> watch \<and> size_ok (length path))"
| "body_ok watch (SetWatchesRequest relative_zxid dw ew lw) =
     (\<not> watch \<and> strings_ok dw \<and> strings_ok ew \<and> strings_ok lw)"
| "body_ok watch (SessionIDRequest internal_id timeout server_id) = (\<not> watch)"

lemma create_flags_bits [wire_simps]:
  "create_flags e s AND 1 \<noteq> 0 \<longleftrightarrow> e" "create_flags e s AND 2 \<noteq> 0 \<longleftrightarrow> s"
  by (cases e; cases s; simp add: create_flags_def)+

lemma multi_header_roundtrip [wire_simps]:
  "read_multi_header (write_multi_header op_num finished err @ rest) = Inr ((op_num, finished, err), rest)"
  by (simp add: read_multi_header_def write_multi_header_def wire_simps)

lemma write_multi_header_nonempty [simp]: "write_multi_header op_num finished err \<noteq> []"
  by (simp add: write_multi_header_def write_OpNum_def write_bool_def)

lemma multi_roundtrip:
  assumes "\<forall>r \<in> set rs. req_xid r = 0 \<and>
    (\<forall>rest. request_readImpl (getOpNum r) (body_writeImpl (has_watch r) (req_body r) @ rest) =
      Inr ((has_watch r, req_body r), rest))"
  shows "multi_readImpl
      (concat (map (\<lambda>r. write_multi_header (getOpNum r) False (-1) @ body_writeImpl (has_watch r) (req_body r)) rs)
       @ write_multi_header Op_Error True (-1) @ rest) = Inr (rs, rest)"
  using assms
proof (induction rs)
  case Nil
  show ?case by (subst multi_readImpl.simps) (simp add: multi_header_roundtrip)
next
  case (Cons r rs)
  let ?tail = "concat (map (\<lambda>r. write_multi_header (getOpNum r) False (-1)
      @ body_writeImpl (has_watch r) (req_body r)) rs) @ write_multi_header Op_Error True (-1) @ rest"
  have "request_readImpl (getOpNum r) (body_writeImpl (has_watch r) (req_body r) @ ?tail) =
      Inr ((has_watch r, req_body r), ?tail)" "req_xid r = 0"
    using Cons.prems by simp_all
  moreover have "multi_readImpl ?tail = Inr (rs, rest)" using Cons by simp
  ultimately show ?case
    by (cases r, subst multi_readImpl.simps) (simp add: multi_header_roundtrip)
qed

lemma body_roundtrip:
  "body_ok watch b \<Longrightarrow> request_readImpl (body_getOpNum b) (body_writeImpl watch b @ rest) = Inr ((watch, b), rest)"
proof (induction watch b arbitrary: rest rule: body_writeImpl.induct)
  case (15 watch rs)
  have "\<forall>r \<in> set rs. req_xid r = 0 \<and>
    (\<forall>rest. request_readImpl (getOpNum r) (body_writeImpl (has_watch r) (req_body r) @ rest) =
      Inr ((has_watch r, req_body r), rest))"
    using 15 by (simp add: getOpNum_def)
  from multi_roundtrip[OF this] 15(2) show ?case by simp
qed (simp_all add: wire_simps)

lemma consuming_request_read [consuming_intros]: "consuming request_read"
  unfolding request_read_def consuming_def
  using consumingD[OF consuming_read(2)] consumingD[OF consuming_OpNum] request_readImpl_consuming(1)
  by (auto simp: reader_defs split: sum.splits) (metis append_assoc)

text \<open>The frame of a request without the length that \<open>write\<close> puts before it.\<close>

definition request_payload :: "request \<Rightarrow> string" where
  "request_payload r = write_int32 (req_xid r) @ write_OpNum (getOpNum r) @ body_writeImpl (has_watch r) (req_body r)"

interpretation req_io: codec request_payload request_read "\<lambda>r. body_ok (has_watch r) (req_body r)"
proof unfold_locales
  fix r rest
  assume "body_ok (has_watch r) (req_body r)"
  from body_roundtrip[OF this, of rest] show "request_read (request_payload r @ rest) = Inr (r, rest)"
    by (cases r) (simp add: request_read_def request_payload_def getOpNum_def wire_simps)
qed (rule consuming_request_read)

lemma request_write_payload: "request_write r = write_string (request_payload r)"
  by (simp add: request_write_def request_payload_def)

text \<open>
  C17. Every request that the format can carry is read back from its frame exactly as it was written:
  the frame is the length and the payload, and reading the payload gives the request, whatever
  follows it. In particular two different requests never have the same frame.
\<close>

theorem request_roundtrip:
  assumes "body_ok (has_watch r) (req_body r)" "size_ok (length (request_payload r))"
  shows "rbind read_string (\<lambda>p. case request_read p of Inl e \<Rightarrow> rthrow e | Inr (q, rest) \<Rightarrow> rreturn (q, rest))
      (request_write r @ tail_bytes) = Inr ((r, []), tail_bytes)"
  using req_io.roundtrip[OF assms(1), of "[]"] str.roundtrip[OF assms(2), of tail_bytes]
  by (simp add: request_write_payload wire_simps)

definition sample_request :: request where
  "sample_request = Request 7 False (MultiRequest
     [Request 0 False (CreateRequest ''/a'' ''x'' True False
        [\<lparr>permissions = 31, scheme = ''world'', ident = ''anyone''\<rparr>]),
      Request 0 False (CheckRequest ''/b'' 3)])"

theorem request_roundtrip_witness:
  "rbind read_string (\<lambda>p. case request_read p of Inl e \<Rightarrow> rthrow e | Inr (q, rest) \<Rightarrow> rreturn (q, rest))
     (request_write sample_request @ ''z'') = Inr ((sample_request, []), ''z'')"
  by (rule request_roundtrip)
    (simp_all add: sample_request_def request_payload_def write_string_def write_vector_def write_ACL_def
      write_multi_header_def write_OpNum_def getOpNum_def)


end
