(* ===== verification/Wire_Responses.thy ===== *)
theory Wire_Responses
  imports Wire_Requests
begin

text \<open>
  The serialisation of responses of \<open>src/src/Common/ZooKeeper/ZooKeeperCommon.cpp\<close>. The server
  writes with \<open>ZooKeeperResponse::write\<close>; the client reads into the object that \<open>makeResponse\<close> of
  its request gave, the template, whose class decides how the bytes are read. The error of a
  response is a field of the base class; it is passed beside the body, because the readers of the
  multi response and of the error response use it.
\<close>

section \<open>Writing\<close>

lemma size_resp_body_less [termination_simp]: "size (resp_body r) < size r"
  by (cases r) simp

fun response_writeImpl :: "Error \<Rightarrow> response_body \<Rightarrow> exc + string"
  and multi_response_writeImpl :: "response list \<Rightarrow> exc + string" where
  "response_writeImpl err (SyncResponse path) = Inr (write_string path)"
| "response_writeImpl err (WatchResponse type st path) = Inr (write_int32 type @ write_int32 st @ write_string path)"
| "response_writeImpl err (CreateResponse path_created) = Inr (write_string path_created)"
| "response_writeImpl err (ExistsResponse s) = Inr (write_Stat s)"
| "response_writeImpl err (GetResponse dat s) = Inr (write_string dat @ write_Stat s)"
| "response_writeImpl err (SetResponse s) = Inr (write_Stat s)"
| "response_writeImpl err (ListResponse names s) = Inr (write_vector write_string names @ write_Stat s)"
| "response_writeImpl err (SimpleListResponse names s) = Inr (write_vector write_string names @ write_Stat s)"
| "response_writeImpl err (SetACLResponse s) = Inr (write_Stat s)"
| "response_writeImpl err (GetACLResponse acl s) = Inr (write_vector write_ACL acl @ write_Stat s)"
| "response_writeImpl err ErrorResponse = Inr (write_Error err)"
| "response_writeImpl err (SessionIDResponse internal_id session_id server_id) =
     Inr (write_int64 internal_id @ write_int64 session_id @ write_int32 server_id)"
| "response_writeImpl err (MultiResponse rs) = multi_response_writeImpl rs"
| "response_writeImpl err HeartbeatResponse = Inr []"
| "response_writeImpl err SetWatchesResponse = Inr []"
| "response_writeImpl err AuthResponse = Inr []"
| "response_writeImpl err CloseResponse = Inr []"
| "response_writeImpl err RemoveResponse = Inr []"
| "response_writeImpl err CheckResponse = Inr []"
| "response_writeImpl err SetSeqNumResponse = Inr []"
| "multi_response_writeImpl [] = Inr (write_multi_header Op_Error True (-1))"
| "multi_response_writeImpl (r # rs) =
     (case response_getOpNum (resp_body r) of
        Inl e \<Rightarrow> Inl e
      | Inr op_num \<Rightarrow>
          (case (if resp_error r = ZOK \<or> op_num = Op_Error
                 then response_writeImpl (resp_error r) (resp_body r) else Inr []) of
             Inl e \<Rightarrow> Inl e
           | Inr bytes \<Rightarrow>
               (case multi_response_writeImpl rs of
                  Inl e \<Rightarrow> Inl e
                | Inr others \<Rightarrow>
                    Inr (write_OpNum op_num @ write_bool False @ write_Error (resp_error r) @ bytes @ others))))"

text \<open>\<open>ZooKeeperResponse::write\<close>, overridden for watch responses, of which bad ones are skipped.\<close>

definition base_response_write :: "response \<Rightarrow> exc + string" where
  "base_response_write r =
     (case (if resp_error r = ZOK then response_writeImpl (resp_error r) (resp_body r) else Inr []) of
        Inl e \<Rightarrow> Inl e
      | Inr bytes \<Rightarrow>
          Inr (write_string (write_int32 (resp_xid r) @ write_int64 (resp_zxid r) @ write_Error (resp_error r) @ bytes)))"

definition response_write :: "response \<Rightarrow> exc + string" where
  "response_write r =
     (case resp_body r of
        WatchResponse _ _ _ \<Rightarrow> if resp_error r = ZOK then base_response_write r else Inr []
      | _ \<Rightarrow> base_response_write r)"

section \<open>Reading\<close>

definition read_part_header :: "(OpNum \<times> bool \<times> Error) reader" where
  "read_part_header = rbind read_OpNum (\<lambda>op_num. rbind read_bool (\<lambda>finished. rbind read_Error (\<lambda>err.
     rreturn (op_num, finished, err))))"

definition read_multi_footer :: "unit reader" where
  "read_multi_footer = rbind read_multi_header (\<lambda>(op_num, finished, err).
     if \<not> finished then rthrow (KEEPER_EXCEPTION ZMARSHALLINGERROR)
     else if op_num \<noteq> Op_Error then rthrow (KEEPER_EXCEPTION ZMARSHALLINGERROR)
     else if err \<noteq> -1 then rthrow (KEEPER_EXCEPTION ZMARSHALLINGERROR)
     else rreturn ())"

text \<open>
  The part of the loop body of \<open>ZooKeeperMultiResponse::readImpl\<close> before the part is read: which
  object is read into, and the error of the whole response.
\<close>

definition part_object :: "OpNum \<Rightarrow> Error \<Rightarrow> response \<Rightarrow> response" where
  "part_object op_num op_error r =
     (let r' = (if op_num = Op_Error then new_response ErrorResponse else r)
      in if op_error \<noteq> ZOK
         then Response op_error (resp_xid r') (resp_zxid r') (resp_created r') (resp_body r') else r')"

definition overall_error :: "Error \<Rightarrow> Error \<Rightarrow> Error" where
  "overall_error err op_error =
     (if op_error \<noteq> ZOK \<and> err = ZOK \<and> op_error \<noteq> ZRUNTIMEINCONSISTENCY then op_error else err)"

lemma size_part_object [termination_simp]:
  "size (resp_body (part_object op_num op_error r)) < Suc (size r + k)"
  by (cases r) (simp add: part_object_def new_response_def Let_def)

fun response_readImpl :: "Error \<Rightarrow> response_body \<Rightarrow> (Error \<times> response_body) reader"
  and multi_response_readImpl :: "Error \<Rightarrow> response list \<Rightarrow> (Error \<times> response list) reader" where
  "response_readImpl err (SyncResponse _) = rbind read_string (\<lambda>path. rreturn (err, SyncResponse path))"
| "response_readImpl err (WatchResponse _ _ _) = rbind read_int32 (\<lambda>type. rbind read_int32 (\<lambda>st.
     rbind read_string (\<lambda>path. rreturn (err, WatchResponse type st path))))"
| "response_readImpl err (CreateResponse _) = rbind read_string (\<lambda>path. rreturn (err, CreateResponse path))"
| "response_readImpl err (ExistsResponse _) = rbind read_Stat (\<lambda>s. rreturn (err, ExistsResponse s))"
| "response_readImpl err (GetResponse _ _) = rbind read_string (\<lambda>dat. rbind read_Stat (\<lambda>s.
     rreturn (err, GetResponse dat s)))"
| "response_readImpl err (SetResponse _) = rbind read_Stat (\<lambda>s. rreturn (err, SetResponse s))"
| "response_readImpl err (ListResponse _ _) = rbind (read_vector read_string) (\<lambda>names. rbind read_Stat (\<lambda>s.
     rreturn (err, ListResponse names s)))"
| "response_readImpl err (SimpleListResponse _ _) = rbind (read_vector read_string) (\<lambda>names. rbind read_Stat (\<lambda>s.
     rreturn (err, SimpleListResponse names s)))"
| "response_readImpl err (SetACLResponse _) = rbind read_Stat (\<lambda>s. rreturn (err, SetACLResponse s))"
| "response_readImpl err (GetACLResponse _ _) = rbind (read_vector read_ACL) (\<lambda>acl. rbind read_Stat (\<lambda>s.
     rreturn (err, GetACLResponse acl s)))"
| "response_readImpl err ErrorResponse = rbind read_Error (\<lambda>read_error.
     if read_error \<noteq> err then rthrow (KEEPER_EXCEPTION ZMARSHALLINGERROR) else rreturn (err, ErrorResponse))"
| "response_readImpl err (SessionIDResponse _ _ _) = rbind read_int64 (\<lambda>internal_id. rbind read_int64 (\<lambda>session_id.
     rbind read_int32 (\<lambda>server_id. rreturn (err, SessionIDResponse internal_id session_id server_id))))"
| "response_readImpl err (MultiResponse rs) = rbind (multi_response_readImpl err rs) (\<lambda>(err', rs').
     rreturn (err', MultiResponse rs'))"
| "response_readImpl err CloseResponse = rthrow (KEEPER_EXCEPTION ZRUNTIMEINCONSISTENCY)"
| "response_readImpl err HeartbeatResponse = rreturn (err, HeartbeatResponse)"
| "response_readImpl err SetWatchesResponse = rreturn (err, SetWatchesResponse)"
| "response_readImpl err AuthResponse = rreturn (err, AuthResponse)"
| "response_readImpl err RemoveResponse = rreturn (err, RemoveResponse)"
| "response_readImpl err CheckResponse = rreturn (err, CheckResponse)"
| "response_readImpl err SetSeqNumResponse = rreturn (err, SetSeqNumResponse)"
| "multi_response_readImpl err [] = rbind read_multi_footer (\<lambda>_. rreturn (err, []))"
| "multi_response_readImpl err (r # rs) = rbind read_part_header (\<lambda>(op_num, finished, op_error).
     if finished then rthrow (KEEPER_EXCEPTION ZMARSHALLINGERROR)
     else
       let q = part_object op_num op_error r in
       rbind (if op_error = ZOK \<or> op_num = Op_Error then response_readImpl (resp_error q) (resp_body q)
              else rreturn (resp_error q, resp_body q)) (\<lambda>(e, b).
       rbind (multi_response_readImpl (overall_error err op_error) rs) (\<lambda>(err', rs').
       rreturn (err', Response e (resp_xid q) (resp_zxid q) (resp_created q) b # rs'))))"

section \<open>Round trip\<close>

text \<open>
  A body that is read into a template of its own class. The parts of a multi response are error
  responses, as the server makes them when a part fails, or successful responses of the class of
  their request.
\<close>

fun reads_into :: "response_body \<Rightarrow> response_body \<Rightarrow> bool" where
  "reads_into (SyncResponse path) t = (\<exists>p. t = SyncResponse p \<and> size_ok (length path))"
| "reads_into (WatchResponse type st path) t = (\<exists>a b c. t = WatchResponse a b c \<and> size_ok (length path))"
| "reads_into (CreateResponse path) t = (\<exists>p. t = CreateResponse p \<and> size_ok (length path))"
| "reads_into (ExistsResponse s) t = (\<exists>a. t = ExistsResponse a)"
| "reads_into (GetResponse dat s) t = (\<exists>a b. t = GetResponse a b \<and> size_ok (length dat))"
| "reads_into (SetResponse s) t = (\<exists>a. t = SetResponse a)"
| "reads_into (ListResponse names s) t = (\<exists>a b. t = ListResponse a b \<and> strings_ok names)"
| "reads_into (SimpleListResponse names s) t = (\<exists>a b. t = SimpleListResponse a b \<and> strings_ok names)"
| "reads_into (SetACLResponse s) t = (\<exists>a. t = SetACLResponse a)"
| "reads_into (GetACLResponse acl s) t = (\<exists>a b. t = GetACLResponse a b \<and> acls_ok acl)"
| "reads_into (SessionIDResponse i s v) t = (\<exists>a b c. t = SessionIDResponse a b c)"
| "reads_into CloseResponse t = False"
| "reads_into ErrorResponse t = False"
| "reads_into (MultiResponse rs) t = False"
| "reads_into b t = (t = b)"

lemma simple_response_roundtrip:
  assumes "reads_into b t"
  obtains bytes where "response_writeImpl err b = Inr bytes"
    "\<And>rest. response_readImpl err' t (bytes @ rest) = Inr ((err', b), rest)"
  using assms by (cases b) (auto simp: wire_simps)

definition part_ok :: "response \<Rightarrow> response \<Rightarrow> bool" where
  "part_ok r t \<longleftrightarrow> (\<exists>e b. r = Response e 0 0 0 b \<and> named_error e \<and> \<not> (\<exists>x y z. b = WatchResponse x y z)
     \<and> (b = ErrorResponse \<or> (e = ZOK \<and> (\<exists>t'. t = new_response t' \<and> reads_into b t'))))"

lemma reads_into_opnum:
  assumes "reads_into b t" "\<not> (\<exists>x y z. b = WatchResponse x y z)"
  obtains op_num where "response_getOpNum b = Inr op_num" "op_num \<noteq> Op_Error"
  using assms by (cases b) auto

lemma footer_roundtrip: "read_multi_footer (write_multi_header Op_Error True (-1) @ rest) = Inr ((), rest)"
  by (simp add: read_multi_footer_def wire_simps)

lemma part_header_roundtrip:
  "named_error e \<Longrightarrow> read_part_header (write_OpNum op_num @ write_bool fin @ write_Error e @ rest) = Inr ((op_num, fin, e), rest)"
  by (simp add: read_part_header_def wire_simps)

lemma multi_response_roundtrip:
  assumes "list_all2 part_ok rs ts"
  shows "\<exists>bytes. multi_response_writeImpl rs = Inr bytes \<and> (\<forall>err rest.
    multi_response_readImpl err ts (bytes @ rest) = Inr ((foldl overall_error err (map resp_error rs), rs), rest))"
  using assms
proof (induction rule: list_all2_induct)
  case Nil
  then show ?case by (simp add: rbind_def rreturn_def footer_roundtrip)
next
  case (Cons r rs t ts)
  from Cons.IH obtain others where others: "multi_response_writeImpl rs = Inr others"
    "\<And>err rest. multi_response_readImpl err ts (others @ rest) =
       Inr ((foldl overall_error err (map resp_error rs), rs), rest)" by blast
  from Cons.hyps(1) obtain e b where r: "r = Response e 0 0 0 b" and e: "named_error e"
    and w: "\<not> (\<exists>x y z. b = WatchResponse x y z)"
    and b: "b = ErrorResponse \<or> (e = ZOK \<and> (\<exists>t'. t = new_response t' \<and> reads_into b t'))"
    unfolding part_ok_def by blast
  show ?case
  proof (cases "b = ErrorResponse")
    case True
    have "\<And>rest. read_Error (write_Error e @ rest) = Inr (e, rest)" using err.roundtrip[OF e] .
    with True r e others show ?thesis
      by (cases "e = ZOK") (simp_all add: reader_defs part_header_roundtrip part_object_def new_response_def Let_def)
  next
    case False
    with b obtain t' where t: "e = ZOK" "t = new_response t'" "reads_into b t'" by blast
    obtain op_num where op: "response_getOpNum b = Inr op_num" "op_num \<noteq> Op_Error"
      using reads_into_opnum[OF t(3) w] by blast
    obtain bytes where bytes: "response_writeImpl ZOK b = Inr bytes"
      "\<And>rest. response_readImpl ZOK t' (bytes @ rest) = Inr ((ZOK, b), rest)"
      using simple_response_roundtrip[OF t(3)] by metis
    from r e others t op bytes show ?thesis
      by (simp add: rbind_def rreturn_def part_header_roundtrip part_object_def new_response_def Let_def)
  qed
qed

end
