(* ===== verification/Store_Wire.thy ===== *)
theory Store_Wire
  imports Store_Theorems Wire_Responses
begin

text \<open>
  The store and the wire format together: the answer of the store to a multi request, written by
  the server and read by the client into the template of its request, is what the store answered,
  and the client sees the error of the first part that failed.
\<close>

lemma seq_num_str_length_le: "length (seq_num_str k) \<le> 11"
proof (cases "0 \<le> sint k")
  case False
  have "- sint k \<le> 2 ^ 31" using sint_ge[of k] by simp
  then have "nat (- sint k) < 10 ^ 10" by simp
  then have "length (nat_to_string (nat (- sint k))) \<le> 10" by (rule nat_to_string_length) simp
  then show ?thesis using False by (simp add: seq_num_str_def int_to_string_def Let_def)
qed (simp add: seq_num_str_nonneg)

text \<open>The paths of the requests leave room for a sequence number.\<close>

definition paths_fit :: "request_body list \<Rightarrow> bool" where
  "paths_fit rs \<longleftrightarrow> (\<forall>r \<in> set rs. length (body_getPath r) + 11 \<le> 2 ^ 28)"

lemma create_target_path:
  assumes "create_target s path q = Inr (parent, created, child)"
  shows "length created \<le> length path + 11"
  using assms seq_num_str_length_le
  by (auto simp: create_target_def Let_def split: option.splits if_splits)

lemma named_errors_mem [simp]:
  "named_error ZOK" "named_error ZNONODE" "named_error ZNOCHILDRENFOREPHEMERALS" "named_error ZNODEEXISTS"
  "named_error ZBADARGUMENTS" "named_error ZINVALIDACL" "named_error ZBADVERSION" "named_error ZNOTEMPTY"
  "named_error ZRUNTIMEINCONSISTENCY"
  by (simp_all add: named_error_def named_errors_def)

lemma create_target_named: "create_target s path q = Inl e \<Longrightarrow> named_error e"
  by (auto simp: create_target_def Let_def split: option.splits if_splits)

lemma create_acl_named: "create_acl s sid acls = (s', Inl e) \<Longrightarrow> named_error e"
  by (auto simp: create_acl_def Let_def split_beta split: if_splits)

text \<open>What a part answers: a named error or a body of the class of its request.\<close>

lemma sub_process_answer:
  assumes "sub_process s zx sid time r = (s1, Inr (cur, u))" "length (body_getPath r) + 11 \<le> 2 ^ 28"
  obtains e b where "cur = Response e 0 0 0 b" "named_error e"
    "e = ZOK \<Longrightarrow> reads_into b (body_makeResponse r) \<and> \<not> (\<exists>x y z. b = WatchResponse x y z)"
proof (cases r)
  case (CreateRequest path dat eph q acls)
  then show ?thesis
    using assms create_target_named create_acl_named create_target_path[of s path q]
    by (auto simp: create_process_def split: sum.splits prod.splits intro!: that)
next
  case (RemoveRequest path ver)
  then show ?thesis using assms by (auto simp: remove_process_def Let_def split: option.splits if_splits intro!: that)
next
  case (SetRequest path dat ver)
  then show ?thesis using assms by (auto simp: set_process_def Let_def split: option.splits if_splits intro!: that)
next
  case (CheckRequest path ver)
  then show ?thesis using assms by (auto simp: check_process_def split: option.splits if_splits intro!: that)
qed (use assms in simp_all)

lemma part_ok_error: "named_error e \<Longrightarrow> part_ok (error_response e) t"
  by (simp add: part_ok_def error_response_def)

lemma list_all2_part_ok_errors:
  "length es = length ts \<Longrightarrow> \<forall>e \<in> set es. named_error e \<Longrightarrow> list_all2 part_ok (map error_response es) ts"
  by (induction es ts rule: list_induct2) (simp_all add: part_ok_error)

lemma part_ok_named: "part_ok r t \<Longrightarrow> named_error (resp_error r)"
  by (auto simp: part_ok_def)

abbreviation templates :: "request_body list \<Rightarrow> response list" where
  "templates rs \<equiv> map (\<lambda>b. new_response (body_makeResponse b)) rs"

lemma multi_loop_parts:
  assumes "multi_loop s zx sid time rs acc undos = (s', Inr out)" "paths_fit rs" "list_all2 part_ok acc ts"
  shows "list_all2 part_ok out (ts @ templates rs)"
  using assms
proof (induction rs arbitrary: s acc undos ts)
  case (Cons r rs)
  obtain s1 cur u where step: "sub_process s zx sid time r = (s1, Inr (cur, u))"
    using Cons.prems(1) by (auto split: sum.splits prod.splits if_splits)
  obtain e b where cur: "cur = Response e 0 0 0 b" "named_error e"
    "e = ZOK \<Longrightarrow> reads_into b (body_makeResponse r) \<and> \<not> (\<exists>x y z. b = WatchResponse x y z)"
    using sub_process_answer[OF step] Cons.prems(2) by (auto simp: paths_fit_def)
  show ?case
  proof (cases "e = ZOK")
    case True
    with cur have "part_ok cur (new_response (body_makeResponse r))" by (auto simp: part_ok_def)
    with Cons.prems(3) have "list_all2 part_ok (acc @ [cur]) (ts @ [new_response (body_makeResponse r)])"
      by (simp add: list_all2_appendI)
    from Cons.IH[OF _ _ this] Cons.prems(1,2) step True cur(1) show ?thesis by (simp add: paths_fit_def)
  next
    case False
    let ?es = "map resp_error (acc @ [cur]) @ replicate (length rs) ZRUNTIMEINCONSISTENCY"
    have out: "out = map error_response ?es"
      using Cons.prems(1) step cur(1) False by (auto split: sum.splits)
    have "\<forall>x \<in> set acc. named_error (resp_error x)"
      using Cons.prems(3) by (metis in_set_conv_nth list_all2_conv_all_nth part_ok_named)
    with cur have "\<forall>x \<in> set ?es. named_error x" by auto
    moreover have "length ?es = length (ts @ templates (r # rs))"
      using list_all2_lengthD[OF Cons.prems(3)] by simp
    ultimately show ?thesis unfolding out by (rule list_all2_part_ok_errors[rotated])
  qed
qed simp

text \<open>The error the client reports: that of the first part that failed by itself.\<close>

definition client_error :: "response list \<Rightarrow> Error" where
  "client_error out =
     (case List.find (\<lambda>r. resp_error r \<noteq> ZOK \<and> resp_error r \<noteq> ZRUNTIMEINCONSISTENCY) out of
        None \<Rightarrow> ZOK | Some r \<Rightarrow> resp_error r)"

lemma overall_error_stays: "err \<noteq> ZOK \<Longrightarrow> foldl overall_error err es = err"
  by (induction es) (simp_all add: overall_error_def)

lemma overall_error_ZOK:
  "overall_error ZOK e = (if e \<noteq> ZOK \<and> e \<noteq> ZRUNTIMEINCONSISTENCY then e else ZOK)"
  by (simp add: overall_error_def)

lemma foldl_overall_error: "foldl overall_error ZOK (map resp_error out) = client_error out"
  by (induction out) (auto simp: overall_error_ZOK client_error_def overall_error_stays)

text \<open>
  C19. The answer of the store to a multi request reaches the client unchanged: written by the server
  and read into the template that the client made from its request, it gives the responses of all
  parts, and the error of the transaction is that of the first part that failed by itself.
\<close>

theorem multi_answer_read_back:
  assumes "store_process E s zx sid time (MultiRequest reqs) = (s', Inr (r, u))"
    and "paths_fit (map req_body reqs)"
  shows "\<exists>bytes out. r = Response ZOK 0 0 0 (MultiResponse out) \<and> response_writeImpl ZOK (resp_body r) = Inr bytes
    \<and> response_readImpl ZOK (body_makeResponse (MultiRequest reqs)) (bytes @ rest) =
        Inr ((client_error out, MultiResponse out), rest)"
proof -
  obtain out where loop: "multi_loop s zx sid time (map req_body reqs) [] [] = (s', Inr out)"
    and r: "r = Response ZOK 0 0 0 (MultiResponse out)"
    using assms(1) by (auto simp: multi_process_def split: prod.splits sum.splits)
  have "list_all2 part_ok out (templates (map req_body reqs))"
    using multi_loop_parts[OF loop assms(2), of "[]"] by simp
  from multi_response_roundtrip[OF this] obtain bytes where "multi_response_writeImpl out = Inr bytes"
    "\<And>err rest. multi_response_readImpl err (templates (map req_body reqs)) (bytes @ rest) =
       Inr ((foldl overall_error err (map resp_error out), out), rest)" by blast
  then show ?thesis by (auto simp: r reader_defs foldl_overall_error comp_def)
qed

theorem multi_answer_read_back_witness:
  "\<exists>bytes. response_writeImpl ZOK (MultiResponse [error_response ZOK, error_response ZNONODE]) = Inr bytes
    \<and> response_readImpl ZOK (body_makeResponse (MultiRequest failing_multi)) (bytes @ ''rest'') =
        Inr ((ZNONODE, MultiResponse [error_response ZOK, error_response ZNONODE]), ''rest'')"
proof -
  let ?out = "[error_response ZOK, error_response ZNONODE]"
  obtain s' where run: "store_process env0 store1 1 1 7 (MultiRequest failing_multi) =
      (s', Inr (answer ZOK (MultiResponse ?out), NoUndo))"
    using failing_multi_responses by (cases "store_process env0 store1 1 1 7 (MultiRequest failing_multi)") simp
  have "paths_fit (map req_body failing_multi)"
    by (simp add: paths_fit_def failing_multi_def create_req_def)
  from multi_answer_read_back[OF run this, of "''rest''"] show ?thesis
    by (simp add: client_error_def error_response_def)
qed

end
