(* ===== verification/Concurrent_Map.thy ===== *)
theory Concurrent_Map
  imports Store_Data
begin

text \<open>
  \<open>ConcurrentMap\<close> of \<open>src/src/Service/KeeperStore.h\<close>: an array of hash maps, each with its own lock,
  in which a key lives in the block that its hash selects. \<open>std::hash\<close> is implementation defined, so
  the hash function is a parameter. The theory shows that the blocks behave as the one flat map that
  the model of the store uses as its container.
\<close>

type_synonym 'a blocks = "(string \<rightharpoonup> 'a) list"

definition new_blocks :: "nat \<Rightarrow> 'a blocks" where
  "new_blocks NumBlocks = replicate NumBlocks Map.empty"

section \<open>InnerMap\<close>

definition inner_get :: "(string \<rightharpoonup> 'a) \<Rightarrow> string \<Rightarrow> 'a option" where
  "inner_get m key = m key"

definition inner_emplace :: "(string \<rightharpoonup> 'a) \<Rightarrow> string \<Rightarrow> 'a \<Rightarrow> (string \<rightharpoonup> 'a) \<times> bool" where
  "inner_emplace m key v = (m(key \<mapsto> v), key \<notin> dom m)"

definition inner_erase :: "(string \<rightharpoonup> 'a) \<Rightarrow> string \<Rightarrow> (string \<rightharpoonup> 'a) \<times> bool" where
  "inner_erase m key = (m(key := None), key \<in> dom m)"

definition inner_size :: "(string \<rightharpoonup> 'a) \<Rightarrow> uint64" where
  "inner_size m = of_nat (card (dom m))"

section \<open>ConcurrentMap\<close>

definition block_of :: "(string \<Rightarrow> uint64) \<Rightarrow> 'a blocks \<Rightarrow> string \<Rightarrow> nat" where
  "block_of hash ms key = unat (hash key) mod length ms"

definition blocks_get :: "(string \<Rightarrow> uint64) \<Rightarrow> 'a blocks \<Rightarrow> string \<Rightarrow> 'a option" where
  "blocks_get hash ms key = inner_get (ms ! block_of hash ms key) key"

definition blocks_at :: "(string \<Rightarrow> uint64) \<Rightarrow> 'a blocks \<Rightarrow> string \<Rightarrow> 'a option" where
  "blocks_at hash ms key = inner_get (ms ! block_of hash ms key) key"

definition blocks_emplace :: "(string \<Rightarrow> uint64) \<Rightarrow> 'a blocks \<Rightarrow> string \<Rightarrow> 'a \<Rightarrow> 'a blocks \<times> bool" where
  "blocks_emplace hash ms key v =
     (let i = block_of hash ms key; (m, created) = inner_emplace (ms ! i) key v in (ms[i := m], created))"

definition blocks_count :: "(string \<Rightarrow> uint64) \<Rightarrow> 'a blocks \<Rightarrow> string \<Rightarrow> nat" where
  "blocks_count hash ms key = (if blocks_get hash ms key \<noteq> None then 1 else 0)"

definition blocks_erase :: "(string \<Rightarrow> uint64) \<Rightarrow> 'a blocks \<Rightarrow> string \<Rightarrow> 'a blocks \<times> bool" where
  "blocks_erase hash ms key =
     (let i = block_of hash ms key; (m, erased) = inner_erase (ms ! i) key in (ms[i := m], erased))"

definition blocks_size :: "'a blocks \<Rightarrow> uint64" where
  "blocks_size ms = foldl (\<lambda>s m. s + inner_size m) 0 ms"

definition getBlockNum :: "'a blocks \<Rightarrow> uint32" where
  "getBlockNum ms = of_nat (length ms)"

section \<open>The contract of a map\<close>

text \<open>
  What the store relies on: lookups after updates and deletions, the results that tell whether a key
  was there, and the number of keys, over an abstraction to a flat map.
\<close>

locale keyed_store =
  fixes ok :: "'m \<Rightarrow> bool" and abs :: "'m \<Rightarrow> string \<rightharpoonup> 'a"
    and lookup :: "'m \<Rightarrow> string \<Rightarrow> 'a option"
    and insert_or_assign :: "'m \<Rightarrow> string \<Rightarrow> 'a \<Rightarrow> 'm \<times> bool"
    and remove :: "'m \<Rightarrow> string \<Rightarrow> 'm \<times> bool"
    and entries :: "'m \<Rightarrow> uint64"
  assumes lookup_abs: "ok m \<Longrightarrow> lookup m k = abs m k"
    and insert_ok: "ok m \<Longrightarrow> ok (fst (insert_or_assign m k v))"
    and insert_abs: "ok m \<Longrightarrow> abs (fst (insert_or_assign m k v)) = (abs m)(k \<mapsto> v)"
    and insert_new: "ok m \<Longrightarrow> snd (insert_or_assign m k v) \<longleftrightarrow> k \<notin> dom (abs m)"
    and remove_ok: "ok m \<Longrightarrow> ok (fst (remove m k))"
    and remove_abs: "ok m \<Longrightarrow> abs (fst (remove m k)) = (abs m)(k := None)"
    and remove_found: "ok m \<Longrightarrow> snd (remove m k) \<longleftrightarrow> k \<in> dom (abs m)"
    and entries_abs: "ok m \<Longrightarrow> entries m = of_nat (card (dom (abs m)))"
    and finite_abs: "ok m \<Longrightarrow> finite (dom (abs m))"
begin

lemma lookup_insert: "ok m \<Longrightarrow> lookup (fst (insert_or_assign m k v)) j = (if j = k then Some v else lookup m j)"
  by (simp add: lookup_abs insert_ok insert_abs)

lemma lookup_remove: "ok m \<Longrightarrow> lookup (fst (remove m k)) j = (if j = k then None else lookup m j)"
  by (simp add: lookup_abs remove_ok remove_abs)

lemma entries_insert:
  "ok m \<Longrightarrow> entries (fst (insert_or_assign m k v)) =
     (if snd (insert_or_assign m k v) then entries m + 1 else entries m)"
  by (auto simp: entries_abs insert_ok insert_abs insert_new finite_abs insert_absorb)

lemma entries_remove:
  "ok m \<Longrightarrow> entries (fst (remove m k)) = (if snd (remove m k) then entries m - 1 else entries m)"
  using of_nat_card_remove[of "dom (abs m)" k, where 'a = "64 word"]
  by (simp add: entries_abs remove_ok remove_abs remove_found finite_abs)

end

section \<open>The blocks implement it\<close>

definition flat :: "(string \<Rightarrow> uint64) \<Rightarrow> 'a blocks \<Rightarrow> string \<rightharpoonup> 'a" where
  "flat hash ms key = (ms ! block_of hash ms key) key"

definition blocks_ok :: "(string \<Rightarrow> uint64) \<Rightarrow> 'a blocks \<Rightarrow> bool" where
  "blocks_ok hash ms \<longleftrightarrow> ms \<noteq> [] \<and> (\<forall>i < length ms. finite (dom (ms ! i)) \<and>
     (\<forall>key \<in> dom (ms ! i). block_of hash ms key = i))"

lemma block_of_less [simp]: "ms \<noteq> [] \<Longrightarrow> block_of hash ms key < length ms"
  by (simp add: block_of_def)

lemma block_of_update [simp]: "block_of hash (ms[i := m]) key = block_of hash ms key"
  by (simp add: block_of_def)

lemma blocks_okD:
  assumes "blocks_ok hash ms" "i < length ms"
  shows "finite (dom (ms ! i))" "(ms ! i) key = Some v \<Longrightarrow> block_of hash ms key = i"
  using assms by (auto simp: blocks_ok_def)

lemma dom_flat:
  assumes "blocks_ok hash ms"
  shows "dom (flat hash ms) = (\<Union>i < length ms. dom (ms ! i))"
proof (intro set_eqI iffI)
  fix k
  assume "k \<in> dom (flat hash ms)"
  moreover have "block_of hash ms k < length ms" using assms by (simp add: blocks_ok_def)
  ultimately show "k \<in> (\<Union>i < length ms. dom (ms ! i))"
    by (auto simp: flat_def intro!: bexI[of _ "block_of hash ms k"])
next
  fix k
  assume "k \<in> (\<Union>i < length ms. dom (ms ! i))"
  then show "k \<in> dom (flat hash ms)" using blocks_okD(2)[OF assms] by (fastforce simp: flat_def)
qed

lemma blocks_ok_update:
  assumes "blocks_ok hash ms" "finite (dom m)" "\<forall>key \<in> dom m. block_of hash ms key = i"
  shows "blocks_ok hash (ms[i := m])"
proof -
  have "finite (dom (ms[i := m] ! j)) \<and> (\<forall>key \<in> dom (ms[i := m] ! j). block_of hash ms key = j)"
    if "j < length ms" for j
    using assms that blocks_okD[OF assms(1) that] by (cases "i = j") auto
  then show ?thesis using assms(1) by (simp add: blocks_ok_def)
qed

lemma sum_inner_sizes: "foldl (\<lambda>s m. s + inner_size m) a ms = a + of_nat (\<Sum>m \<leftarrow> ms. card (dom m))"
  by (induction ms arbitrary: a) (simp_all add: inner_size_def add.assoc)

lemma card_dom_flat:
  assumes "blocks_ok hash ms"
  shows "card (dom (flat hash ms)) = (\<Sum>m \<leftarrow> ms. card (dom m))"
proof -
  have "card (\<Union>i < length ms. dom (ms ! i)) = (\<Sum>i < length ms. card (dom (ms ! i)))"
    using blocks_okD[OF assms] by (intro card_UN_disjoint) (auto, metis option.distinct(1))
  then show ?thesis by (simp add: dom_flat[OF assms] sum_list_sum_nth atLeast0LessThan)
qed

interpretation cm: keyed_store "blocks_ok hash" "flat hash" "blocks_get hash" "blocks_emplace hash"
    "blocks_erase hash" blocks_size for hash :: "string \<Rightarrow> uint64"
proof unfold_locales
  fix m :: "'a blocks" and k v
  assume ok: "blocks_ok hash m"
  then have ne: "m \<noteq> []" by (simp add: blocks_ok_def)
  let ?i = "block_of hash m k"
  have lt: "?i < length m" using ne by simp
  have up: "blocks_ok hash (m[?i := x])" if "dom x \<subseteq> insert k (dom (m ! ?i))" for x
  proof (rule blocks_ok_update[OF ok])
    show "finite (dom x)" using finite_subset[OF that] blocks_okD(1)[OF ok lt] by blast
    show "\<forall>key \<in> dom x. block_of hash m key = ?i" using that blocks_okD(2)[OF ok lt] by blast
  qed
  show "blocks_get hash m k = flat hash m k" by (simp add: blocks_get_def inner_get_def flat_def)
  show "blocks_ok hash (fst (blocks_emplace hash m k v))"
    unfolding blocks_emplace_def inner_emplace_def Let_def prod.case fst_conv by (rule up) auto
  show "flat hash (fst (blocks_emplace hash m k v)) = (flat hash m)(k \<mapsto> v)"
    using ne by (auto simp: blocks_emplace_def inner_emplace_def flat_def fun_eq_iff nth_list_update Let_def)
  show "snd (blocks_emplace hash m k v) \<longleftrightarrow> k \<notin> dom (flat hash m)"
    by (auto simp: blocks_emplace_def inner_emplace_def flat_def Let_def)
  show "blocks_ok hash (fst (blocks_erase hash m k))"
    unfolding blocks_erase_def inner_erase_def Let_def prod.case fst_conv by (rule up) auto
  show "flat hash (fst (blocks_erase hash m k)) = (flat hash m)(k := None)"
    using ne by (auto simp: blocks_erase_def inner_erase_def flat_def fun_eq_iff nth_list_update Let_def)
  show "snd (blocks_erase hash m k) \<longleftrightarrow> k \<in> dom (flat hash m)"
    by (auto simp: blocks_erase_def inner_erase_def flat_def Let_def)
  show "blocks_size m = of_nat (card (dom (flat hash m)))"
    by (simp add: blocks_size_def sum_inner_sizes card_dom_flat[OF ok])
  show "finite (dom (flat hash m))" using ok by (auto simp: dom_flat[OF ok] blocks_ok_def)
qed

section \<open>Sequences of updates\<close>

datatype 'a map_update = Emplace string 'a | Erase string

fun update_blocks :: "(string \<Rightarrow> uint64) \<Rightarrow> 'a map_update \<Rightarrow> 'a blocks \<Rightarrow> 'a blocks" where
  "update_blocks hash (Emplace k v) ms = fst (blocks_emplace hash ms k v)"
| "update_blocks hash (Erase k) ms = fst (blocks_erase hash ms k)"

fun update_flat :: "'a map_update \<Rightarrow> (string \<rightharpoonup> 'a) \<Rightarrow> string \<rightharpoonup> 'a" where
  "update_flat (Emplace k v) m = m(k \<mapsto> v)"
| "update_flat (Erase k) m = m(k := None)"

lemma new_blocks_ok: "0 < n \<Longrightarrow> blocks_ok hash (new_blocks n)"
  by (simp add: blocks_ok_def new_blocks_def)

lemma flat_new_blocks: "0 < n \<Longrightarrow> flat hash (new_blocks n) = Map.empty"
  by (simp add: flat_def new_blocks_def block_of_def fun_eq_iff)

lemma fold_updates:
  assumes "blocks_ok hash ms"
  shows "blocks_ok hash (fold (update_blocks hash) us ms)
    \<and> flat hash (fold (update_blocks hash) us ms) = fold update_flat us (flat hash ms)"
  using assms
proof (induction us arbitrary: ms)
  case (Cons u us)
  have "blocks_ok hash (update_blocks hash u ms)" "flat hash (update_blocks hash u ms) = update_flat u (flat hash ms)"
    using Cons.prems by (cases u; simp add: cm.insert_ok cm.remove_ok cm.insert_abs cm.remove_abs)+
  with Cons.IH show ?case by simp
qed simp

text \<open>
  C20. Whatever hash function distributes the keys over the blocks, any sequence of insertions and
  deletions on the block map, from the empty one, is observed as on one flat map: every lookup and
  count, and the total size, agree.
\<close>

theorem blocks_refine_map:
  assumes "0 < n" "ms = fold (update_blocks hash) us (new_blocks n)" "m = fold update_flat us Map.empty"
  shows "blocks_get hash ms k = m k \<and> blocks_at hash ms k = m k \<and> blocks_count hash ms k = (if k \<in> dom m then 1 else 0)
    \<and> blocks_size ms = of_nat (card (dom m))"
proof -
  have ok: "blocks_ok hash ms" and m: "flat hash ms = m"
    using fold_updates[OF new_blocks_ok[OF assms(1)], of hash us]
    unfolding flat_new_blocks[OF assms(1)] assms(2,3) by blast+
  have "blocks_get hash ms k = m k" using cm.lookup_abs[OF ok, of k] by (simp add: m)
  moreover have "blocks_size ms = of_nat (card (dom m))" using cm.entries_abs[OF ok] by (simp add: m)
  ultimately show ?thesis by (auto simp: blocks_at_def blocks_count_def blocks_get_def)
qed

theorem blocks_refine_map_witness:
  "blocks_get (\<lambda>s. of_nat (length s)) (fold (update_blocks (\<lambda>s. of_nat (length s)))
     [Emplace ''/'' 1, Emplace ''/a'' (2 :: nat), Erase ''/''] (new_blocks 16)) ''/a'' = Some 2"
  using blocks_refine_map[of 16 _ "\<lambda>s. of_nat (length s)"
      "[Emplace ''/'' 1, Emplace ''/a'' (2 :: nat), Erase ''/'']" _ "''/a''"] by simp

end
