(* ===== verification/Crc32.thy ===== *)
theory Crc32
  imports Wire_IO
begin

text \<open>
  \<open>src/src/Service/Crc32.cpp\<close>: the checksum of log entries, driven by a table of 256 words. The
  theory shows that the table is the one of the reflected polynomial \<open>0xEDB88320\<close>, so that the
  routine computes the bitwise division, and that the checksum detects every change of one byte.
\<close>

unbundle bit_operations_syntax

definition CRC_TABLE :: "uint32 list" where
  "CRC_TABLE = [
      0x0, 0x77073096, 0xEE0E612C, 0x990951BA, 0x76DC419, 0x706AF48F, 0xE963A535, 0x9E6495A3,
      0xEDB8832, 0x79DCB8A4, 0xE0D5E91E, 0x97D2D988, 0x9B64C2B, 0x7EB17CBD, 0xE7B82D07, 0x90BF1D91,
      0x1DB71064, 0x6AB020F2, 0xF3B97148, 0x84BE41DE, 0x1ADAD47D, 0x6DDDE4EB, 0xF4D4B551, 0x83D385C7,
      0x136C9856, 0x646BA8C0, 0xFD62F97A, 0x8A65C9EC, 0x14015C4F, 0x63066CD9, 0xFA0F3D63, 0x8D080DF5,
      0x3B6E20C8, 0x4C69105E, 0xD56041E4, 0xA2677172, 0x3C03E4D1, 0x4B04D447, 0xD20D85FD, 0xA50AB56B,
      0x35B5A8FA, 0x42B2986C, 0xDBBBC9D6, 0xACBCF940, 0x32D86CE3, 0x45DF5C75, 0xDCD60DCF, 0xABD13D59,
      0x26D930AC, 0x51DE003A, 0xC8D75180, 0xBFD06116, 0x21B4F4B5, 0x56B3C423, 0xCFBA9599, 0xB8BDA50F,
      0x2802B89E, 0x5F058808, 0xC60CD9B2, 0xB10BE924, 0x2F6F7C87, 0x58684C11, 0xC1611DAB, 0xB6662D3D,
      0x76DC4190, 0x1DB7106, 0x98D220BC, 0xEFD5102A, 0x71B18589, 0x6B6B51F, 0x9FBFE4A5, 0xE8B8D433,
      0x7807C9A2, 0xF00F934, 0x9609A88E, 0xE10E9818, 0x7F6A0DBB, 0x86D3D2D, 0x91646C97, 0xE6635C01,
      0x6B6B51F4, 0x1C6C6162, 0x856530D8, 0xF262004E, 0x6C0695ED, 0x1B01A57B, 0x8208F4C1, 0xF50FC457,
      0x65B0D9C6, 0x12B7E950, 0x8BBEB8EA, 0xFCB9887C, 0x62DD1DDF, 0x15DA2D49, 0x8CD37CF3, 0xFBD44C65,
      0x4DB26158, 0x3AB551CE, 0xA3BC0074, 0xD4BB30E2, 0x4ADFA541, 0x3DD895D7, 0xA4D1C46D, 0xD3D6F4FB,
      0x4369E96A, 0x346ED9FC, 0xAD678846, 0xDA60B8D0, 0x44042D73, 0x33031DE5, 0xAA0A4C5F, 0xDD0D7CC9,
      0x5005713C, 0x270241AA, 0xBE0B1010, 0xC90C2086, 0x5768B525, 0x206F85B3, 0xB966D409, 0xCE61E49F,
      0x5EDEF90E, 0x29D9C998, 0xB0D09822, 0xC7D7A8B4, 0x59B33D17, 0x2EB40D81, 0xB7BD5C3B, 0xC0BA6CAD,
      0xEDB88320, 0x9ABFB3B6, 0x3B6E20C, 0x74B1D29A, 0xEAD54739, 0x9DD277AF, 0x4DB2615, 0x73DC1683,
      0xE3630B12, 0x94643B84, 0xD6D6A3E, 0x7A6A5AA8, 0xE40ECF0B, 0x9309FF9D, 0xA00AE27, 0x7D079EB1,
      0xF00F9344, 0x8708A3D2, 0x1E01F268, 0x6906C2FE, 0xF762575D, 0x806567CB, 0x196C3671, 0x6E6B06E7,
      0xFED41B76, 0x89D32BE0, 0x10DA7A5A, 0x67DD4ACC, 0xF9B9DF6F, 0x8EBEEFF9, 0x17B7BE43, 0x60B08ED5,
      0xD6D6A3E8, 0xA1D1937E, 0x38D8C2C4, 0x4FDFF252, 0xD1BB67F1, 0xA6BC5767, 0x3FB506DD, 0x48B2364B,
      0xD80D2BDA, 0xAF0A1B4C, 0x36034AF6, 0x41047A60, 0xDF60EFC3, 0xA867DF55, 0x316E8EEF, 0x4669BE79,
      0xCB61B38C, 0xBC66831A, 0x256FD2A0, 0x5268E236, 0xCC0C7795, 0xBB0B4703, 0x220216B9, 0x5505262F,
      0xC5BA3BBE, 0xB2BD0B28, 0x2BB45A92, 0x5CB36A04, 0xC2D7FFA7, 0xB5D0CF31, 0x2CD99E8B, 0x5BDEAE1D,
      0x9B64C2B0, 0xEC63F226, 0x756AA39C, 0x26D930A, 0x9C0906A9, 0xEB0E363F, 0x72076785, 0x5005713,
      0x95BF4A82, 0xE2B87A14, 0x7BB12BAE, 0xCB61B38, 0x92D28E9B, 0xE5D5BE0D, 0x7CDCEFB7, 0xBDBDF21,
      0x86D3D2D4, 0xF1D4E242, 0x68DDB3F8, 0x1FDA836E, 0x81BE16CD, 0xF6B9265B, 0x6FB077E1, 0x18B74777,
      0x88085AE6, 0xFF0F6A70, 0x66063BCA, 0x11010B5C, 0x8F659EFF, 0xF862AE69, 0x616BFFD3, 0x166CCF45,
      0xA00AE278, 0xD70DD2EE, 0x4E048354, 0x3903B3C2, 0xA7672661, 0xD06016F7, 0x4969474D, 0x3E6E77DB,
      0xAED16A4A, 0xD9D65ADC, 0x40DF0B66, 0x37D83BF0, 0xA9BCAE53, 0xDEBB9EC5, 0x47B2CF7F, 0x30B5FFE9,
      0xBDBDF21C, 0xCABAC28A, 0x53B39330, 0x24B4A3A6, 0xBAD03605, 0xCDD70693, 0x54DE5729, 0x23D967BF,
      0xB3667A2E, 0xC4614AB8, 0x5D681B02, 0x2A6F2B94, 0xB40BBE37, 0xC30C8EA1, 0x5A05DF1B, 0x2D02EF8D]"

text \<open>\<open>data[i]\<close> is a signed char; only its low eight bits reach the table index.\<close>

definition crc_step :: "uint32 \<Rightarrow> char \<Rightarrow> uint32" where
  "crc_step crc c = (CRC_TABLE ! unat ((crc XOR of_char c) AND 0xFF)) XOR drop_bit 8 crc"

definition getCRC32 :: "string \<Rightarrow> uint32" where
  "getCRC32 dat = (if length dat < 1 then 0xFFFFFFFF else foldl crc_step 0 dat XOR 0xFFFFFFFF)"

definition verifyCRC32 :: "string \<Rightarrow> uint32 \<Rightarrow> bool" where
  "verifyCRC32 dat crc \<longleftrightarrow> crc = getCRC32 dat"

section \<open>The table\<close>

text \<open>One step of the division by the polynomial, and eight of them.\<close>

definition crc_bit :: "uint32 \<Rightarrow> uint32" where
  "crc_bit c = (if c AND 1 \<noteq> 0 then 0xEDB88320 XOR drop_bit 1 c else drop_bit 1 c)"

definition crc_byte :: "uint32 \<Rightarrow> uint32" where
  "crc_byte c = crc_bit (crc_bit (crc_bit (crc_bit (crc_bit (crc_bit (crc_bit (crc_bit c)))))))"

section \<open>The division is linear and injective\<close>

lemma crc_bit_odd: "crc_bit c = (if odd c then 0xEDB88320 XOR drop_bit 1 c else drop_bit 1 c)"
  by (simp add: crc_bit_def and_one_eq odd_iff_mod_2_eq_one)

lemma crc_bit_xor: "crc_bit (a XOR b) = crc_bit a XOR crc_bit b"
  by (simp add: crc_bit_odd even_xor_iff drop_bit_xor xor.assoc xor.left_commute)

lemma crc_byte_xor: "crc_byte (a XOR b) = crc_byte a XOR crc_byte b"
  by (simp add: crc_byte_def crc_bit_xor)

lemma xor_eq_0_iff: "(a :: 'a::len word) XOR b = 0 \<longleftrightarrow> a = b"
proof
  assume "a XOR b = 0"
  then have "(a XOR b) XOR b = 0 XOR b" by (rule arg_cong)
  then show "a = b" unfolding xor.assoc xor_self_eq by simp
qed simp

lemma xor_cancel: "(a :: 'a::len word) XOR c = b XOR c \<longleftrightarrow> a = b"
proof
  assume "a XOR c = b XOR c"
  then have "(a XOR c) XOR c = (b XOR c) XOR c" by (rule arg_cong)
  then show "a = b" unfolding xor.assoc xor_self_eq by simp
qed simp

lemma crc_bit_zero: "crc_bit d = 0 \<Longrightarrow> d = 0"
proof (cases "odd d")
  case True
  assume "crc_bit d = 0"
  with True have "0xEDB88320 XOR drop_bit 1 d = 0" unfolding crc_bit_odd by (simp only: if_True not_False_eq_True)
  then have "0xEDB88320 = drop_bit 1 d" unfolding xor_eq_0_iff .
  then have "bit (drop_bit 1 d) 31 = bit (0xEDB88320 :: uint32) 31" by (rule arg_cong [OF sym])
  moreover have "bit (0xEDB88320 :: uint32) 31" by simp
  moreover have "\<not> bit (drop_bit 1 d) 31" unfolding bit_drop_bit_eq by (simp add: bit_word.rep_eq)
  ultimately show ?thesis by blast
next
  case False
  assume "crc_bit d = 0"
  with False have z: "drop_bit 1 d = 0" unfolding crc_bit_odd by (simp only: if_False not_True_eq_False)
  show ?thesis
  proof (rule bit_word_eqI)
    fix n assume "n < LENGTH(32)"
    have "bit (drop_bit 1 d) (n - 1) = bit (0 :: uint32) (n - 1)" by (rule arg_cong [OF z])
    then show "bit d n = bit 0 n"
      using False by (cases n) (simp_all add: bit_0 bit_drop_bit_eq)
  qed
qed

lemma crc_byte_inj: "crc_byte a = crc_byte b \<longleftrightarrow> a = b"
proof
  assume "crc_byte a = crc_byte b"
  then have "crc_byte (a XOR b) = 0" unfolding crc_byte_xor xor_eq_0_iff .
  then have "a XOR b = 0" unfolding crc_byte_def by (blast dest: crc_bit_zero)
  then show "a = b" unfolding xor_eq_0_iff .
qed (rule arg_cong)

lemma crc_bits_shift: "\<forall>k<n. \<not> bit h k \<Longrightarrow> (crc_bit ^^ n) h = drop_bit n h"
proof (induction n)
  case (Suc n)
  then have "even (drop_bit n h)" by (simp add: bit_iff_odd_drop_bit)
  with Suc show ?case by (simp add: crc_bit_odd drop_bit_drop_bit)
qed simp

lemma crc_byte_shift: "\<forall>k<8. \<not> bit h k \<Longrightarrow> crc_byte h = drop_bit 8 h"
  using crc_bits_shift [of 8 h] by (simp add: crc_byte_def numeral_eq_Suc)

section \<open>The table is the one of the polynomial\<close>

definition crc_table :: "nat \<Rightarrow> uint32 list" where
  "crc_table n = map (\<lambda>i. crc_byte (of_nat i)) [0..<2 ^ n]"

lemma crc_byte_powers:
  "crc_byte 1 = 0x77073096"
  "crc_byte 2 = 0xEE0E612C"
  "crc_byte 4 = 0x76DC419"
  "crc_byte 8 = 0xEDB8832"
  "crc_byte 16 = 0x1DB71064"
  "crc_byte 32 = 0x3B6E20C8"
  "crc_byte 64 = 0x76DC4190"
  "crc_byte 128 = 0xEDB88320"
  by (simp_all add: crc_byte_def crc_bit_def)

lemma crc_byte_0: "crc_byte 0 = 0"
  by (simp add: crc_byte_def crc_bit_def)

lemma add_power_xor: "i < 2 ^ n \<Longrightarrow> of_nat (i + 2 ^ n) = (2 ^ n :: uint32) XOR of_nat i"
proof -
  assume i: "i < 2 ^ n"
  have "(2 ^ n :: uint32) AND of_nat i = 0"
  proof (rule bit_word_eqI)
    fix m assume "m < LENGTH(32)"
    show "bit ((2 ^ n :: uint32) AND of_nat i) m = bit 0 m"
    proof (cases "m = n")
      case True
      from i have "\<not> bit i n" by (simp add: bit_iff_odd)
      with True show ?thesis by (simp add: bit_and_iff bit_of_nat_iff)
    qed (simp add: bit_and_iff bit_exp_iff)
  qed
  then have "(2 ^ n :: uint32) + of_nat i = 2 ^ n XOR of_nat i"
    by (rule disjunctive_add_eq_xor)
  then show ?thesis by (simp add: add.commute)
qed

lemma crc_table_Suc: "crc_table (Suc n) = crc_table n @ map ((XOR) (crc_byte (2 ^ n))) (crc_table n)"
proof -
  have "[0..<2 ^ n + 2 ^ n] = [0..<2 ^ n] @ map (\<lambda>i. i + 2 ^ n) [0..<2 ^ n]"
    unfolding map_add_upt by (rule upt_add_eq_append) simp
  moreover have "map (\<lambda>i. crc_byte (of_nat i)) (map (\<lambda>i. i + 2 ^ n) [0..<2 ^ n])
      = map ((XOR) (crc_byte (2 ^ n))) (crc_table n)"
    unfolding crc_table_def map_map
    by (rule map_cong) (simp_all only: refl set_upt atLeastLessThan_iff comp_apply add_power_xor crc_byte_xor)
  ultimately show ?thesis
    by (simp only: crc_table_def power_Suc mult_2 map_append)
qed

lemma crc_table_0: "crc_table 0 = [0]"
  by (simp add: crc_table_def crc_byte_0)

lemma crc_table_take:
  assumes "crc_table n = take m CRC_TABLE" and "crc_byte (2 ^ n) = t"
    and "take m CRC_TABLE @ map ((XOR) t) (take m CRC_TABLE) = take k CRC_TABLE"
  shows "crc_table (Suc n) = take k CRC_TABLE"
  using assms by (simp only: crc_table_Suc)

lemma CRC_TABLE_eq: "crc_table 8 = CRC_TABLE"
proof -
  have 0: "crc_table 0 = take 1 CRC_TABLE" by (simp add: crc_table_0 CRC_TABLE_def)
  have 1: "crc_table (Suc 0) = take 2 CRC_TABLE"
    by (rule crc_table_take [OF 0, where t = "0x77073096"]) (simp_all add: crc_byte_powers CRC_TABLE_def)
  have 2: "crc_table (Suc (Suc 0)) = take 4 CRC_TABLE"
    by (rule crc_table_take [OF 1, where t = "0xEE0E612C"]) (simp_all add: crc_byte_powers CRC_TABLE_def)
  have 3: "crc_table 3 = take 8 CRC_TABLE"
    unfolding numeral_3_eq_3
    by (rule crc_table_take [OF 2, where t = "0x76DC419"]) (simp_all add: crc_byte_powers CRC_TABLE_def)
  have 4: "crc_table (Suc 3) = take 16 CRC_TABLE"
    by (rule crc_table_take [OF 3, where t = "0xEDB8832"]) (simp_all add: crc_byte_powers CRC_TABLE_def)
  have 5: "crc_table (Suc (Suc 3)) = take 32 CRC_TABLE"
    by (rule crc_table_take [OF 4, where t = "0x1DB71064"]) (simp_all add: crc_byte_powers CRC_TABLE_def)
  have 6: "crc_table (Suc (Suc (Suc 3))) = take 64 CRC_TABLE"
    by (rule crc_table_take [OF 5, where t = "0x3B6E20C8"]) (simp_all add: crc_byte_powers CRC_TABLE_def)
  have 7: "crc_table (Suc (Suc (Suc (Suc 3)))) = take 128 CRC_TABLE"
    by (rule crc_table_take [OF 6, where t = "0x76DC4190"]) (simp_all add: crc_byte_powers CRC_TABLE_def)
  have 8: "crc_table (Suc (Suc (Suc (Suc (Suc 3))))) = take 256 CRC_TABLE"
    by (rule crc_table_take [OF 7, where t = "0xEDB88320"]) (simp_all add: crc_byte_powers CRC_TABLE_def)
  have "length CRC_TABLE = 256" by (simp add: CRC_TABLE_def)
  with 8 show ?thesis by simp
qed

section \<open>The routine computes the division\<close>

lemma CRC_TABLE_nth: "i < 256 \<Longrightarrow> CRC_TABLE ! i = crc_byte (of_nat i)"
  by (simp add: CRC_TABLE_eq [symmetric] crc_table_def)

lemma unat_char_word: "unat (of_char c :: uint32) = of_char c"
proof -
  have "unat (of_char c :: uint32) = of_char c mod 2 ^ 32"
    using unat_of_nat [where 'a = 32, of "of_char c"] by (simp add: of_nat_of_char)
  moreover have "(of_char c :: nat) < 256" by simp
  ultimately show ?thesis by simp
qed

lemma char_word_less: "unat (of_char c :: uint32) < 256"
  by (simp add: unat_char_word)

lemma char_word_inj: "(of_char c :: uint32) = of_char d \<longleftrightarrow> c = d"
  by (metis char_of_char unat_char_word)

lemma char_word_bit: "bit (of_char c :: uint32) k \<Longrightarrow> k < 8"
proof (rule ccontr)
  assume b: "bit (of_char c :: uint32) k" and "\<not> k < 8"
  then have "(2 :: nat) ^ 8 \<le> 2 ^ k" by (intro power_increasing) simp_all
  with char_word_less [of c] have "unat (of_char c :: uint32) div 2 ^ k = 0" by simp
  then have "\<not> bit (unat (of_char c :: uint32)) k" by (simp add: bit_iff_odd)
  with b show False by (simp add: bit_unsigned_iff)
qed

lemma split_low_byte: "(x :: uint32) = take_bit 8 x XOR push_bit 8 (drop_bit 8 x)"
  by (rule bit_word_eqI) (auto simp: bit_xor_iff bit_take_bit_iff bit_push_bit_iff bit_drop_bit_eq)

lemma low_byte_index: "unat ((x :: uint32) AND 0xFF) < 256" "of_nat (unat ((x :: uint32) AND 0xFF)) = take_bit 8 x"
proof -
  have m: "(0xFF :: uint32) = mask 8" by (simp add: mask_eq_exp_minus_1)
  show "of_nat (unat (x AND 0xFF)) = take_bit 8 x"
    unfolding m take_bit_eq_mask by simp
  have "unat (take_bit 8 x) < 2 ^ 8" unfolding unsigned_take_bit_eq by (rule take_bit_nat_less_exp)
  then show "unat (x AND 0xFF) < 256" unfolding m take_bit_eq_mask by simp
qed

lemma crc_byte_push: "crc_byte (push_bit 8 x) = drop_bit 8 (push_bit 8 x)"
  by (rule crc_byte_shift) (simp add: bit_push_bit_iff)

lemma crc_step_eq: "crc_step crc c = crc_byte (crc XOR of_char c)"
proof -
  let ?x = "crc XOR of_char c"
  have high: "drop_bit 8 (push_bit 8 (drop_bit 8 ?x)) = drop_bit 8 crc"
    by (rule bit_word_eqI)
      (auto simp: bit_push_bit_iff bit_drop_bit_eq bit_xor_iff dest: char_word_bit bit_imp_le_length)
  have "crc_byte ?x = crc_byte (take_bit 8 ?x) XOR crc_byte (push_bit 8 (drop_bit 8 ?x))"
    by (subst split_low_byte) (rule crc_byte_xor)
  also have "\<dots> = crc_step crc c"
    unfolding crc_step_def crc_byte_push high CRC_TABLE_nth [OF low_byte_index(1)] low_byte_index(2) ..
  finally show ?thesis ..
qed

section \<open>Bursts of up to four bytes\<close>

primrec le_word :: "string \<Rightarrow> uint32" where
  "le_word [] = 0"
| "le_word (c # cs) = of_char c XOR push_bit 8 (le_word cs)"

lemma le_word_bit: "bit (le_word cs) k \<Longrightarrow> k < 8 * length cs"
  by (induction cs arbitrary: k) (auto simp: bit_xor_iff bit_push_bit_iff dest!: char_word_bit, fastforce)

lemma crc_byte_le_word:
  assumes "length cs < 4" shows "crc_byte (push_bit 8 (le_word cs)) = le_word cs"
proof -
  have "bit (le_word cs) n \<Longrightarrow> n < 24" for n using le_word_bit [of cs n] assms by simp
  then show ?thesis
    unfolding crc_byte_push
    by (intro bit_word_eqI) (auto simp: bit_push_bit_iff bit_drop_bit_eq dest: bit_imp_le_length)
qed

lemma crc_steps_eq: "length cs \<le> 4 \<Longrightarrow> foldl crc_step s cs = (crc_byte ^^ length cs) (s XOR le_word cs)"
proof (induction cs arbitrary: s)
  case (Cons c cs)
  then have "length cs < 4" by simp
  then have "crc_step s c XOR le_word cs = crc_byte (s XOR of_char c XOR push_bit 8 (le_word cs))"
    by (simp only: crc_byte_xor crc_byte_le_word crc_step_eq xor.assoc)
  with Cons show ?case by (simp add: funpow_swap1 xor.assoc)
qed simp

lemma le_word_inj: "length us = length vs \<Longrightarrow> length us \<le> 4 \<Longrightarrow> le_word us = le_word vs \<Longrightarrow> us = vs"
proof (induction us vs rule: list_induct2)
  case (Cons u us v vs)
  have byte: "take_bit 8 (le_word (c # cs)) = of_char c" for c cs
    by (rule bit_word_eqI) (auto simp: bit_take_bit_iff bit_xor_iff bit_push_bit_iff dest: char_word_bit)
  have rest: "drop_bit 8 (le_word (c # cs)) = drop_bit 8 (push_bit 8 (le_word cs))" for c cs
    by (rule bit_word_eqI) (auto simp: bit_drop_bit_eq bit_xor_iff dest: char_word_bit)
  have same: "drop_bit 8 (push_bit 8 (le_word us)) = drop_bit 8 (push_bit 8 (le_word vs))"
    using Cons.prems(2) rest [of u us] rest [of v vs] by simp
  have "length us < 4" "length vs < 4" using Cons.hyps Cons.prems(1) by simp_all
  with same have "le_word us = le_word vs"
    by (metis crc_byte_le_word crc_byte_push)
  moreover have "(of_char u :: uint32) = of_char v" using Cons.prems(2) byte by metis
  ultimately show ?case using Cons by (simp add: char_word_inj)
qed simp

lemma crc_step_inj: "crc_step s c = crc_step t c \<longleftrightarrow> s = t"
  unfolding crc_step_eq crc_byte_inj xor_cancel ..

lemma crc_steps_inj: "foldl crc_step s cs = foldl crc_step t cs \<longleftrightarrow> s = t"
  by (induction cs arbitrary: s t) (simp_all add: crc_step_inj)

lemma crc_bytes_inj: "(crc_byte ^^ n) a = (crc_byte ^^ n) b \<longleftrightarrow> a = b"
  by (induction n) (simp_all add: crc_byte_inj)

section \<open>The properties\<close>

text \<open>The checksum by one division step per bit, without the table.\<close>

definition bitwise_CRC32 :: "string \<Rightarrow> uint32" where
  "bitwise_CRC32 dat = foldl (\<lambda>crc c. crc_byte (crc XOR of_char c)) 0 dat XOR 0xFFFFFFFF"

text \<open>
  C21. The table-driven checksum is the bitwise division of the data by the reflected polynomial
  \<open>0xEDB88320\<close> (initial value zero, final complement), for data of every length.
\<close>

theorem getCRC32_bitwise: "getCRC32 dat = bitwise_CRC32 dat"
  unfolding getCRC32_def bitwise_CRC32_def crc_step_eq [abs_def] by (cases dat) simp_all

text \<open>
  C22. The checksum detects every corruption that is confined to four consecutive bytes: data in which
  one to four neighbouring bytes differ never verifies against the checksum of the original.
\<close>

theorem burst_detected:
  assumes "length us = length vs" and "length us \<le> 4" and "us \<noteq> vs"
  shows "\<not> verifyCRC32 (xs @ vs @ ys) (getCRC32 (xs @ us @ ys))"
proof
  assume "verifyCRC32 (xs @ vs @ ys) (getCRC32 (xs @ us @ ys))"
  moreover have "1 \<le> length (xs @ us @ ys)" "1 \<le> length (xs @ vs @ ys)"
    using assms by (cases us; cases vs; simp)+
  ultimately have "foldl crc_step 0 (xs @ us @ ys) XOR 0xFFFFFFFF = foldl crc_step 0 (xs @ vs @ ys) XOR 0xFFFFFFFF"
    unfolding verifyCRC32_def getCRC32_def by (simp only: not_less [symmetric] if_False not_not)
  then have "foldl crc_step 0 (xs @ us @ ys) = foldl crc_step 0 (xs @ vs @ ys)"
    unfolding xor_cancel .
  then have "foldl crc_step (foldl crc_step 0 xs) us = foldl crc_step (foldl crc_step 0 xs) vs"
    unfolding foldl_append crc_steps_inj .
  then have "foldl crc_step 0 xs XOR le_word us = foldl crc_step 0 xs XOR le_word vs"
    unfolding crc_steps_eq [OF assms(2)] crc_steps_eq [OF assms(2) [unfolded assms(1)]] assms(1) crc_bytes_inj .
  then have "le_word us = le_word vs" unfolding xor.commute [of "foldl crc_step 0 xs"] xor_cancel .
  with assms show False using le_word_inj by blast
qed

theorem burst_detected_witness:
  "\<not> verifyCRC32 (''he'' @ ''LL'' @ ''o'') (getCRC32 (''he'' @ ''ll'' @ ''o''))"
  by (rule burst_detected) simp_all

end
