(* ===== verification/Log_Files.thy ===== *)
theory Log_Files
  imports Paths Wire_IO Crc32
begin

text \<open>
  What the log of \<open>src/src/Service/NuRaftLogSegment.cpp\<close> uses of its surroundings: a directory of
  files with open descriptors, the outcomes of system calls that may fail, the buffer classes of
  NuRaft (a library that is not part of the repository, hence a parameter), and the names of segment
  files with their \<open>snprintf\<close> and \<open>sscanf\<close> formats.
\<close>

section \<open>Files\<close>

text \<open>
  A directory maps names to inodes; a descriptor is an inode with a position, so that it stays valid
  when the name of the file changes.
\<close>

record files =
  dir :: "string \<rightharpoonup> nat"
  contents :: "nat \<Rightarrow> string"
  next_inode :: nat

type_synonym descriptor = "nat \<times> nat"

text \<open>
  The outcomes one operation meets: the clock as \<open>BackendTimer::getCurrentTime\<close> formats it, whether
  \<open>Directory::createDir\<close>, \<open>open\<close>, \<open>ftruncate\<close> and \<open>fdatasync\<close> succeed, how many bytes a write of so many bytes writes
  (\<open>None\<close> for an error), and the content of an uninitialised byte.
\<close>

record io =
  clock :: string
  mkdir_ok :: bool
  open_ok :: bool
  truncate_ok :: bool
  sync_ok :: bool
  write_result :: "nat \<Rightarrow> nat option"
  garbage :: "8 word"

datatype log_exc =
    LOG_LOGICAL_ERROR
  | CANNOT_READ_FROM_FILE_DESCRIPTOR
  | CANNOT_WRITE_TO_FILE_DESCRIPTOR
  | FILE_NOT_FOUND
  | INDEX_OUT_OF_RANGE
  | NULL_POINTER
  | DIVISION_BY_ZERO
  | BUFFER_OVERFLOW

definition exists_file :: "files \<Rightarrow> string \<Rightarrow> bool" where
  "exists_file fs name \<longleftrightarrow> dir fs name \<noteq> None"

definition create_file :: "files \<Rightarrow> string \<Rightarrow> files" where
  "create_file fs name =
     fs\<lparr>dir := (dir fs)(name \<mapsto> next_inode fs),
        contents := (contents fs)(next_inode fs := []),
        next_inode := Suc (next_inode fs)\<rparr>"

definition rename_file :: "files \<Rightarrow> string \<Rightarrow> string \<Rightarrow> log_exc + files" where
  "rename_file fs old new =
     (case dir fs old of
        None \<Rightarrow> Inl FILE_NOT_FOUND
      | Some i \<Rightarrow> Inr (fs\<lparr>dir := ((dir fs)(old := None))(new \<mapsto> i)\<rparr>))"

definition remove_file :: "files \<Rightarrow> string \<Rightarrow> files" where
  "remove_file fs name = fs\<lparr>dir := (dir fs)(name := None)\<rparr>"

definition pread :: "string \<Rightarrow> nat \<Rightarrow> nat \<Rightarrow> string" where
  "pread content n offset = take n (drop offset content)"

definition resize :: "nat \<Rightarrow> string \<Rightarrow> string" where
  "resize n content = take n content @ replicate (n - length content) (char_of (0 :: nat))"

definition overwrite :: "string \<Rightarrow> nat \<Rightarrow> string \<Rightarrow> string" where
  "overwrite content pos bytes =
     (if bytes = [] then content
      else resize pos content @ bytes @ drop (pos + length bytes) content)"

definition write_fd :: "io \<Rightarrow> files \<Rightarrow> descriptor \<Rightarrow> string \<Rightarrow> files \<times> descriptor \<times> int" where
  "write_fd io fs fd bytes =
     (case write_result io (length bytes) of
        None \<Rightarrow> (fs, fd, -1)
      | Some k \<Rightarrow>
          let n = min k (length bytes); (i, pos) = fd
          in (fs\<lparr>contents := (contents fs)(i := overwrite (contents fs i) pos (take n bytes))\<rparr>,
              (i, pos + n), int n))"

definition truncate_fd :: "files \<Rightarrow> nat \<Rightarrow> nat \<Rightarrow> files" where
  "truncate_fd fs i len = fs\<lparr>contents := (contents fs)(i := resize len (contents fs i))\<rparr>"

section \<open>NuRaft buffers\<close>

text \<open>
  \<open>buffer_serializer::get_u64\<close>, \<open>get_u32\<close> and \<open>get_u8\<close> at a position; the bytes that \<open>buffer::put\<close>
  stores for a byte and for a buffer; \<open>buffer::get_byte\<close> at the start of a buffer and
  \<open>buffer::copy\<close> of what follows it; the number of \<open>log_val_type::app_log\<close>.
\<close>

record nuraft =
  bs_get_u64 :: "string \<Rightarrow> nat \<Rightarrow> uint64"
  bs_get_u32 :: "string \<Rightarrow> nat \<Rightarrow> uint32"
  bs_get_u8 :: "string \<Rightarrow> nat \<Rightarrow> 8 word"
  buf_put_byte :: "8 word \<Rightarrow> string"
  buf_put :: "string \<Rightarrow> string"
  buf_get_byte :: "string \<Rightarrow> 8 word"
  buf_copy :: "string \<Rightarrow> string"
  app_log :: "8 word"

text \<open>The documented behaviour: little-endian reads and verbatim copies.\<close>

definition buffers_ok :: "nuraft \<Rightarrow> bool" where
  "buffers_ok N \<longleftrightarrow>
     (\<forall>b pos. pos + 8 \<le> length b \<longrightarrow> bs_get_u64 N b pos = pod_word (take 8 (drop pos b)))
   \<and> (\<forall>b pos. pos + 4 \<le> length b \<longrightarrow> bs_get_u32 N b pos = pod_word (take 4 (drop pos b)))
   \<and> (\<forall>b pos. pos < length b \<longrightarrow> bs_get_u8 N b pos = of_char (b ! pos))
   \<and> (\<forall>v. buf_put_byte N v = [char_of (unat v)])
   \<and> (\<forall>b. buf_put N b = b)
   \<and> (\<forall>c b. buf_get_byte N (c # b) = of_char c)
   \<and> (\<forall>c b. buf_copy N (c # b) = b)"

definition plain_buffers :: nuraft where
  "plain_buffers =
     \<lparr>bs_get_u64 = (\<lambda>b pos. pod_word (take 8 (drop pos b))),
      bs_get_u32 = (\<lambda>b pos. pod_word (take 4 (drop pos b))),
      bs_get_u8 = (\<lambda>b pos. of_char (b ! pos)),
      buf_put_byte = (\<lambda>v. [char_of (unat v)]), buf_put = (\<lambda>b. b),
      buf_get_byte = (\<lambda>b. of_char (hd b)), buf_copy = tl, app_log = 1\<rparr>"

lemma plain_buffers_ok: "buffers_ok plain_buffers"
  by (simp add: buffers_ok_def plain_buffers_def)

section \<open>Formats of file names\<close>

text \<open>\<open>snprintf\<close> with a buffer of 1024 bytes.\<close>

definition format_open :: "uint64 \<Rightarrow> string \<Rightarrow> string" where
  "format_open first create_time =
     take 1023 (''log_'' @ nat_to_string (unat first) @ ''_open_'' @ create_time)"

definition format_finish :: "uint64 \<Rightarrow> uint64 \<Rightarrow> string \<Rightarrow> string" where
  "format_finish first last_idx create_time =
     take 1023 (''log_'' @ nat_to_string (unat first) @ ''_'' @ nat_to_string (unat last_idx) @ ''_'' @ create_time)"

text \<open>
  The conversions of \<open>sscanf\<close>: literal text, \<open>%lu\<close> (white space, an optional sign and at least one
  digit; values out of range saturate) and \<open>%s\<close> (white space, then at least one other character).
\<close>

definition is_space :: "char \<Rightarrow> bool" where
  "is_space c \<longleftrightarrow> (of_char c :: nat) \<in> {9, 10, 11, 12, 13, 32}"

definition scan_literal :: "string \<Rightarrow> string \<Rightarrow> string option" where
  "scan_literal lit s = (if take (length lit) s = lit then Some (drop (length lit) s) else None)"

definition scan_ulong :: "string \<Rightarrow> (uint64 \<times> string) option" where
  "scan_ulong s =
     (let s1 = dropWhile is_space s;
          negative = (s1 \<noteq> [] \<and> hd s1 = CHR ''-'');
          s2 = (if s1 \<noteq> [] \<and> hd s1 \<in> {CHR ''-'', CHR ''+''} then tl s1 else s1);
          digits = takeWhile is_digit s2;
          v = digits_val digits
      in if digits = [] then None
         else Some (if v \<ge> 2 ^ 64 then -1 else if negative then - of_nat v else of_nat v,
                    dropWhile is_digit s2))"

definition scan_word :: "string \<Rightarrow> (string \<times> string) option" where
  "scan_word s =
     (let s1 = dropWhile is_space s; w = takeWhile (\<lambda>c. \<not> is_space c) s1
      in if w = [] then None else Some (w, dropWhile (\<lambda>c. \<not> is_space c) s1))"

text \<open>\<open>sscanf(name, "log_%lu_%lu_%s", ...) == 3\<close> and \<open>sscanf(name, "log_%lu_open_%s", ...) == 2\<close>.\<close>

definition parse_finish :: "string \<Rightarrow> (uint64 \<times> uint64 \<times> string) option" where
  "parse_finish name =
     (case scan_literal ''log_'' name of None \<Rightarrow> None | Some s1 \<Rightarrow>
      (case scan_ulong s1 of None \<Rightarrow> None | Some (first, s2) \<Rightarrow>
       (case scan_literal ''_'' s2 of None \<Rightarrow> None | Some s3 \<Rightarrow>
        (case scan_ulong s3 of None \<Rightarrow> None | Some (last_idx, s4) \<Rightarrow>
         (case scan_literal ''_'' s4 of None \<Rightarrow> None | Some s5 \<Rightarrow>
          (case scan_word s5 of None \<Rightarrow> None | Some (create_time, _) \<Rightarrow>
            Some (first, last_idx, create_time)))))))"

definition parse_open :: "string \<Rightarrow> (uint64 \<times> string) option" where
  "parse_open name =
     (case scan_literal ''log_'' name of None \<Rightarrow> None | Some s1 \<Rightarrow>
      (case scan_ulong s1 of None \<Rightarrow> None | Some (first, s2) \<Rightarrow>
       (case scan_literal ''_open_'' s2 of None \<Rightarrow> None | Some s3 \<Rightarrow>
        (case scan_word s3 of None \<Rightarrow> None | Some (create_time, _) \<Rightarrow> Some (first, create_time)))))"

section \<open>Lemmas\<close>

named_theorems log_simps

lemma resize_take [log_simps]: "n \<le> length c \<Longrightarrow> resize n c = take n c"
  by (simp add: resize_def)

lemma overwrite_end [log_simps]: "overwrite c (length c) bytes = c @ bytes"
  by (simp add: overwrite_def resize_def)

lemma pread_exact [log_simps]: "length a = off \<Longrightarrow> length b = n \<Longrightarrow> pread (a @ b @ c) n off = b"
  by (simp add: pread_def)

lemma unat_bound: "unat (v :: 'a :: len word) < 2 ^ LENGTH('a)"
  by (rule unsigned_less)

lemma byte_of_char: "of_char (char_of (unat (v :: 8 word))) = v"
proof -
  have "unat v < 256" using unat_bound [of v] by simp
  then have "(of_char (char_of (unat v)) :: nat) = unat v" by simp
  then have "(of_nat (of_char (char_of (unat v))) :: 8 word) = of_nat (unat v)" by (rule arg_cong)
  then show ?thesis unfolding of_nat_of_char by simp
qed

lemma nat_to_string_nonempty: "nat_to_string n \<noteq> []"
  by (subst nat_to_string.simps) simp

lemma digit_no_space: "is_digit c \<Longrightarrow> \<not> is_space c"
  by (auto simp: is_digit_def is_space_def)

lemma scan_ulong_print:
  assumes "rest = [] \<or> \<not> is_digit (hd rest)"
  shows "scan_ulong (nat_to_string (unat (n :: uint64)) @ rest) = Some (n, rest)"
proof -
  let ?d = "nat_to_string (unat n)"
  have dig: "\<forall>c\<in>set ?d. is_digit c" by (simp add: nat_to_string_digits)
  obtain c cs where d: "?d = c # cs" by (cases ?d) (simp_all add: nat_to_string_nonempty)
  with dig have c: "is_digit c" by simp
  then have sgn: "c \<noteq> CHR ''-''" "c \<noteq> CHR ''+''" by (auto simp: is_digit_def)
  have tw: "takeWhile is_digit (?d @ rest) = ?d" "dropWhile is_digit (?d @ rest) = rest"
    using dig assms by (cases rest; simp add: takeWhile_append dropWhile_append)+
  have "digits_val ?d < 2 ^ 64"
    using unat_bound [of n] by (simp add: digits_val_nat_to_string)
  then show ?thesis
    unfolding scan_ulong_def Let_def
    using c sgn tw d digits_val_nat_to_string [of "unat n"]
    by (simp add: digit_no_space)
qed

definition time_ok :: "string \<Rightarrow> bool" where
  "time_ok t \<longleftrightarrow> t \<noteq> [] \<and> (\<forall>c\<in>set t. \<not> is_space c) \<and> length t < 128"

lemma scan_word_time: "time_ok t \<Longrightarrow> scan_word t = Some (t, [])"
proof -
  assume t: "time_ok t"
  then have "dropWhile is_space t = t" by (cases t) (simp_all add: time_ok_def)
  moreover have "takeWhile (\<lambda>c. \<not> is_space c) t = t" "dropWhile (\<lambda>c. \<not> is_space c) t = []"
    using t by (simp_all add: time_ok_def)
  moreover have "t \<noteq> []" using t by (simp add: time_ok_def)
  ultimately show ?thesis by (simp only: scan_word_def Let_def if_False)
qed

lemma index_digits: "length (nat_to_string (unat (n :: uint64))) \<le> 20"
proof -
  have "unat n < 10 ^ 20" using unat_bound [of n] by simp
  then show ?thesis by (rule nat_to_string_length) simp
qed

lemma format_open_eq:
  "time_ok t \<Longrightarrow> format_open f t = ''log_'' @ nat_to_string (unat f) @ ''_open_'' @ t"
  unfolding format_open_def time_ok_def using index_digits [of f] by (intro take_all) simp

lemma format_finish_eq:
  "time_ok t \<Longrightarrow> format_finish f l t =
     ''log_'' @ nat_to_string (unat f) @ ''_'' @ nat_to_string (unat l) @ ''_'' @ t"
  unfolding format_finish_def time_ok_def using index_digits [of f] index_digits [of l]
  by (intro take_all) simp

lemma scan_literal_append [log_simps]: "scan_literal lit (lit @ s) = Some s"
  by (simp add: scan_literal_def)

lemma underscore_no_digit [log_simps]: "\<not> is_digit CHR ''_''" "\<not> is_digit CHR ''o''"
  by (simp_all add: is_digit_def)

lemma parse_format_open: "time_ok t \<Longrightarrow> parse_open (format_open f t) = Some (f, t)"
  by (simp only: parse_open_def format_open_eq scan_literal_append option.case)
     (simp add: scan_ulong_print underscore_no_digit scan_literal_def scan_word_time)

lemma parse_format_finish: "time_ok t \<Longrightarrow> parse_finish (format_finish f l t) = Some (f, l, t)"
  by (simp only: parse_finish_def format_finish_eq scan_literal_append option.case)
     (simp add: scan_ulong_print underscore_no_digit scan_literal_def scan_word_time)

lemma scan_ulong_letter: "scan_ulong (CHR ''o'' # s) = None"
  by (simp add: scan_ulong_def Let_def is_space_def is_digit_def)

lemma parse_finish_open: "time_ok t \<Longrightarrow> parse_finish (format_open f t) = None"
  by (simp only: parse_finish_def format_open_eq scan_literal_append option.case)
     (simp add: scan_ulong_print underscore_no_digit scan_literal_def scan_ulong_letter)

end
