(* ===== verification/Log_Segment.thy ===== *)
theory Log_Segment
  imports Log_Files
begin

text \<open>
  \<open>src/src/Service/LogEntry.cpp\<close> and the class \<open>NuRaftLogSegment\<close>: one file of the raft log. The
  operations take the file system and the segment and return both; sizes and offsets within a file
  are natural numbers, log indexes are 64-bit words. The mutex of a segment makes each operation
  atomic.
\<close>

section \<open>Entries\<close>

record log_entry =
  le_term :: uint64
  le_type :: "8 word"
  le_buf :: string

definition serializeEntry :: "nuraft \<Rightarrow> log_entry \<Rightarrow> string" where
  "serializeEntry N entry = buf_put_byte N (le_type entry) @ buf_put N (le_buf entry)"

definition parseEntry :: "nuraft \<Rightarrow> string \<Rightarrow> uint64 \<Rightarrow> log_entry" where
  "parseEntry N entry_str term =
     \<lparr>le_term = term, le_type = buf_get_byte N entry_str, le_buf = buf_copy N entry_str\<rparr>"

text \<open>The header of a record; its memory is written as it is, little-endian fields without padding.\<close>

record LogEntryHeader =
  h_term :: uint64
  h_index :: uint64
  h_data_length :: uint32
  h_data_crc :: uint32

definition HEADER_SIZE :: nat where
  "HEADER_SIZE = 24"

definition header_bytes :: "LogEntryHeader \<Rightarrow> string" where
  "header_bytes h = pod_bytes (h_term h) @ pod_bytes (h_index h) @ pod_bytes (h_data_length h) @ pod_bytes (h_data_crc h)"

definition magic_array :: string where
  "magic_array = char_of (0 :: nat) # ''RaftLog''"

definition CURRENT_LOG_VERSION :: "8 word" where
  "CURRENT_LOG_VERSION = 1"

section \<open>The segment\<close>

record segment =
  first_index :: uint64
  last_index :: uint64
  file_name :: string
  create_time :: string
  seg_fd :: "descriptor option"
  file_size :: nat
  is_open :: bool
  offset_term :: "(nat \<times> uint64) list"
  seg_version :: "8 word"

definition new_open_segment :: "uint64 \<Rightarrow> string \<Rightarrow> string \<Rightarrow> segment" where
  "new_open_segment first name time =
     \<lparr>first_index = first, last_index = first - 1, file_name = name, create_time = time, seg_fd = None,
      file_size = 0, is_open = True, offset_term = [], seg_version = CURRENT_LOG_VERSION\<rparr>"

text \<open>The constructor for closed segments sets neither the creation time nor the version.\<close>

definition new_closed_segment :: "io \<Rightarrow> uint64 \<Rightarrow> uint64 \<Rightarrow> string \<Rightarrow> segment" where
  "new_closed_segment io first last_idx name =
     \<lparr>first_index = first, last_index = last_idx, file_name = name, create_time = [], seg_fd = None,
      file_size = 0, is_open = False, offset_term = [], seg_version = garbage io\<rparr>"

definition compareSegment :: "segment \<Rightarrow> segment \<Rightarrow> bool" where
  "compareSegment seg1 seg2 \<longleftrightarrow> first_index seg1 < first_index seg2"

definition getOpenFileName :: "segment \<Rightarrow> string" where
  "getOpenFileName seg = format_open (first_index seg) (create_time seg)"

definition getFinishFileName :: "segment \<Rightarrow> string" where
  "getFinishFileName seg = format_finish (first_index seg) (last_index seg) (create_time seg)"

definition getFileName :: "segment \<Rightarrow> string" where
  "getFileName seg =
     (if file_name seg \<noteq> [] then file_name seg
      else if is_open seg then getOpenFileName seg
      else getFinishFileName seg)"

definition openFile :: "io \<Rightarrow> files \<Rightarrow> segment \<Rightarrow> segment \<times> int" where
  "openFile io fs seg =
     (if seg_fd seg \<noteq> None then (seg, 0)
      else case dir fs (getFileName seg) of
             None \<Rightarrow> (seg, -1)
           | Some i \<Rightarrow> if open_ok io then (seg\<lparr>seg_fd := Some (i, 0)\<rparr>, 0) else (seg, -1))"

definition closeFile :: "segment \<Rightarrow> segment" where
  "closeFile seg = seg\<lparr>seg_fd := None\<rparr>"

definition seg_create :: "io \<Rightarrow> files \<Rightarrow> segment \<Rightarrow> files \<times> segment \<times> int" where
  "seg_create io fs seg =
     (if \<not> is_open seg then (fs, seg, -1)
      else
        let seg1 = seg\<lparr>create_time := clock io\<rparr>;
            seg2 = seg1\<lparr>file_name := getOpenFileName seg1\<rparr>
        in if exists_file fs (getOpenFileName seg2) then (fs, seg2, -1)
           else if \<not> open_ok io then (fs, seg2\<lparr>seg_fd := None\<rparr>, -1)
           else (create_file fs (getOpenFileName seg2), seg2\<lparr>seg_fd := Some (next_inode fs, 0)\<rparr>, 0))"

definition writeFileHeader :: "io \<Rightarrow> files \<Rightarrow> segment \<Rightarrow> files \<times> segment \<times> (log_exc + unit)" where
  "writeFileHeader io fs seg =
     (if \<not> is_open seg then (fs, seg, Inl LOG_LOGICAL_ERROR)
      else case seg_fd seg of
             None \<Rightarrow> (fs, seg, Inl LOG_LOGICAL_ERROR)
           | Some fd \<Rightarrow>
               (case write_fd io fs fd magic_array of (fs1, fd1, n1) \<Rightarrow>
                  if n1 \<noteq> 8 then (fs1, seg\<lparr>seg_fd := Some fd1\<rparr>, Inl CANNOT_WRITE_TO_FILE_DESCRIPTOR)
                  else
                    (case write_fd io fs1 fd1 [char_of (unat (seg_version seg))] of (fs2, fd2, n2) \<Rightarrow>
                       if n2 \<noteq> 1 then (fs2, seg\<lparr>seg_fd := Some fd2\<rparr>, Inl CANNOT_WRITE_TO_FILE_DESCRIPTOR)
                       else (fs2, seg\<lparr>seg_fd := Some fd2, file_size := file_size seg + 9\<rparr>, Inr ()))))"

section \<open>Loading\<close>

definition loadVersion :: "nuraft \<Rightarrow> string \<Rightarrow> log_exc + (8 word \<times> nat)" where
  "loadVersion N content =
     (let buf = pread content 9 0
      in if length buf \<noteq> 9 then Inl CANNOT_READ_FROM_FILE_DESCRIPTOR
         else if bs_get_u64 N buf 0 = pod_word magic_array then Inr (bs_get_u8 N buf 8, 9)
         else Inr (0, 0))"

definition loadHeader :: "nuraft \<Rightarrow> string \<Rightarrow> nat \<Rightarrow> LogEntryHeader option" where
  "loadHeader N content offset =
     (let buf = pread content HEADER_SIZE offset
      in if length buf \<noteq> HEADER_SIZE then None
         else Some \<lparr>h_term = bs_get_u64 N buf 0, h_index = bs_get_u64 N buf 8,
                    h_data_length = bs_get_u32 N buf 16, h_data_crc = bs_get_u32 N buf 20\<rparr>)"

function load_loop ::
    "nuraft \<Rightarrow> string \<Rightarrow> nat \<Rightarrow> nat \<Rightarrow> uint64 \<Rightarrow> (nat \<times> uint64) list \<Rightarrow> nat \<times> uint64 \<times> (nat \<times> uint64) list \<times> int" where
  "load_loop N content fsize entry_off actual_last ot =
     (if entry_off < fsize then
        (case loadHeader N content entry_off of
           None \<Rightarrow> (entry_off, actual_last, ot, -1)
         | Some header \<Rightarrow>
             let skip_len = HEADER_SIZE + unat (h_data_length header)
             in if fsize < entry_off + skip_len then (entry_off, actual_last, ot, -1)
                else load_loop N content fsize (entry_off + skip_len) (actual_last + 1)
                       (ot @ [(entry_off, h_term header)]))
      else (entry_off, actual_last, ot, 0))"
  by pat_completeness auto
termination
  by (relation "measure (\<lambda>(N, content, fsize, entry_off, actual_last, ot). fsize - entry_off)")
     (auto simp: HEADER_SIZE_def)

declare load_loop.simps [simp del]

definition load :: "nuraft \<Rightarrow> io \<Rightarrow> files \<Rightarrow> segment \<Rightarrow> files \<times> segment \<times> (log_exc + int)" where
  "load N io fs seg =
     (case openFile io fs seg of (seg1, r) \<Rightarrow>
      (case seg_fd seg1 of
         None \<Rightarrow> (fs, seg1, Inr (-1))
       | Some (i, pos) \<Rightarrow>
           let content = contents fs i; seg2 = seg1\<lparr>file_size := length content\<rparr>
           in case loadVersion N content of
                Inl e \<Rightarrow> (fs, seg2, Inl e)
              | Inr (ver, off0) \<Rightarrow>
                  (case load_loop N content (length content) off0 (first_index seg - 1) (offset_term seg) of
                     (off, actual_last, ot, ret) \<Rightarrow>
                       let seg3 = seg2\<lparr>seg_version := ver, offset_term := ot\<rparr>;
                           ret1 = (if ret = 0 \<and> \<not> is_open seg \<and> actual_last \<noteq> last_index seg then -1 else ret)
                       in if ret1 \<noteq> 0 then (fs, seg3, Inr ret1)
                          else
                            let seg4 = (if is_open seg then seg3\<lparr>last_index := actual_last\<rparr> else seg3);
                                (fs1, ret2) =
                                  (if off \<noteq> length content
                                   then if truncate_ok io then (truncate_fd fs i off, 0) else (fs, -1)
                                   else (fs, 0))
                            in (fs1,
                                seg4\<lparr>file_size := off, seg_fd := (if is_open seg then Some (i, off) else Some (i, pos))\<rparr>,
                                Inr ret2))))"

section \<open>Closing, removing, flushing\<close>

definition seg_close :: "files \<Rightarrow> segment \<Rightarrow> bool \<Rightarrow> files \<times> segment \<times> (log_exc + int)" where
  "seg_close fs seg is_full =
     (if \<not> is_open seg then (fs, seg, Inr 0)
      else
        let seg1 = closeFile seg
        in if is_full then
             let seg2 = seg1\<lparr>is_open := False\<rparr>
             in case rename_file fs (getOpenFileName seg1) (getFinishFileName seg1) of
                  Inl e \<Rightarrow> (fs, seg2, Inl e)
                | Inr fs1 \<Rightarrow> (fs1, seg2\<lparr>file_name := getFinishFileName seg2\<rparr>, Inr 0)
           else (fs, seg1, Inr 0))"

definition seg_flush :: "io \<Rightarrow> segment \<Rightarrow> uint64" where
  "seg_flush io seg = (if seg_fd seg \<noteq> None \<and> sync_ok io then last_index seg else 0)"

definition seg_remove :: "files \<Rightarrow> segment \<Rightarrow> files \<times> segment" where
  "seg_remove fs seg =
     (let seg1 = closeFile seg; name = getFileName seg1
      in (if exists_file fs name then remove_file fs name else fs, seg1))"

section \<open>Appending and reading\<close>

definition record_header :: "uint64 \<Rightarrow> uint64 \<Rightarrow> string \<Rightarrow> LogEntryHeader" where
  "record_header term index entry_str =
     (let len = of_nat (length entry_str) :: uint32
      in \<lparr>h_term = term, h_index = index, h_data_length = len,
          h_data_crc = getCRC32 (take (unat len) entry_str)\<rparr>)"

definition seg_appendEntry ::
    "nuraft \<Rightarrow> io \<Rightarrow> files \<Rightarrow> segment \<Rightarrow> log_entry option \<Rightarrow> uint64 \<Rightarrow> files \<times> segment \<times> uint64 \<times> uint64" where
  "seg_appendEntry N io fs seg entry last_log_index =
     (case entry of
        None \<Rightarrow> (fs, seg, last_log_index, -1)
      | Some e \<Rightarrow>
          let entry_str = serializeEntry N e
          in if \<not> is_open seg \<or> entry_str = [] then (fs, seg, last_log_index, -1)
             else case seg_fd seg of
               None \<Rightarrow> (fs, seg, last_log_index, -1)
             | Some fd \<Rightarrow>
                 let header = record_header (le_term e) (last_index seg + 1) entry_str;
                     dlen = unat (h_data_length header);
                     bytes = header_bytes header @ take dlen entry_str
                 in case write_fd io fs fd bytes of (fs1, fd1, ret) \<Rightarrow>
                      let seg1 = seg\<lparr>seg_fd := Some fd1\<rparr>
                      in if ret \<noteq> int (HEADER_SIZE + dlen) then (fs1, seg1, last_log_index, -1)
                         else
                           let seg2 = seg1\<lparr>offset_term := offset_term seg @ [(file_size seg, le_term e)],
                                 file_size := file_size seg + HEADER_SIZE + dlen,
                                 last_index := last_index seg + 1\<rparr>
                           in (fs1, seg2, last_index seg2, h_index header))"

record LogMeta =
  m_offset :: nat
  m_length :: uint64
  m_term :: uint64

definition getMeta :: "segment \<Rightarrow> uint64 \<Rightarrow> log_exc + LogMeta option" where
  "getMeta seg index =
     (if last_index seg = first_index seg - 1 \<or> last_index seg < index \<or> index < first_index seg then Inr None
      else
        let meta_index = unat (index - first_index seg); ot = offset_term seg
        in if length ot \<le> meta_index \<or> (index < last_index seg \<and> length ot \<le> meta_index + 1)
           then Inl INDEX_OUT_OF_RANGE
           else
             let entry_offset = fst (ot ! meta_index);
                 next_offset = (if index < last_index seg then fst (ot ! (meta_index + 1)) else file_size seg)
             in Inr (Some \<lparr>m_offset = entry_offset, m_length = of_nat next_offset - of_nat entry_offset,
                  m_term = snd (ot ! meta_index)\<rparr>))"

definition loadEntry :: "nuraft \<Rightarrow> string \<Rightarrow> nat \<Rightarrow> log_entry option" where
  "loadEntry N content offset =
     (case loadHeader N content offset of
        None \<Rightarrow> None
      | Some header \<Rightarrow>
          let len = unat (h_data_length header);
              entry_str = pread content len (offset + HEADER_SIZE)
          in if length entry_str \<noteq> len then None
             else if \<not> verifyCRC32 entry_str (h_data_crc header) then None
             else Some (parseEntry N entry_str (h_term header)))"

definition seg_getEntry ::
    "nuraft \<Rightarrow> io \<Rightarrow> files \<Rightarrow> segment \<Rightarrow> uint64 \<Rightarrow> segment \<times> (log_exc + log_entry option)" where
  "seg_getEntry N io fs seg index =
     (case openFile io fs seg of (seg1, r) \<Rightarrow>
      (case seg_fd seg1 of
         None \<Rightarrow> (seg1, Inr None)
       | Some (i, pos) \<Rightarrow>
           (case getMeta seg1 index of
              Inl e \<Rightarrow> (seg1, Inl e)
            | Inr None \<Rightarrow> (seg1, Inr None)
            | Inr (Some meta) \<Rightarrow> (seg1, Inr (loadEntry N (contents fs i) (m_offset meta))))))"

definition seg_getTerm :: "segment \<Rightarrow> uint64 \<Rightarrow> log_exc + uint64" where
  "seg_getTerm seg index =
     (case getMeta seg index of
        Inl e \<Rightarrow> Inl e
      | Inr None \<Rightarrow> Inr 0
      | Inr (Some meta) \<Rightarrow> Inr (m_term meta))"

section \<open>Truncation\<close>

definition seg_truncate :: "io \<Rightarrow> files \<Rightarrow> segment \<Rightarrow> uint64 \<Rightarrow> files \<times> segment \<times> (log_exc + int)" where
  "seg_truncate io fs seg last_index_kept =
     (if last_index seg \<le> last_index_kept then (fs, seg, Inr 0)
      else
        let n = unat (last_index_kept + 1 - first_index seg)
        in if length (offset_term seg) \<le> n then (fs, seg, Inl INDEX_OUT_OF_RANGE)
           else
             let truncate_size = fst (offset_term seg ! n);
                 reopened =
                   (if is_open seg then Inr (fs, seg)
                    else case rename_file fs (getFinishFileName seg) (getOpenFileName seg) of
                           Inl e \<Rightarrow> Inl e
                         | Inr fs1 \<Rightarrow> Inr (fs1, seg\<lparr>file_name := getOpenFileName seg, is_open := True\<rparr>))
             in case reopened of
                  Inl e \<Rightarrow> (fs, seg, Inl e)
                | Inr (fs1, seg1) \<Rightarrow>
                    let seg2 = fst (openFile io fs1 seg1)
                    in case seg_fd seg2 of
                         None \<Rightarrow> (fs1, seg2, Inr (-1))
                       | Some (i, pos) \<Rightarrow>
                           if \<not> truncate_ok io then (fs1, seg2, Inr (-1))
                           else (truncate_fd fs1 i truncate_size,
                                 seg2\<lparr>seg_fd := Some (i, truncate_size), offset_term := take n (offset_term seg2),
                                   last_index := last_index_kept, file_size := truncate_size\<rparr>, Inr 0))"

end
