(* ===== verification/Log_Segment_Facts.thy ===== *)
theory Log_Segment_Facts
  imports Log_Segment
begin

text \<open>
  What a segment file holds: a header of nine bytes and one record per entry. The invariant relates
  the file, the index of offsets in memory and the entries; appending, reading, truncating, closing
  and loading keep it, and loading rebuilds it from the file alone.
\<close>

section \<open>Records\<close>

definition record_bytes :: "nuraft \<Rightarrow> uint64 \<Rightarrow> log_entry \<Rightarrow> string" where
  "record_bytes N idx e = header_bytes (record_header (le_term e) idx (serializeEntry N e)) @ serializeEntry N e"

primrec records :: "nuraft \<Rightarrow> uint64 \<Rightarrow> log_entry list \<Rightarrow> string" where
  "records N idx [] = []"
| "records N idx (e # es) = record_bytes N idx e @ records N (idx + 1) es"

primrec offsets :: "nuraft \<Rightarrow> nat \<Rightarrow> log_entry list \<Rightarrow> (nat \<times> uint64) list" where
  "offsets N off [] = []"
| "offsets N off (e # es) = (off, le_term e) # offsets N (off + HEADER_SIZE + length (serializeEntry N e)) es"

definition entry_ok :: "log_entry \<Rightarrow> bool" where
  "entry_ok e \<longleftrightarrow> length (le_buf e) + 1 < 2 ^ 32"

definition file_header :: "8 word \<Rightarrow> string" where
  "file_header ver = magic_array @ [char_of (unat ver)]"

lemma length_file_header [simp]: "length (file_header ver) = 9"
  by (simp add: file_header_def magic_array_def)

lemma length_header_bytes [simp]: "length (header_bytes h) = HEADER_SIZE"
  by (simp add: header_bytes_def HEADER_SIZE_def)

lemma length_record_bytes: "length (record_bytes N idx e) = HEADER_SIZE + length (serializeEntry N e)"
  by (simp add: record_bytes_def)

lemma length_offsets [simp]: "length (offsets N off es) = length es"
  by (induction es arbitrary: off) simp_all

lemma records_append: "records N idx (es @ fs) = records N idx es @ records N (idx + of_nat (length es)) fs"
  by (induction es arbitrary: idx) (simp_all add: ac_simps)

primrec rec_size :: "nuraft \<Rightarrow> log_entry list \<Rightarrow> nat" where
  "rec_size N [] = 0"
| "rec_size N (e # es) = HEADER_SIZE + length (serializeEntry N e) + rec_size N es"

lemma length_records [simp]: "length (records N idx es) = rec_size N es"
  by (induction es arbitrary: idx) (simp_all add: length_record_bytes)

lemma rec_size_append [simp]: "rec_size N (es @ fs) = rec_size N es + rec_size N fs"
  by (induction es) simp_all

lemma offsets_append: "offsets N off (es @ fs) = offsets N off es @ offsets N (off + rec_size N es) fs"
  by (induction es arbitrary: off) (simp_all add: add.assoc)

lemma offsets_nth:
  "k < length es \<Longrightarrow> offsets N off es ! k = (off + rec_size N (take k es), le_term (es ! k))"
proof (induction es arbitrary: off k)
  case (Cons e es)
  then show ?case by (cases k) simp_all
qed simp

lemma offsets_take: "take k (offsets N off es) = offsets N off (take k es)"
  by (induction es arbitrary: off k) (simp_all add: take_Cons')

section \<open>Reading a record back\<close>

lemma buffers_okD:
  assumes "buffers_ok N"
  shows "pos + 8 \<le> length b \<Longrightarrow> bs_get_u64 N b pos = pod_word (take 8 (drop pos b))"
    and "pos + 4 \<le> length b \<Longrightarrow> bs_get_u32 N b pos = pod_word (take 4 (drop pos b))"
    and "pos < length b \<Longrightarrow> bs_get_u8 N b pos = of_char (b ! pos)"
    and "serializeEntry N e = char_of (unat (le_type e)) # le_buf e"
  using assms by (simp_all add: buffers_ok_def serializeEntry_def)

lemma parse_serialize: "buffers_ok N \<Longrightarrow> parseEntry N (serializeEntry N e) (le_term e) = e"
  by (simp add: buffers_okD(4)) (simp add: parseEntry_def buffers_ok_def byte_of_char)

lemma serialize_length:
  assumes "buffers_ok N" and "entry_ok e"
  shows "unat (of_nat (length (serializeEntry N e)) :: uint32) = length (serializeEntry N e)"
proof -
  have "length (serializeEntry N e) < 2 ^ 32" using assms by (simp add: buffers_okD(4) entry_ok_def)
  then show ?thesis by (subst unat_of_nat) simp
qed

lemma loadHeader_at:
  assumes N: "buffers_ok N" and "length pre = off"
  shows "loadHeader N (pre @ header_bytes h @ rest) off = Some h"
proof -
  have buf: "pread (pre @ header_bytes h @ rest) HEADER_SIZE off = header_bytes h"
    using assms(2) by (simp add: pread_exact)
  have fields: "take 8 (header_bytes h) = pod_bytes (h_term h)"
    "take 8 (drop 8 (header_bytes h)) = pod_bytes (h_index h)"
    "take 4 (drop 16 (header_bytes h)) = pod_bytes (h_data_length h)"
    "take 4 (drop 20 (header_bytes h)) = pod_bytes (h_data_crc h)"
    by (simp_all add: header_bytes_def)
  have "bs_get_u64 N (header_bytes h) 0 = h_term h" "bs_get_u64 N (header_bytes h) 8 = h_index h"
    "bs_get_u32 N (header_bytes h) 16 = h_data_length h" "bs_get_u32 N (header_bytes h) 20 = h_data_crc h"
    by (simp_all only: buffers_okD(1,2) [OF N] length_header_bytes HEADER_SIZE_def fields drop_0 pod_cancel)
  then show ?thesis by (simp add: loadHeader_def Let_def buf)
qed

lemma record_header_fields:
  assumes "buffers_ok N" and "entry_ok e"
  shows "unat (h_data_length (record_header (le_term e) idx (serializeEntry N e))) = length (serializeEntry N e)"
    and "h_data_crc (record_header (le_term e) idx (serializeEntry N e)) = getCRC32 (serializeEntry N e)"
    and "h_term (record_header (le_term e) idx (serializeEntry N e)) = le_term e"
    and "h_index (record_header (le_term e) idx (serializeEntry N e)) = idx"
  using serialize_length [OF assms] by (simp_all add: record_header_def Let_def)

lemma loadEntry_at:
  assumes "buffers_ok N" and "length pre = off" and "entry_ok e"
  shows "loadEntry N (pre @ record_bytes N idx e @ rest) off = Some e"
proof -
  let ?h = "record_header (le_term e) idx (serializeEntry N e)" and ?s = "serializeEntry N e"
  have body: "pread ((pre @ header_bytes ?h) @ ?s @ rest) (length ?s) (off + HEADER_SIZE) = ?s"
    using assms(2) by (intro pread_exact) simp_all
  have head: "loadHeader N (pre @ record_bytes N idx e @ rest) off = Some ?h"
    using loadHeader_at [OF assms(1,2), of ?h "?s @ rest"] by (simp add: record_bytes_def)
  have body': "pread (pre @ record_bytes N idx e @ rest) (length ?s) (off + HEADER_SIZE) = ?s"
    using body by (simp add: record_bytes_def)
  show ?thesis
    by (simp add: loadEntry_def head body' record_header_fields [OF assms(1,3)] Let_def verifyCRC32_def
        parse_serialize [OF assms(1)])
qed

lemma load_loop_step:
  assumes N: "buffers_ok N" and e: "entry_ok e" and c: "content = pre @ record_bytes N idx e @ rest"
  shows "load_loop N content (length content) (length pre) last_idx ot
      = load_loop N content (length content) (length pre + length (record_bytes N idx e)) (last_idx + 1)
          (ot @ [(length pre, le_term e)])"
proof -
  let ?h = "record_header (le_term e) idx (serializeEntry N e)"
  have h: "loadHeader N content (length pre) = Some ?h"
    using loadHeader_at [OF N refl, of pre ?h "serializeEntry N e @ rest"] c by (simp add: record_bytes_def)
  have "length pre < length content" "\<not> length content < length pre + length (record_bytes N idx e)"
    by (simp_all add: c length_record_bytes HEADER_SIZE_def)
  then show ?thesis
    by (subst load_loop.simps)
       (simp add: h Let_def record_header_fields [OF N e] length_record_bytes del: length_append)
qed

lemma load_loop_records:
  assumes "buffers_ok N" and "\<forall>e\<in>set es. entry_ok e" and "content = pre @ records N idx es"
  shows "load_loop N content (length content) (length pre) last_idx ot
    = (length content, last_idx + of_nat (length es), ot @ offsets N (length pre) es, 0)"
  using assms(2,3)
proof (induction es arbitrary: pre idx last_idx ot)
  case Nil
  then show ?case by (simp add: load_loop.simps)
next
  case (Cons e es)
  have c: "content = (pre @ record_bytes N idx e) @ records N (idx + 1) es" using Cons.prems(2) by simp
  have "load_loop N content (length content) (length pre) last_idx ot
      = load_loop N content (length content) (length (pre @ record_bytes N idx e)) (last_idx + 1)
          (ot @ [(length pre, le_term e)])"
    unfolding length_append
    by (rule load_loop_step [OF assms(1), where rest = "records N (idx + 1) es"]) (use Cons.prems in simp_all)
  also have "\<dots> = (length content, last_idx + 1 + of_nat (length es),
      (ot @ [(length pre, le_term e)]) @ offsets N (length (pre @ record_bytes N idx e)) es, 0)"
    using Cons.prems(1) by (intro Cons.IH [OF _ c]) simp
  finally show ?case by (simp add: length_record_bytes add.assoc)
qed

lemma loadVersion_header:
  assumes N: "buffers_ok N" shows "loadVersion N (file_header ver @ rest) = Inr (ver, 9)"
proof -
  have "pread (file_header ver @ rest) 9 0 = file_header ver" by (simp add: pread_def)
  moreover have "take 8 (file_header ver) = magic_array" "file_header ver ! 8 = char_of (unat ver)"
    by (simp_all add: file_header_def magic_array_def)
  then have "bs_get_u64 N (file_header ver) 0 = pod_word magic_array" "bs_get_u8 N (file_header ver) 8 = ver"
    by (simp_all add: buffers_okD [OF N] byte_of_char)
  ultimately show ?thesis by (simp add: loadVersion_def Let_def)
qed

section \<open>The invariant\<close>

definition seg_ok :: "nuraft \<Rightarrow> files \<Rightarrow> segment \<Rightarrow> nat \<Rightarrow> log_entry list \<Rightarrow> bool" where
  "seg_ok N fs seg i es \<longleftrightarrow>
     file_name seg \<noteq> [] \<and> dir fs (file_name seg) = Some i
   \<and> contents fs i = file_header (seg_version seg) @ records N (first_index seg) es
   \<and> (is_open seg \<longrightarrow> seg_fd seg = Some (i, file_size seg))
   \<and> (\<forall>fd. seg_fd seg = Some fd \<longrightarrow> fst fd = i)
   \<and> file_size seg = 9 + rec_size N es \<and> offset_term seg = offsets N 9 es
   \<and> 0 < first_index seg \<and> unat (last_index seg) + 1 = unat (first_index seg) + length es
   \<and> (\<forall>e\<in>set es. entry_ok e)"

lemma seg_okD:
  assumes "seg_ok N fs seg i es"
  shows "file_name seg \<noteq> []" "dir fs (file_name seg) = Some i"
    "contents fs i = file_header (seg_version seg) @ records N (first_index seg) es"
    "is_open seg \<Longrightarrow> seg_fd seg = Some (i, file_size seg)"
    "seg_fd seg = Some fd \<Longrightarrow> fst fd = i"
    "file_size seg = 9 + rec_size N es" "offset_term seg = offsets N 9 es"
    "0 < first_index seg" "unat (last_index seg) + 1 = unat (first_index seg) + length es"
    "\<forall>e\<in>set es. entry_ok e"
  using assms unfolding seg_ok_def by blast+

lemma seg_ok_index:
  assumes "seg_ok N fs seg i es"
  shows "first_index seg + of_nat (length es) = last_index seg + 1"
proof -
  have "(of_nat (unat (first_index seg) + length es) :: uint64) = of_nat (unat (last_index seg) + 1)"
    by (rule arg_cong [OF seg_okD(9) [OF assms, symmetric]])
  then show ?thesis unfolding of_nat_add by simp
qed

definition writes_all :: "io \<Rightarrow> bool" where
  "writes_all io \<longleftrightarrow> (\<forall>n. \<exists>k. write_result io n = Some k \<and> n \<le> k)"

lemma write_fd_all:
  assumes "writes_all io"
  shows "write_fd io fs (i, pos) bytes =
    (fs\<lparr>contents := (contents fs)(i := overwrite (contents fs i) pos bytes)\<rparr>, (i, pos + length bytes), int (length bytes))"
proof -
  obtain k where "write_result io (length bytes) = Some k" "length bytes \<le> k"
    using assms unfolding writes_all_def by blast
  then show ?thesis by (simp add: write_fd_def Let_def min_def)
qed

definition appended :: "nuraft \<Rightarrow> segment \<Rightarrow> nat \<Rightarrow> log_entry \<Rightarrow> segment" where
  "appended N seg i e =
     (let n = HEADER_SIZE + length (serializeEntry N e)
      in seg\<lparr>seg_fd := Some (i, file_size seg + n), offset_term := offset_term seg @ [(file_size seg, le_term e)],
           file_size := file_size seg + n, last_index := last_index seg + 1\<rparr>)"

lemma append_result:
  assumes N: "buffers_ok N" and ok: "seg_ok N fs seg i es" and "is_open seg" and e: "entry_ok e" and io: "writes_all io"
  shows "seg_appendEntry N io fs seg (Some e) l =
    (fs\<lparr>contents := (contents fs)(i := contents fs i @ record_bytes N (last_index seg + 1) e)\<rparr>,
     appended N seg i e, last_index seg + 1, last_index seg + 1)"
proof -
  let ?h = "record_header (le_term e) (last_index seg + 1) (serializeEntry N e)"
  have fd: "seg_fd seg = Some (i, file_size seg)" using seg_okD(4) [OF ok] assms(3) by simp
  have ne: "serializeEntry N e \<noteq> []" by (simp add: buffers_okD(4) [OF N])
  have size: "file_size seg = length (contents fs i)"
    using seg_okD(3,6) [OF ok] by simp
  have bytes: "header_bytes ?h @ take (unat (h_data_length ?h)) (serializeEntry N e) = record_bytes N (last_index seg + 1) e"
    by (simp add: record_header_fields [OF N e] record_bytes_def)
  show ?thesis
    unfolding seg_appendEntry_def Let_def option.case bytes
    using assms(3) ne fd
    by (simp add: write_fd_all [OF io] bytes record_header_fields [OF N e] appended_def Let_def size
        overwrite_end length_record_bytes add.assoc)
qed

lemma unat_Suc: "n \<noteq> -1 \<Longrightarrow> unat (n + 1 :: uint64) = unat n + 1"
  using unatSuc [of n] eq_neg_iff_add_eq_0 [of n 1] by (simp add: add.commute)

lemma append_ok:
  assumes N: "buffers_ok N" and ok: "seg_ok N fs seg i es" and e: "entry_ok e"
    and room: "last_index seg \<noteq> -1"
  shows "seg_ok N (fs\<lparr>contents := (contents fs)(i := contents fs i @ record_bytes N (last_index seg + 1) e)\<rparr>)
    (appended N seg i e) i (es @ [e])"
proof -
  let ?fs = "fs\<lparr>contents := (contents fs)(i := contents fs i @ record_bytes N (last_index seg + 1) e)\<rparr>"
  have unat: "unat (last_index seg + 1) = unat (last_index seg) + 1"
    by (rule unat_Suc [OF room])
  have "contents ?fs i = file_header (seg_version seg) @ records N (first_index seg) (es @ [e])"
    by (simp add: seg_okD(3) [OF ok] records_append seg_ok_index [OF ok])
  moreover have "unat (last_index seg + 1) + 1 = unat (first_index seg) + length (es @ [e])"
    unfolding unat using seg_okD(9) [OF ok] by simp
  moreover have "offset_term (appended N seg i e) = offsets N 9 (es @ [e])"
    by (simp add: appended_def Let_def seg_okD(6,7) [OF ok] offsets_append)
  moreover have "\<forall>x\<in>set (es @ [e]). entry_ok x" using e seg_okD(10) [OF ok] by simp
  ultimately show ?thesis
    unfolding seg_ok_def using seg_okD(1,2,6,8) [OF ok]
    by (simp add: appended_def Let_def)
qed

section \<open>Reading\<close>

lemma openFile_ok:
  assumes ok: "seg_ok N fs seg i es" and "open_ok io"
  obtains p where "openFile io fs seg = (seg\<lparr>seg_fd := Some (i, p)\<rparr>, 0)"
    "is_open seg \<Longrightarrow> p = file_size seg" "seg_ok N fs (seg\<lparr>seg_fd := Some (i, p)\<rparr>) i es"
proof (cases "seg_fd seg")
  case None
  then have "openFile io fs seg = (seg\<lparr>seg_fd := Some (i, 0)\<rparr>, 0)"
    using seg_okD(1,2) [OF ok] assms(2) by (simp add: openFile_def getFileName_def)
  moreover have no: "\<not> is_open seg" using seg_okD(4) [OF ok] None by auto
  moreover have "seg_ok N fs (seg\<lparr>seg_fd := Some (i, 0)\<rparr>) i es" using ok no by (simp add: seg_ok_def)
  ultimately show ?thesis using that by blast
next
  case (Some fd)
  then obtain p where fd: "fd = (i, p)" using seg_okD(5) [OF ok Some] by (cases fd) simp
  then have same: "seg\<lparr>seg_fd := Some (i, p)\<rparr> = seg" using Some by simp
  then have "openFile io fs seg = (seg\<lparr>seg_fd := Some (i, p)\<rparr>, 0)" using Some by (simp add: openFile_def)
  moreover have "is_open seg \<Longrightarrow> p = file_size seg" using seg_okD(4) [OF ok] Some fd by simp
  ultimately show ?thesis using that ok same by metis
qed

lemma seg_index_bounds:
  assumes ok: "seg_ok N fs seg i es" and idx: "first_index seg \<le> index" "index \<le> last_index seg"
  shows "unat (index - first_index seg) < length es"
    "index < last_index seg \<longleftrightarrow> Suc (unat (index - first_index seg)) < length es"
    "last_index seg \<noteq> first_index seg - 1"
    "first_index seg + of_nat (unat (index - first_index seg)) = index"
proof -
  have u: "unat (index - first_index seg) = unat index - unat (first_index seg)" using idx by (simp add: unat_sub)
  have le: "unat (first_index seg) \<le> unat index" "unat index \<le> unat (last_index seg)"
    using idx by (simp_all add: word_le_nat_alt)
  show "unat (index - first_index seg) < length es"
    unfolding u using le seg_okD(9) [OF ok] by linarith
  show "index < last_index seg \<longleftrightarrow> Suc (unat (index - first_index seg)) < length es"
    unfolding u word_less_nat_alt using le seg_okD(9) [OF ok] by linarith
  have "unat (first_index seg - 1) < unat (first_index seg)"
    using seg_okD(8) [OF ok] by (metis measure_unat neq_iff not_gr_zero word_gt_0)
  with le have "unat (first_index seg - 1) \<noteq> unat (last_index seg)" by linarith
  then show "last_index seg \<noteq> first_index seg - 1" by metis
  show "first_index seg + of_nat (unat (index - first_index seg)) = index" by simp
qed

lemma getMeta_ok:
  assumes ok: "seg_ok N fs seg i es" and idx: "first_index seg \<le> index" "index \<le> last_index seg"
  obtains meta where "getMeta seg index = Inr (Some meta)"
    "m_offset meta = 9 + rec_size N (take (unat (index - first_index seg)) es)"
    "m_term meta = le_term (es ! unat (index - first_index seg))"
proof -
  let ?k = "unat (index - first_index seg)"
  note b = seg_index_bounds [OF ok idx]
  have len: "\<not> length (offset_term seg) \<le> ?k" "\<not> (index < last_index seg \<and> length (offset_term seg) \<le> ?k + 1)"
    using b(1,2) by (auto simp: seg_okD(7) [OF ok])
  have nth: "offset_term seg ! ?k = (9 + rec_size N (take ?k es), le_term (es ! ?k))"
    unfolding seg_okD(7) [OF ok] using b(1) by (rule offsets_nth)
  have "\<not> (last_index seg = first_index seg - 1 \<or> last_index seg < index \<or> index < first_index seg)"
    using b(3) idx by auto
  with len have "getMeta seg index = Inr (Some \<lparr>m_offset = fst (offset_term seg ! ?k),
      m_length = of_nat (if index < last_index seg then fst (offset_term seg ! (?k + 1)) else file_size seg)
        - of_nat (fst (offset_term seg ! ?k)),
      m_term = snd (offset_term seg ! ?k)\<rparr>)"
    unfolding getMeta_def Let_def by presburger
  with nth show ?thesis using that by simp
qed

lemma getMeta_outside:
  "index < first_index seg \<or> last_index seg < index \<Longrightarrow> getMeta seg index = Inr None"
  by (auto simp: getMeta_def)

lemma loadEntry_nth:
  assumes N: "buffers_ok N" and c: "content = file_header ver @ records N first es"
    and k: "k < length es" and es: "\<forall>e\<in>set es. entry_ok e"
  shows "loadEntry N content (9 + rec_size N (take k es)) = Some (es ! k)"
proof -
  have "es = take k es @ es ! k # drop (Suc k) es" using k by (rule id_take_nth_drop)
  then have "records N first es = records N first (take k es @ es ! k # drop (Suc k) es)" by (rule arg_cong)
  then have "content = (file_header ver @ records N first (take k es))
      @ record_bytes N (first + of_nat k) (es ! k) @ records N (first + of_nat k + 1) (drop (Suc k) es)"
    unfolding c records_append using k by simp
  then show ?thesis
    using loadEntry_at [OF N, of "file_header ver @ records N first (take k es)" "9 + rec_size N (take k es)" "es ! k"]
      k es by (simp del: append_assoc)
qed

lemma getEntry_ok:
  assumes N: "buffers_ok N" and ok: "seg_ok N fs seg i es" and io: "open_ok io"
    and idx: "first_index seg \<le> index" "index \<le> last_index seg"
  obtains p where "seg_getEntry N io fs seg index
      = (seg\<lparr>seg_fd := Some (i, p)\<rparr>, Inr (Some (es ! unat (index - first_index seg))))"
    "seg_ok N fs (seg\<lparr>seg_fd := Some (i, p)\<rparr>) i es"
proof -
  obtain p where op: "openFile io fs seg = (seg\<lparr>seg_fd := Some (i, p)\<rparr>, 0)"
    and ok1: "seg_ok N fs (seg\<lparr>seg_fd := Some (i, p)\<rparr>) i es"
    by (rule openFile_ok [OF ok io])
  obtain meta where "getMeta (seg\<lparr>seg_fd := Some (i, p)\<rparr>) index = Inr (Some meta)"
    and "m_offset meta = 9 + rec_size N (take (unat (index - first_index (seg\<lparr>seg_fd := Some (i, p)\<rparr>))) es)"
    by (rule getMeta_ok [OF ok1, of index]) (use idx in simp_all)
  then have "seg_getEntry N io fs seg index
      = (seg\<lparr>seg_fd := Some (i, p)\<rparr>, Inr (Some (es ! unat (index - first_index seg))))"
    using loadEntry_nth [OF N seg_okD(3) [OF ok] seg_index_bounds(1) [OF ok idx] seg_okD(10) [OF ok]]
    by (simp add: seg_getEntry_def op)
  then show ?thesis using that ok1 by blast
qed

lemma getTerm_ok:
  assumes ok: "seg_ok N fs seg i es" and idx: "first_index seg \<le> index" "index \<le> last_index seg"
  shows "seg_getTerm seg index = Inr (le_term (es ! unat (index - first_index seg)))"
  by (rule getMeta_ok [OF ok idx]) (simp add: seg_getTerm_def)

section \<open>Loading a segment from its file\<close>

lemma unat_last:
  assumes "0 < first" and "unat first + n \<le> 2 ^ 64"
  shows "unat (first - 1 + of_nat n :: uint64) + 1 = unat first + n"
proof -
  have pos: "0 < unat first" using assms(1) by (simp add: unat_gt_0 word_gt_0)
  have f: "unat (first - 1) = unat first - 1" using assms(1) by (intro unat_minus_one) auto
  show ?thesis
  proof (cases "n < 2 ^ 64")
    case True
    then have "unat (first - 1) + unat (of_nat n :: uint64) < 2 ^ 64"
      using f pos assms(2) by (simp add: unat_of_nat)
    then have "unat (first - 1 + of_nat n) = unat (first - 1) + n"
      using True by (simp add: unat_word_ariths unat_of_nat)
    then show ?thesis using f pos by simp
  qed (use pos assms(2) in simp)
qed

definition loaded :: "nuraft \<Rightarrow> segment \<Rightarrow> nat \<Rightarrow> 8 word \<Rightarrow> log_entry list \<Rightarrow> segment" where
  "loaded N seg i ver es =
     seg\<lparr>seg_version := ver, offset_term := offsets N 9 es, file_size := 9 + rec_size N es,
       last_index := first_index seg - 1 + of_nat (length es),
       seg_fd := Some (i, if is_open seg then 9 + rec_size N es else 0)\<rparr>"

lemma load_result:
  assumes N: "buffers_ok N" and name: "file_name seg \<noteq> []" "dir fs (file_name seg) = Some i"
    and fresh: "seg_fd seg = None" "offset_term seg = []" and io: "open_ok io"
    and c: "contents fs i = file_header ver @ records N (first_index seg) es"
    and es: "\<forall>e\<in>set es. entry_ok e"
    and closed: "is_open seg \<or> last_index seg = first_index seg - 1 + of_nat (length es)"
  shows "load N io fs seg = (fs, loaded N seg i ver es, Inr 0)"
proof -
  have op: "openFile io fs seg = (seg\<lparr>seg_fd := Some (i, 0)\<rparr>, 0)"
    using name fresh(1) io by (simp add: openFile_def getFileName_def)
  have ver: "loadVersion N (contents fs i) = Inr (ver, 9)" unfolding c by (rule loadVersion_header [OF N])
  have "load_loop N (contents fs i) (length (contents fs i)) (length (file_header ver)) (first_index seg - 1) []
      = (length (contents fs i), first_index seg - 1 + of_nat (length es), [] @ offsets N (length (file_header ver)) es, 0)"
    by (rule load_loop_records [OF N es c])
  then have loop: "load_loop N (contents fs i) (length (contents fs i)) 9 (first_index seg - 1) []
      = (length (contents fs i), first_index seg - 1 + of_nat (length es), offsets N 9 es, 0)" by simp
  have len: "length (contents fs i) = 9 + rec_size N es" unfolding c by simp
  show ?thesis
    using closed
    by (auto simp: load_def op ver loop [unfolded len] fresh(2) Let_def loaded_def len)
qed

lemma loaded_ok:
  assumes "file_name seg \<noteq> []" "dir fs (file_name seg) = Some i"
    and "contents fs i = file_header ver @ records N (first_index seg) es"
    and "\<forall>e\<in>set es. entry_ok e" and "0 < first_index seg" and "unat (first_index seg) + length es \<le> 2 ^ 64"
  shows "seg_ok N fs (loaded N seg i ver es) i es"
  unfolding seg_ok_def using assms unat_last [OF assms(5,6)] by (simp add: loaded_def)

text \<open>A record that was written only in part makes loading fail.\<close>

lemma load_loop_prefix:
  assumes "buffers_ok N" and "\<forall>e\<in>set es. entry_ok e" and "content = pre @ records N idx es @ rest"
  shows "load_loop N content (length content) (length pre) last_idx ot
    = load_loop N content (length content) (length pre + rec_size N es) (last_idx + of_nat (length es))
        (ot @ offsets N (length pre) es)"
  using assms(2,3)
proof (induction es arbitrary: pre idx last_idx ot)
  case (Cons e es)
  have c: "content = (pre @ record_bytes N idx e) @ records N (idx + 1) es @ rest" using Cons.prems(2) by simp
  have "load_loop N content (length content) (length pre) last_idx ot
      = load_loop N content (length content) (length (pre @ record_bytes N idx e)) (last_idx + 1)
          (ot @ [(length pre, le_term e)])"
    unfolding length_append
    by (rule load_loop_step [OF assms(1), where rest = "records N (idx + 1) es @ rest"]) (use Cons.prems in simp_all)
  also have "\<dots> = load_loop N content (length content) (length (pre @ record_bytes N idx e) + rec_size N es)
      (last_idx + 1 + of_nat (length es))
      ((ot @ [(length pre, le_term e)]) @ offsets N (length (pre @ record_bytes N idx e)) es)"
    using Cons.prems(1) by (intro Cons.IH [OF _ c]) simp
  finally show ?case by (simp add: length_record_bytes add.assoc)
qed simp

lemma load_loop_torn:
  assumes N: "buffers_ok N" and e: "entry_ok e" and m: "0 < m" "m < length (record_bytes N idx e)"
    and c: "content = pre @ take m (record_bytes N idx e)"
  shows "load_loop N content (length content) (length pre) last_idx ot = (length pre, last_idx, ot, -1)"
proof -
  let ?h = "record_header (le_term e) idx (serializeEntry N e)"
  have len: "length content = length pre + m" using m c by simp
  show ?thesis
  proof (cases "m < HEADER_SIZE")
    case True
    have "length (pread content HEADER_SIZE (length pre)) < HEADER_SIZE"
      using True c by (simp add: pread_def)
    then have "loadHeader N content (length pre) = None" by (simp add: loadHeader_def Let_def)
    then show ?thesis using m len by (subst load_loop.simps) simp
  next
    case False
    then have "content = pre @ header_bytes ?h @ take (m - HEADER_SIZE) (serializeEntry N e)"
      unfolding c by (simp add: record_bytes_def)
    then have "loadHeader N content (length pre) = Some ?h" using loadHeader_at [OF N refl, of pre ?h] by metis
    then show ?thesis
      using m len by (subst load_loop.simps) (simp add: Let_def record_header_fields [OF N e] length_record_bytes)
  qed
qed

lemma load_torn:
  assumes N: "buffers_ok N" and name: "file_name seg \<noteq> []" "dir fs (file_name seg) = Some i"
    and fresh: "seg_fd seg = None" "offset_term seg = []" and io: "open_ok io"
    and c: "contents fs i = file_header ver @ records N (first_index seg) es @ take m (record_bytes N idx e)"
    and es: "\<forall>e\<in>set es. entry_ok e" and e: "entry_ok e" and m: "0 < m" "m < length (record_bytes N idx e)"
  shows "\<exists>seg'. load N io fs seg = (fs, seg', Inr (-1))"
proof -
  let ?c = "contents fs i"
  have op: "openFile io fs seg = (seg\<lparr>seg_fd := Some (i, 0)\<rparr>, 0)"
    using name fresh(1) io by (simp add: openFile_def getFileName_def)
  have ver: "loadVersion N ?c = Inr (ver, 9)" unfolding c by (rule loadVersion_header [OF N])
  have "load_loop N ?c (length ?c) (length (file_header ver @ records N (first_index seg) es)) l ot
      = (length (file_header ver @ records N (first_index seg) es), l, ot, -1)" for l ot
    by (rule load_loop_torn [OF N e m]) (simp add: c)
  then have "load_loop N ?c (length ?c) (length (file_header ver)) (first_index seg - 1) []
      = (9 + rec_size N es, first_index seg - 1 + of_nat (length es), offsets N 9 es, -1)"
    using load_loop_prefix [OF N es c] by simp
  then show ?thesis by (simp add: load_def op ver fresh(2) Let_def)
qed

section \<open>Truncating and closing\<close>

lemma content_take:
  "take (9 + rec_size N (take n es)) (file_header ver @ records N first es) = file_header ver @ records N first (take n es)"
proof -
  have "records N first es = records N first (take n es @ drop n es)" by simp
  then show ?thesis unfolding records_append by simp
qed

lemma rec_size_take: "rec_size N (take n es) \<le> rec_size N es"
proof -
  have "rec_size N es = rec_size N (take n es @ drop n es)" by simp
  then show ?thesis unfolding rec_size_append by simp
qed

definition truncated :: "nuraft \<Rightarrow> segment \<Rightarrow> nat \<Rightarrow> uint64 \<Rightarrow> log_entry list \<Rightarrow> segment" where
  "truncated N seg i kept es =
     seg\<lparr>seg_fd := Some (i, 9 + rec_size N es), offset_term := offsets N 9 es, last_index := kept,
       file_size := 9 + rec_size N es\<rparr>"

lemma kept_length:
  assumes ok: "seg_ok N fs seg i es" and kept: "first_index seg \<le> kept" "kept < last_index seg"
  shows "unat (kept + 1 - first_index seg) < length es" "unat kept + 1 = unat (first_index seg) + unat (kept + 1 - first_index seg)"
proof -
  have "kept \<noteq> -1" using kept(2) by (metis word_order.extremum not_less)
  then have u: "unat (kept + 1) = unat kept + 1" by (rule unat_Suc)
  have le: "unat (first_index seg) \<le> unat kept" "unat kept < unat (last_index seg)"
    using kept by (simp_all add: word_le_nat_alt word_less_nat_alt)
  then have "first_index seg \<le> kept + 1" unfolding word_le_nat_alt u by simp
  then have s: "unat (kept + 1 - first_index seg) = unat (kept + 1) - unat (first_index seg)" by (simp add: unat_sub)
  show "unat (kept + 1 - first_index seg) < length es" unfolding s u using le seg_okD(9) [OF ok] by linarith
  show "unat kept + 1 = unat (first_index seg) + unat (kept + 1 - first_index seg)" unfolding s u using le by linarith
qed

lemma truncate_file:
  assumes ok: "seg_ok N fs seg i es" and n: "n = length ks" "ks = take n es"
    and kept: "unat kept + 1 = unat (first_index seg) + n"
  shows "seg_ok N (truncate_fd fs i (9 + rec_size N ks)) (truncated N seg i kept ks) i ks"
proof -
  have "contents (truncate_fd fs i (9 + rec_size N ks)) i = file_header (seg_version seg) @ records N (first_index seg) ks"
    using rec_size_take [of N n es] content_take [of N n es] seg_okD(3) [OF ok]
    by (simp add: truncate_fd_def resize_take flip: n(2))
  moreover have "\<forall>e\<in>set ks. entry_ok e" using seg_okD(10) [OF ok] n(2) by (metis in_set_takeD)
  ultimately show ?thesis
    unfolding seg_ok_def using seg_okD(1,2,8) [OF ok] kept n(1)
    by (simp add: truncated_def truncate_fd_def)
qed

lemma truncate_open:
  assumes ok: "seg_ok N fs seg i es" and op: "is_open seg" and io: "truncate_ok io"
    and kept: "first_index seg \<le> kept" "kept < last_index seg"
    and ks: "ks = take (unat (kept + 1 - first_index seg)) es"
  shows "seg_truncate io fs seg kept = (truncate_fd fs i (9 + rec_size N ks), truncated N seg i kept ks, Inr 0)"
    and "seg_ok N (truncate_fd fs i (9 + rec_size N ks)) (truncated N seg i kept ks) i ks"
proof -
  let ?n = "unat (kept + 1 - first_index seg)"
  note k = kept_length [OF ok kept]
  have fd: "seg_fd seg = Some (i, file_size seg)" by (rule seg_okD(4) [OF ok op])
  have nth: "offset_term seg ! ?n = (9 + rec_size N ks, le_term (es ! ?n))"
    unfolding seg_okD(7) [OF ok] ks using k(1) by (rule offsets_nth)
  have ot: "take ?n (offset_term seg) = offsets N 9 ks" unfolding seg_okD(7) [OF ok] ks by (rule offsets_take)
  have len: "\<not> length (offset_term seg) \<le> ?n" using k(1) by (simp add: seg_okD(7) [OF ok])
  show "seg_truncate io fs seg kept = (truncate_fd fs i (9 + rec_size N ks), truncated N seg i kept ks, Inr 0)"
    using kept len op io fd
    by (simp add: seg_truncate_def Let_def nth ot openFile_def truncated_def)
  show "seg_ok N (truncate_fd fs i (9 + rec_size N ks)) (truncated N seg i kept ks) i ks"
    by (rule truncate_file [OF ok, of ?n]) (use k ks in simp_all)
qed

lemma truncate_nothing: "last_index seg \<le> kept \<Longrightarrow> seg_truncate io fs seg kept = (fs, seg, Inr 0)"
  by (simp add: seg_truncate_def)

definition reopened :: "segment \<Rightarrow> segment" where
  "reopened seg = seg\<lparr>file_name := getOpenFileName seg, is_open := True\<rparr>"

lemma open_name_nonempty: "getOpenFileName seg \<noteq> []" and finish_name_nonempty: "getFinishFileName seg \<noteq> []"
  by (simp_all add: getOpenFileName_def getFinishFileName_def format_open_def format_finish_def)

lemma truncate_closed:
  assumes ok: "seg_ok N fs seg i es" and closed: "\<not> is_open seg" and name: "file_name seg = getFinishFileName seg"
    and io: "truncate_ok io" "open_ok io"
    and kept: "first_index seg \<le> kept" "kept < last_index seg"
    and ks: "ks = take (unat (kept + 1 - first_index seg)) es"
    and fs1: "fs1 = fs\<lparr>dir := ((dir fs)(file_name seg := None))(getOpenFileName seg \<mapsto> i)\<rparr>"
  shows "seg_truncate io fs seg kept
      = (truncate_fd fs1 i (9 + rec_size N ks), truncated N (reopened seg) i kept ks, Inr 0)"
    and "seg_ok N (truncate_fd fs1 i (9 + rec_size N ks)) (truncated N (reopened seg) i kept ks) i ks"
proof -
  let ?n = "unat (kept + 1 - first_index seg)"
  note k = kept_length [OF ok kept]
  have ren: "rename_file fs (getFinishFileName seg) (getOpenFileName seg) = Inr fs1"
    using seg_okD(2) [OF ok] by (simp add: rename_file_def name fs1)
  obtain p where fd: "openFile io fs1 (reopened seg) = ((reopened seg)\<lparr>seg_fd := Some (i, p)\<rparr>, 0)"
  proof (cases "seg_fd seg")
    case None
    then show ?thesis using that [of 0] io(2)
      by (simp add: openFile_def reopened_def getFileName_def open_name_nonempty fs1)
  next
    case (Some fd)
    then obtain p where "seg_fd seg = Some (i, p)" using seg_okD(5) [OF ok Some] by (cases fd) simp
    then show ?thesis using that [of p] by (simp add: openFile_def reopened_def)
  qed
  have nth: "offset_term seg ! ?n = (9 + rec_size N ks, le_term (es ! ?n))"
    unfolding seg_okD(7) [OF ok] ks using k(1) by (rule offsets_nth)
  have ot: "take ?n (offset_term seg) = offsets N 9 ks" unfolding seg_okD(7) [OF ok] ks by (rule offsets_take)
  have len: "\<not> length (offset_term seg) \<le> ?n" using k(1) by (simp add: seg_okD(7) [OF ok])
  show "seg_truncate io fs seg kept
      = (truncate_fd fs1 i (9 + rec_size N ks), truncated N (reopened seg) i kept ks, Inr 0)"
    using kept len closed io fd
    by (simp add: seg_truncate_def Let_def nth ot ren reopened_def truncated_def)
  have "seg_ok N fs1 ((reopened seg)\<lparr>seg_fd := Some (i, file_size seg)\<rparr>) i es"
    unfolding seg_ok_def using seg_okD [OF ok] by (simp add: reopened_def fs1 open_name_nonempty)
  from truncate_file [OF this, of ?n ks kept]
  show "seg_ok N (truncate_fd fs1 i (9 + rec_size N ks)) (truncated N (reopened seg) i kept ks) i ks"
    using k ks by (simp add: truncated_def reopened_def)
qed

definition finished :: "segment \<Rightarrow> segment" where
  "finished seg = seg\<lparr>seg_fd := None, is_open := False, file_name := getFinishFileName seg\<rparr>"

lemma close_full:
  assumes ok: "seg_ok N fs seg i es" and op: "is_open seg" and name: "file_name seg = getOpenFileName seg"
    and fs1: "fs1 = fs\<lparr>dir := ((dir fs)(file_name seg := None))(getFinishFileName seg \<mapsto> i)\<rparr>"
  shows "seg_close fs seg True = (fs1, finished seg, Inr 0)" and "seg_ok N fs1 (finished seg) i es"
proof -
  have names: "getOpenFileName (closeFile seg) = getOpenFileName seg" "getFinishFileName (closeFile seg) = getFinishFileName seg"
    "getFinishFileName (closeFile seg\<lparr>is_open := False\<rparr>) = getFinishFileName seg"
    by (simp_all add: closeFile_def getOpenFileName_def getFinishFileName_def)
  have "rename_file fs (getOpenFileName seg) (getFinishFileName seg) = Inr fs1"
    using seg_okD(2) [OF ok] by (simp add: rename_file_def name [symmetric] fs1)
  then show "seg_close fs seg True = (fs1, finished seg, Inr 0)"
    using op by (simp add: seg_close_def Let_def names finished_def) (simp add: closeFile_def)
  show "seg_ok N fs1 (finished seg) i es"
    unfolding seg_ok_def using seg_okD [OF ok] by (simp add: finished_def fs1 finish_name_nonempty)
qed

end
