(* ===== verification/Log_Queue.thy ===== *)
theory Log_Queue
  imports Log_Segment_Facts
begin

text \<open>
  The cache of recent log entries, class \<open>LogEntryQueue\<close> of \<open>src/src/Service/NuRaftFileLogStore.cpp\<close>,
  and the contract the log store relies on: whatever the cache returns is what the log holds.
\<close>

unbundle bit_operations_syntax

section \<open>The ring buffer\<close>

definition BIT_SIZE :: nat where
  "BIT_SIZE = 16"

definition MAX_VECTOR_SIZE :: uint64 where
  "MAX_VECTOR_SIZE = 65536"

record log_queue =
  batch_index :: uint64
  max_index :: uint64
  entry_vec :: "uint64 \<Rightarrow> log_entry option"

definition new_queue :: log_queue where
  "new_queue = \<lparr>batch_index = 0, max_index = 0, entry_vec = (\<lambda>_. None)\<rparr>"

definition slot :: "uint64 \<Rightarrow> uint64" where
  "slot index = index AND (MAX_VECTOR_SIZE - 1)"

definition in_batch :: "log_queue \<Rightarrow> uint64 \<Rightarrow> bool" where
  "in_batch q index \<longleftrightarrow>
     drop_bit BIT_SIZE index = batch_index q \<or> drop_bit BIT_SIZE index = batch_index q - 1"

definition queue_getEntry :: "log_queue \<Rightarrow> uint64 \<Rightarrow> log_entry option" where
  "queue_getEntry q index =
     (if max_index q < index \<or> MAX_VECTOR_SIZE \<le> max_index q - index then None
      else if in_batch q index then entry_vec q (slot index)
      else None)"

definition putEntry :: "log_queue \<Rightarrow> uint64 \<Rightarrow> log_entry \<Rightarrow> log_queue" where
  "putEntry q index entry =
     q\<lparr>entry_vec := (entry_vec q)(slot index \<mapsto> entry),
       batch_index := max (batch_index q) (drop_bit BIT_SIZE index),
       max_index := max (max_index q) index\<rparr>"

definition log_queue_clear :: "log_queue \<Rightarrow> log_queue" where
  "log_queue_clear q = q\<lparr>batch_index := 0, max_index := 0, entry_vec := (\<lambda>_. None)\<rparr>"

definition putEntryOrClear :: "log_queue \<Rightarrow> uint64 \<Rightarrow> log_entry \<Rightarrow> log_queue" where
  "putEntryOrClear q index entry =
     (if in_batch q index then q\<lparr>entry_vec := (entry_vec q)(slot index \<mapsto> entry), max_index := index\<rparr>
      else q\<lparr>batch_index := 0, max_index := 0, entry_vec := (\<lambda>_. None)\<rparr>)"

section \<open>The contract of a cache in front of a log\<close>

text \<open>
  A log is a partial function from indexes to entries, with the index of its last entry. The cache is
  filled with each entry that is appended and cleared whenever entries are removed.
\<close>

locale entry_cache =
  fixes lookup :: "'q \<Rightarrow> uint64 \<Rightarrow> log_entry option"
    and put :: "'q \<Rightarrow> uint64 \<Rightarrow> log_entry \<Rightarrow> 'q"
    and clear :: "'q \<Rightarrow> 'q"
    and tracks :: "'q \<Rightarrow> (uint64 \<rightharpoonup> log_entry) \<Rightarrow> uint64 \<Rightarrow> bool"
  assumes cleared: "tracks (clear q) log l"
    and put_next: "\<lbrakk>tracks q log l; l \<noteq> -1; log' = log(l + 1 \<mapsto> e)\<rbrakk> \<Longrightarrow> tracks (put q (l + 1) e) log' (l + 1)"
    and sound: "\<lbrakk>tracks q log l; lookup q i = Some e\<rbrakk> \<Longrightarrow> log i = Some e"
    and hit: "\<lbrakk>tracks q log l; l \<noteq> -1\<rbrakk> \<Longrightarrow> lookup (put q (l + 1) e) (l + 1) = Some e"
begin

definition read_through :: "'q \<Rightarrow> (uint64 \<rightharpoonup> log_entry) \<Rightarrow> uint64 \<Rightarrow> log_entry option" where
  "read_through q log i = (case lookup q i of None \<Rightarrow> log i | Some e \<Rightarrow> Some e)"

lemma read_through_eq: "tracks q log l \<Longrightarrow> read_through q log i = log i"
  by (auto simp: read_through_def sound split: option.split)

end

section \<open>The ring buffer keeps the contract\<close>

text \<open>
  Either the cache is empty, or its largest index is the last index of the log, and each slot holds
  the entry of the one index among the last 65536 that belongs to it.
\<close>

definition queue_tracks :: "log_queue \<Rightarrow> (uint64 \<rightharpoonup> log_entry) \<Rightarrow> uint64 \<Rightarrow> bool" where
  "queue_tracks q log l \<longleftrightarrow>
     batch_index q = drop_bit BIT_SIZE (max_index q)
   \<and> (if max_index q = l
      then \<forall>i e. i \<le> l \<and> l - i < MAX_VECTOR_SIZE \<and> entry_vec q (slot i) = Some e \<longrightarrow> log i = Some e
      else max_index q = 0 \<and> (\<forall>s. entry_vec q s = None))"

lemma slot_unat: "unat (slot i) = unat i mod 65536"
proof -
  have "slot i = take_bit 16 i" by (simp add: slot_def MAX_VECTOR_SIZE_def take_bit_eq_mask mask_eq_exp_minus_1)
  then show ?thesis by (simp only: unsigned_take_bit_eq) (simp add: take_bit_eq_mod)
qed

lemma window_mod:
  fixes x y z k :: nat
  assumes "x mod k = y mod k" and "x \<le> z" and "y \<le> z" and "z - x < k" and "z - y < k"
  shows "x = y"
  using assms
proof (induction x y rule: linorder_wlog)
  case (le x y)
  have "k dvd y - x" using le mod_eq_dvd_iff_nat [of x y k] by simp
  moreover have "y - x < k" using le by linarith
  ultimately have "y - x = 0" using nat_dvd_not_less by blast
  then show ?case using le by simp
qed simp

text \<open>Two indexes of one window of 65536 never share a slot.\<close>

lemma slot_window:
  assumes "slot i = slot j" and "i \<le> l" and "j \<le> l" and "l - i < MAX_VECTOR_SIZE" and "l - j < MAX_VECTOR_SIZE"
  shows "i = j"
proof -
  have "unat i mod 65536 = unat j mod 65536" using assms(1) slot_unat by metis
  moreover have "unat l - unat i < 65536" "unat l - unat j < 65536" "unat i \<le> unat l" "unat j \<le> unat l"
    using assms(2-5) by (simp_all add: word_less_nat_alt word_le_nat_alt unat_sub MAX_VECTOR_SIZE_def)
  ultimately have "unat i = unat j" by (intro window_mod [of "unat i" 65536 "unat j" "unat l"]) simp_all
  then show ?thesis by (simp add: word_unat_eq_iff)
qed

lemma in_batch_max: "batch_index q = drop_bit BIT_SIZE (max_index q) \<Longrightarrow> in_batch q (max_index q)"
  by (simp add: in_batch_def)

lemma tracks_clear: "queue_tracks (log_queue_clear q) log l"
  by (simp add: queue_tracks_def log_queue_clear_def)

lemma tracks_new: "queue_tracks new_queue log l"
  by (simp add: queue_tracks_def new_queue_def)

lemma tracks_sound:
  assumes t: "queue_tracks q log l" and g: "queue_getEntry q i = Some e"
  shows "log i = Some e"
proof -
  have i: "i \<le> max_index q" "max_index q - i < MAX_VECTOR_SIZE" and e: "entry_vec q (slot i) = Some e"
    using g by (auto simp: queue_getEntry_def not_less not_le split: if_splits)
  then have "max_index q = l" using t by (auto simp: queue_tracks_def split: if_splits)
  then show ?thesis using t i e by (simp add: queue_tracks_def)
qed

lemma tracks_put:
  assumes t: "queue_tracks q log l" and l: "l \<noteq> -1" and log': "log' = log(l + 1 \<mapsto> e)"
  shows "queue_tracks (putEntry q (l + 1) e) log' (l + 1)"
proof -
  have u: "unat (l + 1) = unat l + 1" by (rule unat_Suc [OF l])
  have le: "max_index q \<le> l + 1" using t u by (auto simp: queue_tracks_def word_le_nat_alt split: if_splits)
  then have mono: "drop_bit BIT_SIZE (max_index q) \<le> drop_bit BIT_SIZE (l + 1)"
    by (simp add: BIT_SIZE_def drop_bit_eq_div word_le_nat_alt unat_div div_le_mono)
  have "log' i = Some x"
    if i: "i \<le> l + 1" "l + 1 - i < MAX_VECTOR_SIZE" and x: "((entry_vec q)(slot (l + 1) \<mapsto> e)) (slot i) = Some x" for i x
  proof (cases "i = l + 1")
    case False
    have "slot i \<noteq> slot (l + 1)"
      using slot_window [OF _ i(1) _ i(2)] False by (auto simp: MAX_VECTOR_SIZE_def)
    then have x': "entry_vec q (slot i) = Some x" using x by simp
    then have "max_index q = l" using t by (auto simp: queue_tracks_def split: if_splits)
    moreover have "i \<le> l" using i(1) False u by (simp add: word_le_nat_alt word_unat_eq_iff)
    moreover have "l - i < MAX_VECTOR_SIZE"
      using i \<open>i \<le> l\<close> u by (simp add: word_less_nat_alt unat_sub)
    ultimately show ?thesis using t x' False log' by (simp add: queue_tracks_def)
  qed (use x log' in simp)
  then show ?thesis
    using t mono le by (auto simp: queue_tracks_def putEntry_def max_def)
qed

lemma tracks_hit:
  assumes t: "queue_tracks q log l" and l: "l \<noteq> -1"
  shows "queue_getEntry (putEntry q (l + 1) e) (l + 1) = Some e"
proof -
  have "queue_tracks (putEntry q (l + 1) e) (log(l + 1 \<mapsto> e)) (l + 1)" by (rule tracks_put [OF t l refl])
  moreover have "max_index (putEntry q (l + 1) e) = l + 1"
    using t unat_Suc [OF l] by (auto simp: queue_tracks_def putEntry_def max_def word_le_nat_alt split: if_splits)
  ultimately show ?thesis
    using in_batch_max [of "putEntry q (l + 1) e"]
    by (simp add: queue_getEntry_def queue_tracks_def MAX_VECTOR_SIZE_def) (simp add: putEntry_def)
qed

interpretation ring: entry_cache queue_getEntry putEntry log_queue_clear queue_tracks
  by unfold_locales (simp_all add: tracks_clear tracks_put tracks_sound tracks_hit)

end
