(* ===== verification/Log_Store.thy ===== *)
theory Log_Store
  imports Log_Segment
begin

text \<open>
  The class \<open>LogSegmentStore\<close> of \<open>src/src/Service/NuRaftLogSegment.cpp\<close>: the log as a list of closed
  segments and an open one. An operation that throws returns the exception with the state it leaves;
  \<open>INDEX_OUT_OF_RANGE\<close> and \<open>NULL_POINTER\<close> mark accesses that are undefined in the code. The mutex of
  the store makes each operation atomic.
\<close>

section \<open>State\<close>

record segment_store =
  first_log_index :: uint64
  last_log_index :: uint64
  max_log_size :: uint32
  max_segment_count :: uint32
  segments :: "segment list"
  open_segment :: "segment option"

definition new_store :: segment_store where
  "new_store = \<lparr>first_log_index = 1, last_log_index = 0, max_log_size = 0, max_segment_count = 0,
     segments = [], open_segment = None\<rparr>"

definition store_close :: "files \<Rightarrow> segment_store \<Rightarrow> files \<times> segment_store \<times> (log_exc + int)" where
  "store_close fs st =
     (case open_segment st of
        None \<Rightarrow> (fs, st, Inr 0)
      | Some seg \<Rightarrow>
          (case seg_close fs seg False of
             (fs1, seg1, Inl e) \<Rightarrow> (fs1, st\<lparr>open_segment := Some seg1\<rparr>, Inl e)
           | (fs1, seg1, Inr _) \<Rightarrow> (fs1, st\<lparr>open_segment := None\<rparr>, Inr 0)))"

definition store_flush :: "io \<Rightarrow> segment_store \<Rightarrow> uint64" where
  "store_flush io st = (case open_segment st of None \<Rightarrow> 0 | Some seg \<Rightarrow> seg_flush io seg)"

section \<open>The open segment\<close>

definition usable :: "segment_store \<Rightarrow> bool" where
  "usable st =
     (case open_segment st of
        None \<Rightarrow> False
      | Some seg \<Rightarrow> file_size seg \<le> unat (max_log_size st) \<and> CURRENT_LOG_VERSION \<le> seg_version seg)"

definition roll_segment :: "files \<Rightarrow> segment_store \<Rightarrow> files \<times> segment_store \<times> (log_exc + unit)" where
  "roll_segment fs st =
     (case open_segment st of
        None \<Rightarrow> (fs, st, Inr ())
      | Some seg \<Rightarrow>
          (case seg_close fs seg True of
             (fs1, seg1, Inl e) \<Rightarrow> (fs1, st\<lparr>open_segment := Some seg1\<rparr>, Inl e)
           | (fs1, seg1, Inr _) \<Rightarrow>
               (fs1, st\<lparr>segments := segments st @ [seg1], open_segment := None\<rparr>, Inr ())))"

definition start_segment :: "io \<Rightarrow> files \<Rightarrow> segment_store \<Rightarrow> files \<times> segment_store \<times> int" where
  "start_segment io fs st =
     (case seg_create io fs (new_open_segment (last_log_index st + 1) [] []) of (fs1, seg1, ret) \<Rightarrow>
        if ret \<noteq> 0 then (fs1, st\<lparr>open_segment := None\<rparr>, -1)
        else
          (case writeFileHeader io fs1 seg1 of
             (fs2, seg2, Inl _) \<Rightarrow> (fs2, st\<lparr>open_segment := None\<rparr>, -1)
           | (fs2, seg2, Inr _) \<Rightarrow> (fs2, st\<lparr>open_segment := Some seg2\<rparr>, 0)))"

definition openSegment :: "io \<Rightarrow> files \<Rightarrow> segment_store \<Rightarrow> files \<times> segment_store \<times> (log_exc + int)" where
  "openSegment io fs st =
     (if usable st then (fs, st, Inr 0)
      else case roll_segment fs st of
             (fs1, st1, Inl e) \<Rightarrow> (fs1, st1, Inl e)
           | (fs1, st1, Inr _) \<Rightarrow> (case start_segment io fs1 st1 of (fs2, st2, ret) \<Rightarrow> (fs2, st2, Inr ret)))"

definition store_appendEntry ::
    "nuraft \<Rightarrow> io \<Rightarrow> files \<Rightarrow> segment_store \<Rightarrow> log_entry option \<Rightarrow> files \<times> segment_store \<times> (log_exc + uint64)" where
  "store_appendEntry N io fs st entry =
     (case openSegment io fs st of
        (fs1, st1, Inl e) \<Rightarrow> (fs1, st1, Inl e)
      | (fs1, st1, Inr ret) \<Rightarrow>
          if ret \<noteq> 0 then (fs1, st1, Inr (-1))
          else case open_segment st1 of
                 None \<Rightarrow> (fs1, st1, Inl NULL_POINTER)
               | Some seg \<Rightarrow>
                   (case seg_appendEntry N io fs1 seg entry (last_log_index st1) of (fs2, seg2, last2, index) \<Rightarrow>
                      (fs2, st1\<lparr>open_segment := Some seg2, last_log_index := last2\<rparr>, Inr index)))"

section \<open>Finding and reading entries\<close>

datatype seg_loc = OpenSegment | ClosedSegment nat

definition holds_index :: "uint64 \<Rightarrow> segment \<Rightarrow> bool" where
  "holds_index index seg \<longleftrightarrow> first_index seg \<le> index \<and> index \<le> last_index seg"

text \<open>The loop over the closed segments has no break: the last match counts.\<close>

definition getSegment :: "segment_store \<Rightarrow> uint64 \<Rightarrow> seg_loc option" where
  "getSegment st index =
     (if first_log_index st = last_log_index st + 1 then None
      else if index < first_log_index st \<or> last_log_index st < index then None
      else if (case open_segment st of None \<Rightarrow> False | Some seg \<Rightarrow> first_index seg \<le> index) then Some OpenSegment
      else
        let matches = filter (\<lambda>k. holds_index index (segments st ! k)) [0..<length (segments st)]
        in if matches = [] then None else Some (ClosedSegment (last matches)))"

definition seg_at :: "segment_store \<Rightarrow> seg_loc \<Rightarrow> segment" where
  "seg_at st loc = (case loc of OpenSegment \<Rightarrow> the (open_segment st) | ClosedSegment k \<Rightarrow> segments st ! k)"

definition update_at :: "segment_store \<Rightarrow> seg_loc \<Rightarrow> segment \<Rightarrow> segment_store" where
  "update_at st loc seg =
     (case loc of
        OpenSegment \<Rightarrow> st\<lparr>open_segment := Some seg\<rparr>
      | ClosedSegment k \<Rightarrow> st\<lparr>segments := (segments st)[k := seg]\<rparr>)"

definition getVersion :: "segment_store \<Rightarrow> uint64 \<Rightarrow> log_exc + 8 word" where
  "getVersion st index =
     (case getSegment st index of None \<Rightarrow> Inl NULL_POINTER | Some loc \<Rightarrow> Inr (seg_version (seg_at st loc)))"

definition store_getEntry ::
    "nuraft \<Rightarrow> io \<Rightarrow> files \<Rightarrow> segment_store \<Rightarrow> uint64 \<Rightarrow> segment_store \<times> (log_exc + log_entry option)" where
  "store_getEntry N io fs st index =
     (case getSegment st index of
        None \<Rightarrow> (st, Inr None)
      | Some loc \<Rightarrow>
          (case seg_getEntry N io fs (seg_at st loc) index of (seg1, r) \<Rightarrow> (update_at st loc seg1, r)))"

text \<open>The loops run for ever when the last index is the largest 64-bit number.\<close>

partial_function (option) getEntries ::
    "nuraft \<Rightarrow> io \<Rightarrow> files \<Rightarrow> segment_store \<Rightarrow> uint64 \<Rightarrow> uint64 \<Rightarrow> log_entry option list
      \<Rightarrow> (segment_store \<times> (log_exc + log_entry option list)) option" where
  "getEntries N io fs st index end_index entries =
     (if index \<le> end_index then
        (case store_getEntry N io fs st index of
           (st1, Inl e) \<Rightarrow> Some (st1, Inl e)
         | (st1, Inr entry) \<Rightarrow> getEntries N io fs st1 (index + 1) end_index (entries @ [entry]))
      else Some (st, Inr entries))"

partial_function (option) getEntriesExt ::
    "nuraft \<Rightarrow> io \<Rightarrow> files \<Rightarrow> segment_store \<Rightarrow> uint64 \<Rightarrow> uint64 \<Rightarrow> int64 \<Rightarrow> int64 \<Rightarrow> log_entry list
      \<Rightarrow> (segment_store \<times> (log_exc + log_entry list)) option" where
  "getEntriesExt N io fs st index end_index hint get_size entries =
     (if index \<le> end_index then
        (case store_getEntry N io fs st index of
           (st1, Inl e) \<Rightarrow> Some (st1, Inl e)
         | (st1, Inr None) \<Rightarrow> Some (st1, Inl NULL_POINTER)
         | (st1, Inr (Some entry)) \<Rightarrow>
             let entry_size = of_nat (length (le_buf entry) + 8 + 1) :: int64
             in if hint <s get_size + entry_size then Some (st1, Inr entries)
                else getEntriesExt N io fs st1 (index + 1) end_index hint (get_size + entry_size) (entries @ [entry]))
      else Some (st, Inr entries))"

definition store_getTerm :: "segment_store \<Rightarrow> uint64 \<Rightarrow> log_exc + uint64" where
  "store_getTerm st index =
     (case getSegment st index of None \<Rightarrow> Inr 0 | Some loc \<Rightarrow> seg_getTerm (seg_at st loc) index)"

section \<open>Removing and truncating\<close>

fun remove_files :: "files \<Rightarrow> segment list \<Rightarrow> files" where
  "remove_files fs [] = fs"
| "remove_files fs (seg # segs) = remove_files (fst (seg_remove fs seg)) segs"

definition beyond :: "uint64 \<Rightarrow> uint64 \<Rightarrow> bool" where
  "beyond first last_idx \<longleftrightarrow> last_idx = 0 \<or> last_idx - 1 < first"

text \<open>The effect of a segment that is kept on the two indexes.\<close>

definition keep_segment :: "segment \<Rightarrow> uint64 \<times> uint64 \<Rightarrow> uint64 \<times> uint64" where
  "keep_segment seg = (\<lambda>(first, last_idx).
     if first_index seg < first
     then (first_index seg, if beyond (first_index seg) last_idx then last_index seg else last_idx)
     else (first, last_idx))"

definition removeSegment_to :: "files \<Rightarrow> segment_store \<Rightarrow> uint64 \<Rightarrow> files \<times> segment_store \<times> int" where
  "removeSegment_to fs st first_index_kept =
     (if first_index_kept \<le> first_log_index st then (fs, st, 0)
      else
        let removed = filter (\<lambda>seg. last_index seg < first_index_kept) (segments st);
            kept = filter (\<lambda>seg. \<not> last_index seg < first_index_kept) (segments st);
            (first1, last1) = fold keep_segment kept (first_index_kept, last_log_index st);
            (removed2, open2, first2, last2) =
              (case open_segment st of
                 None \<Rightarrow> (removed, None, first1, last1)
               | Some seg \<Rightarrow>
                   if last_index seg < first_index_kept then (removed @ [seg], None, first1, last1)
                   else case keep_segment seg (first1, last1) of (f, l) \<Rightarrow> (removed, Some seg, f, l));
            last3 = (if beyond first2 last2 then first2 - 1 else last2)
        in (remove_files fs removed2,
            st\<lparr>first_log_index := first2, last_log_index := last3, segments := kept, open_segment := open2\<rparr>, 0))"

text \<open>
  The variant without argument: the number of segments to remove is an unsigned 32-bit number, so the
  guard only skips the value zero.
\<close>

definition removeSegment :: "files \<Rightarrow> segment_store \<Rightarrow> files \<times> segment_store \<times> (log_exc + int)" where
  "removeSegment fs st =
     (let remove_count = (of_nat (length (segments st)) + 1 - max_segment_count st :: uint32);
          sorted = sort_key first_index (segments st);
          removed = take (unat remove_count) sorted
      in if remove_count \<le> 0 then (fs, st, Inr 0)
         else if length sorted < unat remove_count then (fs, st, Inl INDEX_OUT_OF_RANGE)
         else (remove_files fs removed,
               st\<lparr>first_log_index := last_index (last removed) + 1, segments := drop (unat remove_count) sorted\<rparr>,
               Inr 0))"

definition truncate_target :: "segment_store \<Rightarrow> uint64 \<Rightarrow> seg_loc option" where
  "truncate_target st kept =
     (case open_segment st of
        Some seg \<Rightarrow>
          if holds_index kept seg then Some OpenSegment
          else
            let matches = filter (\<lambda>k. holds_index kept (segments st ! k)) [0..<length (segments st)]
            in if matches = [] then None else Some (ClosedSegment (last matches))
      | None \<Rightarrow>
          let matches = filter (\<lambda>k. holds_index kept (segments st ! k)) [0..<length (segments st)]
          in if matches = [] then None else Some (ClosedSegment (last matches)))"

text \<open>
  A closed segment that truncation reopened becomes the open segment, and the last element of the
  list of closed segments is erased.
\<close>

definition truncate_kept :: "io \<Rightarrow> files \<Rightarrow> segment_store \<Rightarrow> uint64 \<Rightarrow> files \<times> segment_store \<times> (log_exc + int)" where
  "truncate_kept io fs st last_index_kept =
     (case truncate_target st last_index_kept of
        None \<Rightarrow> (fs, st\<lparr>last_log_index := last_index_kept\<rparr>, Inr 0)
      | Some loc \<Rightarrow>
          (case seg_truncate io fs (seg_at st loc) last_index_kept of
             (fs2, seg2, Inl e) \<Rightarrow> (fs2, update_at st loc seg2, Inl e)
           | (fs2, seg2, Inr ret) \<Rightarrow>
               if ret \<noteq> 0 then (fs2, update_at st loc seg2, Inr ret)
               else
                 let st2 = update_at st loc seg2;
                     st3 = (if \<not> is_open (seg_at st loc) \<and> is_open seg2
                            then st2\<lparr>open_segment := Some seg2, segments := butlast (segments st2)\<rparr>
                            else st2)
                 in (fs2, st3\<lparr>last_log_index := last_index_kept\<rparr>, Inr 0)))"

definition truncateLog :: "io \<Rightarrow> files \<Rightarrow> segment_store \<Rightarrow> uint64 \<Rightarrow> files \<times> segment_store \<times> (log_exc + int)" where
  "truncateLog io fs st last_index_kept =
     (if last_log_index st \<le> last_index_kept then (fs, st, Inr 0)
      else
        let removed = filter (\<lambda>seg. last_index_kept < first_index seg) (segments st);
            kept = filter (\<lambda>seg. \<not> last_index_kept < first_index seg) (segments st);
            (removed2, open2) =
              (case open_segment st of
                 None \<Rightarrow> (removed, None)
               | Some seg \<Rightarrow> if last_index_kept < first_index seg then (removed @ [seg], None) else (removed, Some seg))
        in truncate_kept io (remove_files fs removed2) (st\<lparr>segments := kept, open_segment := open2\<rparr>) last_index_kept)"

definition store_writeAt ::
    "nuraft \<Rightarrow> io \<Rightarrow> files \<Rightarrow> segment_store \<Rightarrow> uint64 \<Rightarrow> log_entry option \<Rightarrow> files \<times> segment_store \<times> (log_exc + uint64)" where
  "store_writeAt N io fs st index entry =
     (case truncateLog io fs st (index - 1) of
        (fs1, st1, Inl e) \<Rightarrow> (fs1, st1, Inl e)
      | (fs1, st1, Inr _) \<Rightarrow>
          if index = last_log_index st1 + 1 then store_appendEntry N io fs1 st1 entry
          else (fs1, st1, Inr (-1)))"

text \<open>\<open>reset\<close> forgets all segments and leaves their files; \<open>EINVAL\<close> is 22.\<close>

definition store_reset :: "segment_store \<Rightarrow> uint64 \<Rightarrow> segment_store \<times> int" where
  "store_reset st next_log_index =
     (if next_log_index \<le> 0 then (st, 22)
      else (st\<lparr>segments := [], open_segment := None, first_log_index := next_log_index,
              last_log_index := next_log_index - 1\<rparr>, 0))"

section \<open>Start up\<close>

fun contains :: "string \<Rightarrow> string \<Rightarrow> bool" where
  "contains pat [] \<longleftrightarrow> pat = []"
| "contains pat (c # cs) \<longleftrightarrow> take (length pat) (c # cs) = pat \<or> contains pat cs"

fun list_names :: "io \<Rightarrow> string list \<Rightarrow> segment list \<Rightarrow> segment option \<Rightarrow> segment list \<times> segment option \<times> bool" where
  "list_names io [] segs op = (segs, op, True)"
| "list_names io (name # names) segs op =
     (if \<not> contains ''log_'' name then list_names io names segs op
      else case parse_finish name of
             Some (first, last_idx, _) \<Rightarrow>
               list_names io names (segs @ [new_closed_segment io first last_idx name]) op
           | None \<Rightarrow>
               (case parse_open name of
                  None \<Rightarrow> list_names io names segs op
                | Some (first, time) \<Rightarrow>
                    (case op of
                       None \<Rightarrow> list_names io names segs (Some (new_open_segment first name time))
                     | Some _ \<Rightarrow> (segs, op, False))))"

text \<open>
  The checks after sorting. The variable for the previous segment is never assigned, so the check for
  gaps between segments is never made.
\<close>

definition listSegments :: "(string set \<Rightarrow> string list) \<Rightarrow> io \<Rightarrow> files \<Rightarrow> segment_store \<Rightarrow> segment_store \<times> int" where
  "listSegments ls io fs st =
     (case list_names io (ls (dom (dir fs))) (segments st) (open_segment st) of (segs, op, ok) \<Rightarrow>
        if \<not> ok then (st\<lparr>segments := segs, open_segment := op\<rparr>, -1)
        else
          let segs1 = sort_key first_index segs;
              st1 = st\<lparr>segments := segs1, open_segment := op\<rparr>;
              st2 = (case op of
                       None \<Rightarrow> st1
                     | Some seg \<Rightarrow>
                         st1\<lparr>first_log_index := (case segs1 of [] \<Rightarrow> first_index seg | s # _ \<Rightarrow> first_index s),
                             last_log_index := last_index seg\<rparr>)
          in if list_ex (\<lambda>seg. last_index seg < first_index seg) segs1 then (st2, -1) else (st2, 0))"

text \<open>
  Eight threads load the closed segments; the model loads them one after the other. A segment that
  fails to load stays in the list.
\<close>

fun load_closed ::
    "nuraft \<Rightarrow> io \<Rightarrow> files \<Rightarrow> segment list \<Rightarrow> uint64 \<Rightarrow> files \<times> segment list \<times> uint64 \<times> log_exc option" where
  "load_closed N io fs [] last_idx = (fs, [], last_idx, None)"
| "load_closed N io fs (seg # segs) last_idx =
     (case load N io fs seg of
        (fs1, seg1, Inl e) \<Rightarrow> (fs1, seg1 # segs, last_idx, Some e)
      | (fs1, seg1, Inr ret) \<Rightarrow>
          (case load_closed N io fs1 segs
                  (if ret = 0 \<and> last_idx < last_index seg1 then last_index seg1 else last_idx) of
             (fs2, segs2, last2, r) \<Rightarrow> (fs2, seg1 # segs2, last2, r)))"

definition finish_load :: "segment_store \<Rightarrow> segment_store" where
  "finish_load st = (if last_log_index st = 0 then st\<lparr>last_log_index := first_log_index st - 1\<rparr> else st)"

definition loadSegments :: "nuraft \<Rightarrow> io \<Rightarrow> files \<Rightarrow> segment_store \<Rightarrow> files \<times> segment_store \<times> (log_exc + int)" where
  "loadSegments N io fs st =
     (case load_closed N io fs (segments st) (last_log_index st) of
        (fs1, segs1, last1, Some e) \<Rightarrow> (fs1, st\<lparr>segments := segs1, last_log_index := last1\<rparr>, Inl e)
      | (fs1, segs1, last1, None) \<Rightarrow>
          let st1 = st\<lparr>segments := segs1, last_log_index := last1\<rparr>
          in case open_segment st1 of
               None \<Rightarrow> (fs1, finish_load st1, Inr 0)
             | Some seg \<Rightarrow>
                 (case load N io fs1 seg of
                    (fs2, seg2, Inl e) \<Rightarrow> (fs2, st1\<lparr>open_segment := Some seg2\<rparr>, Inl e)
                  | (fs2, seg2, Inr ret) \<Rightarrow>
                      if ret \<noteq> 0 then (fs2, st1\<lparr>open_segment := Some seg2\<rparr>, Inr ret)
                      else if last_index seg2 < first_log_index st1
                      then (fs2, finish_load (st1\<lparr>open_segment := None\<rparr>), Inr 0)
                      else (fs2, finish_load (st1\<lparr>open_segment := Some seg2, last_log_index := last_index seg2\<rparr>), Inr 0)))"

definition init ::
    "nuraft \<Rightarrow> (string set \<Rightarrow> string list) \<Rightarrow> io \<Rightarrow> files \<Rightarrow> segment_store \<Rightarrow> uint32 \<Rightarrow> uint32
      \<Rightarrow> files \<times> segment_store \<times> (log_exc + int)" where
  "init N ls io fs st max_size max_count =
     (let st0 = st\<lparr>max_log_size := max_size, max_segment_count := max_count\<rparr>
      in if \<not> mkdir_ok io then (fs, st0, Inr (-1))
         else
           case listSegments ls io fs (st0\<lparr>first_log_index := 1, last_log_index := 0, open_segment := None\<rparr>) of (st1, ret1) \<Rightarrow>
             if ret1 \<noteq> 0 then (fs, st1, Inr ret1)
             else
               (case loadSegments N io fs st1 of
                  (fs2, st2, Inl e) \<Rightarrow> (fs2, st2, Inl e)
                | (fs2, st2, Inr ret2) \<Rightarrow>
                    if ret2 \<noteq> 0 then (fs2, st2, Inr ret2) else openSegment io fs2 st2))"

definition listFiles :: "segment_store \<Rightarrow> string list" where
  "listFiles st =
     map getFileName (segments st) @ (case open_segment st of None \<Rightarrow> [] | Some seg \<Rightarrow> [getFileName seg])"

end
