(* ===== verification/File_Log_Store.thy ===== *)
theory File_Log_Store
  imports Log_Queue Log_Store
begin

text \<open>
  The log store that NuRaft calls, class \<open>NuRaftFileLogStore\<close> of
  \<open>src/src/Service/NuRaftFileLogStore.cpp\<close>: the segment store behind the cache of recent entries,
  the copy of the last entry, and the thread that synchronises the log in the background. A pointer to
  a log entry is an optional entry; \<open>make_clone\<close> copies by value.
\<close>

section \<open>State\<close>

datatype FsyncMode = FSYNC_PARALLEL | FSYNC | FSYNC_BATCH

text \<open>Where the background thread is: at the test of its loop, in the wait for the event, or finished.\<close>

datatype fsync_pc = Loop_Test | Event_Wait | Finished

record file_log =
  seg_store :: segment_store
  queue :: log_queue
  last_log_entry :: "log_entry option"
  log_fsync_mode :: FsyncMode
  log_fsync_interval :: uint64
  to_flush_count :: uint64
  shutdown_called :: bool
  disk_last_durable_index :: uint64
  parallel_fsync_event :: bool
  fsync_thread :: fsync_pc

definition makeClone :: "log_entry \<Rightarrow> log_entry" where
  "makeClone entry = \<lparr>le_term = le_term entry, le_type = le_type entry, le_buf = le_buf entry\<rparr>"

text \<open>The segment store of a process is a singleton unless a new one is asked for.\<close>

definition getInstance :: "segment_store option \<Rightarrow> bool \<Rightarrow> segment_store" where
  "getInstance instance_opt force_new =
     (case instance_opt of None \<Rightarrow> new_store | Some st \<Rightarrow> if force_new then new_store else st)"

text \<open>
  The constructor. When the segment store fails to start, it returns without a last entry; the durable
  index then is an uninitialised value, here \<open>junk\<close>.
\<close>

definition new_file_log ::
    "nuraft \<Rightarrow> (string set \<Rightarrow> string list) \<Rightarrow> io \<Rightarrow> uint64 \<Rightarrow> files \<Rightarrow> segment_store option \<Rightarrow> bool \<Rightarrow> FsyncMode \<Rightarrow> uint64
      \<Rightarrow> uint32 \<Rightarrow> uint32 \<Rightarrow> files \<times> (log_exc + file_log)" where
  "new_file_log N ls io junk fs instance_opt force_new mode interval max_size max_count =
     (let fl = \<lparr>seg_store = getInstance instance_opt force_new, queue = new_queue, last_log_entry = None, log_fsync_mode = mode,
                log_fsync_interval = interval, to_flush_count = 0, shutdown_called = False,
                disk_last_durable_index = junk, parallel_fsync_event = False,
                fsync_thread = (if mode = FSYNC_PARALLEL then Loop_Test else Finished)\<rparr>
      in case init N ls io fs (seg_store fl) max_size max_count of
           (fs1, st1, Inl e) \<Rightarrow> (fs1, Inl e)
         | (fs1, st1, Inr ret) \<Rightarrow>
             if ret < 0 then (fs1, Inr (fl\<lparr>seg_store := st1\<rparr>))
             else if last_log_index st1 < 1
             then (fs1, Inr (fl\<lparr>seg_store := st1, last_log_entry := Some \<lparr>le_term = 0, le_type = app_log N, le_buf = []\<rparr>,
                                disk_last_durable_index := last_log_index st1\<rparr>))
             else (case store_getEntry N io fs1 st1 (last_log_index st1) of
                     (st2, Inl e) \<Rightarrow> (fs1, Inl e)
                   | (st2, Inr entry) \<Rightarrow>
                       (fs1, Inr (fl\<lparr>seg_store := st2, last_log_entry := entry,
                                     disk_last_durable_index := last_log_index st2\<rparr>))))"

section \<open>The background thread\<close>

text \<open>One step of the thread, \<open>None\<close> where it blocks or has finished; the event resets itself on a wait.\<close>

definition fsyncThread :: "io \<Rightarrow> file_log \<Rightarrow> file_log option" where
  "fsyncThread io fl =
     (case fsync_thread fl of
        Finished \<Rightarrow> None
      | Loop_Test \<Rightarrow> Some (fl\<lparr>fsync_thread := (if shutdown_called fl then Finished else Event_Wait)\<rparr>)
      | Event_Wait \<Rightarrow>
          if \<not> parallel_fsync_event fl then None
          else
            let last_flush_index = store_flush io (seg_store fl);
                fl1 = fl\<lparr>parallel_fsync_event := False, fsync_thread := Loop_Test\<rparr>
            in Some (if last_flush_index \<noteq> 0 then fl1\<lparr>disk_last_durable_index := last_flush_index\<rparr> else fl1))"

text \<open>\<open>shutdown\<close> up to the join, which waits until the thread has finished.\<close>

definition shutdown :: "file_log \<Rightarrow> file_log" where
  "shutdown fl =
     (if shutdown_called fl then fl
      else if log_fsync_mode fl = FSYNC_PARALLEL then fl\<lparr>shutdown_called := True, parallel_fsync_event := True\<rparr>
      else fl\<lparr>shutdown_called := True\<rparr>)"

section \<open>Writing\<close>

definition next_slot :: "file_log \<Rightarrow> uint64" where
  "next_slot fl = last_log_index (seg_store fl) + 1"

definition start_index :: "file_log \<Rightarrow> uint64" where
  "start_index fl = first_log_index (seg_store fl)"

definition last_entry :: "file_log \<Rightarrow> log_entry option" where
  "last_entry fl = map_option makeClone (last_log_entry fl)"

definition wake_fsync :: "nuraft \<Rightarrow> log_entry \<Rightarrow> file_log \<Rightarrow> file_log" where
  "wake_fsync N entry fl =
     (if log_fsync_mode fl = FSYNC_PARALLEL \<and> le_type entry \<noteq> app_log N then fl\<lparr>parallel_fsync_event := True\<rparr> else fl)"

definition append_log ::
    "nuraft \<Rightarrow> io \<Rightarrow> files \<Rightarrow> file_log \<Rightarrow> log_entry \<Rightarrow> files \<times> file_log \<times> (log_exc + uint64)" where
  "append_log N io fs fl entry =
     (let clone = makeClone entry
      in case store_appendEntry N io fs (seg_store fl) (Some entry) of
           (fs1, st1, Inl e) \<Rightarrow> (fs1, fl\<lparr>seg_store := st1\<rparr>, Inl e)
         | (fs1, st1, Inr log_index) \<Rightarrow>
             (fs1, wake_fsync N entry
                     (fl\<lparr>seg_store := st1, queue := putEntry (queue fl) log_index clone, last_log_entry := Some clone\<rparr>),
              Inr log_index))"

definition write_at ::
    "nuraft \<Rightarrow> io \<Rightarrow> files \<Rightarrow> file_log \<Rightarrow> uint64 \<Rightarrow> log_entry \<Rightarrow> files \<times> file_log \<times> (log_exc + unit)" where
  "write_at N io fs fl index entry =
     (case store_writeAt N io fs (seg_store fl) index (Some entry) of
        (fs1, st1, Inl e) \<Rightarrow> (fs1, fl\<lparr>seg_store := st1\<rparr>, Inl e)
      | (fs1, st1, Inr written) \<Rightarrow>
          let q = (if written = index then log_queue_clear (queue fl) else queue fl)
          in (fs1, wake_fsync N entry (fl\<lparr>seg_store := st1, queue := q, last_log_entry := Some entry\<rparr>), Inr ()))"

definition flush_log :: "io \<Rightarrow> file_log \<Rightarrow> bool" where
  "flush_log io fl \<longleftrightarrow> 0 < store_flush io (seg_store fl)"

definition end_of_append_batch :: "file_log \<Rightarrow> file_log \<times> (log_exc + bool)" where
  "end_of_append_batch fl =
     (case log_fsync_mode fl of
        FSYNC_PARALLEL \<Rightarrow> (fl\<lparr>parallel_fsync_event := True\<rparr>, Inr False)
      | FSYNC_BATCH \<Rightarrow>
          if log_fsync_interval fl = 0 then (fl, Inl DIVISION_BY_ZERO)
          else if to_flush_count fl mod log_fsync_interval fl = 0 then (fl\<lparr>to_flush_count := 0\<rparr>, Inr True)
          else (fl, Inr False)
      | FSYNC \<Rightarrow> (fl, Inr True))"

definition last_durable_index :: "file_log \<Rightarrow> uint64" where
  "last_durable_index fl =
     (let last_log = next_slot fl - 1
      in if log_fsync_mode fl \<noteq> FSYNC_PARALLEL then last_log else disk_last_durable_index fl)"

definition compact :: "files \<Rightarrow> file_log \<Rightarrow> uint64 \<Rightarrow> files \<times> file_log \<times> bool" where
  "compact fs fl last_log_idx =
     (case removeSegment_to fs (seg_store fl) (last_log_idx + 1) of (fs1, st1, _) \<Rightarrow>
        (fs1, fl\<lparr>seg_store := st1, queue := log_queue_clear (queue fl)\<rparr>, True))"

section \<open>Reading\<close>

definition entry_at :: "nuraft \<Rightarrow> io \<Rightarrow> files \<Rightarrow> file_log \<Rightarrow> uint64 \<Rightarrow> file_log \<times> (log_exc + log_entry option)" where
  "entry_at N io fs fl index =
     (case queue_getEntry (queue fl) index of
        Some src \<Rightarrow> (fl, Inr (Some (makeClone src)))
      | None \<Rightarrow>
          (case store_getEntry N io fs (seg_store fl) index of
             (st1, Inl e) \<Rightarrow> (fl\<lparr>seg_store := st1\<rparr>, Inl e)
           | (st1, Inr src) \<Rightarrow> (fl\<lparr>seg_store := st1\<rparr>, Inr (map_option makeClone src))))"

definition term_at :: "nuraft \<Rightarrow> io \<Rightarrow> files \<Rightarrow> file_log \<Rightarrow> uint64 \<Rightarrow> file_log \<times> (log_exc + uint64)" where
  "term_at N io fs fl index =
     (case entry_at N io fs fl index of
        (fl1, Inl e) \<Rightarrow> (fl1, Inl e)
      | (fl1, Inr None) \<Rightarrow> (fl1, Inr 0)
      | (fl1, Inr (Some _)) \<Rightarrow>
          (case entry_at N io fs fl1 index of
             (fl2, Inl e) \<Rightarrow> (fl2, Inl e)
           | (fl2, Inr None) \<Rightarrow> (fl2, Inl NULL_POINTER)
           | (fl2, Inr (Some entry)) \<Rightarrow> (fl2, Inr (le_term entry))))"

lemma index_step: "i < end_idx \<Longrightarrow> unat (end_idx - (i + 1)) < unat (end_idx - i :: uint64)"
proof -
  assume "i < end_idx"
  then have "end_idx - i \<noteq> 0" by auto
  then show ?thesis by (simp add: unat_minus_one diff_diff_eq [symmetric] unat_gt_0)
qed

function log_entries ::
    "nuraft \<Rightarrow> io \<Rightarrow> files \<Rightarrow> file_log \<Rightarrow> uint64 \<Rightarrow> uint64 \<Rightarrow> log_entry option list
      \<Rightarrow> file_log \<times> (log_exc + log_entry option list)" where
  "log_entries N io fs fl i end_idx ret =
     (if i < end_idx then
        (case entry_at N io fs fl i of
           (fl1, Inl e) \<Rightarrow> (fl1, Inl e)
         | (fl1, Inr entry) \<Rightarrow> log_entries N io fs fl1 (i + 1) end_idx (ret @ [entry]))
      else (fl, Inr ret))"
  by pat_completeness auto
termination
  by (relation "measure (\<lambda>(N, io, fs, fl, i, end_idx, ret). unat (end_idx - i))") (simp_all add: index_step)

definition entry_size :: "log_entry \<Rightarrow> int64" where
  "entry_size entry = of_nat (length (le_buf entry)) + 8 + 1"

definition over_hint :: "int64 \<Rightarrow> int64 \<Rightarrow> log_entry \<Rightarrow> bool" where
  "over_hint hint get_size entry \<longleftrightarrow> 0 <s hint \<and> hint <s get_size + entry_size entry"

function log_entries_ext ::
    "nuraft \<Rightarrow> io \<Rightarrow> files \<Rightarrow> file_log \<Rightarrow> uint64 \<Rightarrow> uint64 \<Rightarrow> int64 \<Rightarrow> int64 \<Rightarrow> log_entry list
      \<Rightarrow> file_log \<times> (log_exc + log_entry list)" where
  "log_entries_ext N io fs fl i end_idx hint get_size ret =
     (if i < end_idx then
        (case entry_at N io fs fl i of
           (fl1, Inl e) \<Rightarrow> (fl1, Inl e)
         | (fl1, Inr None) \<Rightarrow> (fl1, Inl NULL_POINTER)
         | (fl1, Inr (Some entry)) \<Rightarrow>
             if over_hint hint get_size entry then (fl1, Inr ret)
             else log_entries_ext N io fs fl1 (i + 1) end_idx hint (get_size + entry_size entry) (ret @ [entry]))
      else (fl, Inr ret))"
  by pat_completeness auto
termination
  by (relation "measure (\<lambda>(N, io, fs, fl, i, end_idx, hint, get_size, ret). unat (end_idx - i))") (simp_all add: index_step)

record VersionLogEntry =
  vle_version :: "8 word"
  vle_entry :: log_entry

function log_entries_version_ext ::
    "nuraft \<Rightarrow> io \<Rightarrow> files \<Rightarrow> file_log \<Rightarrow> uint64 \<Rightarrow> uint64 \<Rightarrow> int64 \<Rightarrow> int64 \<Rightarrow> VersionLogEntry list
      \<Rightarrow> file_log \<times> (log_exc + VersionLogEntry list)" where
  "log_entries_version_ext N io fs fl i end_idx hint get_size ret =
     (if i < end_idx then
        (case entry_at N io fs fl i of
           (fl1, Inl e) \<Rightarrow> (fl1, Inl e)
         | (fl1, Inr None) \<Rightarrow> (fl1, Inl NULL_POINTER)
         | (fl1, Inr (Some entry)) \<Rightarrow>
             if over_hint hint get_size entry then (fl1, Inr ret)
             else
               (case getVersion (seg_store fl1) i of
                  Inl e \<Rightarrow> (fl1, Inl e)
                | Inr ver \<Rightarrow>
                    log_entries_version_ext N io fs fl1 (i + 1) end_idx hint (get_size + entry_size entry)
                      (ret @ [\<lparr>vle_version = ver, vle_entry = entry\<rparr>])))
      else (fl, Inr ret))"
  by pat_completeness auto
termination
  by (relation "measure (\<lambda>(N, io, fs, fl, i, end_idx, hint, get_size, ret). unat (end_idx - i))") (simp_all add: index_step)

declare log_entries.simps [simp del] log_entries_ext.simps [simp del] log_entries_version_ext.simps [simp del]

section \<open>Log packs\<close>

text \<open>
  What packs use of NuRaft: \<open>buffer::put(int32)\<close>, \<open>buffer::get_int\<close> and \<open>buffer::get\<close> at a position
  (\<open>None\<close> for the exception at the end of the buffer), \<open>log_entry::serialize\<close> and \<open>deserialize\<close>.
\<close>

record nuraft_pack =
  put_int :: "int32 \<Rightarrow> string"
  get_int :: "string \<Rightarrow> nat \<Rightarrow> int32 option"
  get_bytes :: "string \<Rightarrow> nat \<Rightarrow> nat \<Rightarrow> string option"
  le_serialize :: "log_entry \<Rightarrow> string"
  le_deserialize :: "string \<Rightarrow> log_entry"

definition pack_ok :: "nuraft_pack \<Rightarrow> bool" where
  "pack_ok P \<longleftrightarrow>
     (\<forall>v. length (put_int P v) = 4)
   \<and> (\<forall>a v b. get_int P (a @ put_int P v @ b) (length a) = Some v)
   \<and> (\<forall>a b c. get_bytes P (a @ b @ c) (length a) (length b) = Some b)
   \<and> (\<forall>e. length (le_serialize P e) = length (le_buf e) + 9)
   \<and> (\<forall>e. le_deserialize P (le_serialize P e) = e)"

definition pack_bytes :: "nuraft \<Rightarrow> nuraft_pack \<Rightarrow> log_entry list \<Rightarrow> string" where
  "pack_bytes N P entries =
     concat (map (\<lambda>le. let bb = le_serialize P le in put_int P (of_nat (length bb)) @ buf_put N bb) entries)"

definition pack ::
    "nuraft \<Rightarrow> nuraft_pack \<Rightarrow> io \<Rightarrow> files \<Rightarrow> file_log \<Rightarrow> uint64 \<Rightarrow> int32 \<Rightarrow> file_log \<times> (log_exc + string)" where
  "pack N P io fs fl index cnt =
     (case log_entries N io fs fl index (index + scast cnt) [] of
        (fl1, Inl e) \<Rightarrow> (fl1, Inl e)
      | (fl1, Inr entries) \<Rightarrow>
          if None \<in> set entries then (fl1, Inl NULL_POINTER)
          else
            let logs = map the entries;
                size_total = of_nat (sum_list (map (\<lambda>le. length (le_serialize P le)) logs)) :: uint64;
                capacity = unat (4 + scast cnt * 4 + size_total);
                buf_out = put_int P cnt @ pack_bytes N P logs
            in if capacity < length buf_out then (fl1, Inl BUFFER_OVERFLOW)
               else (fl1, Inr (buf_out @ replicate (capacity - length buf_out) (char_of (unat (garbage io))))))"

fun apply_pack_loop ::
    "nuraft \<Rightarrow> nuraft_pack \<Rightarrow> io \<Rightarrow> files \<Rightarrow> file_log \<Rightarrow> uint64 \<Rightarrow> string \<Rightarrow> nat \<Rightarrow> nat \<Rightarrow> files \<times> file_log \<times> (log_exc + unit)" where
  "apply_pack_loop N P io fs fl cur_idx buf pos 0 = (fs, fl, Inr ())"
| "apply_pack_loop N P io fs fl cur_idx buf pos (Suc n) =
     (case get_int P buf pos of
        None \<Rightarrow> (fs, fl, Inl BUFFER_OVERFLOW)
      | Some buf_size \<Rightarrow>
          if buf_size <s 0 then (fs, fl, Inl BUFFER_OVERFLOW)
          else
            (case get_bytes P buf (pos + 4) (unat buf_size) of
               None \<Rightarrow> (fs, fl, Inl BUFFER_OVERFLOW)
             | Some buf_local \<Rightarrow>
                 (case store_writeAt N io fs (seg_store fl) cur_idx (Some (le_deserialize P buf_local)) of
                    (fs1, st1, Inl e) \<Rightarrow> (fs1, fl\<lparr>seg_store := st1\<rparr>, Inl e)
                  | (fs1, st1, Inr _) \<Rightarrow>
                      apply_pack_loop N P io fs1 (fl\<lparr>seg_store := st1\<rparr>) (cur_idx + 1) buf (pos + 4 + unat buf_size) n)))"

definition apply_pack ::
    "nuraft \<Rightarrow> nuraft_pack \<Rightarrow> io \<Rightarrow> files \<Rightarrow> file_log \<Rightarrow> uint64 \<Rightarrow> string \<Rightarrow> files \<times> file_log \<times> (log_exc + unit)" where
  "apply_pack N P io fs fl index buf =
     (case get_int P buf 0 of
        None \<Rightarrow> (fs, fl, Inl BUFFER_OVERFLOW)
      | Some num_logs \<Rightarrow>
          (case apply_pack_loop N P io fs fl index buf 4 (nat (sint num_logs)) of
             (fs1, fl1, Inl e) \<Rightarrow> (fs1, fl1, Inl e)
           | (fs1, fl1, Inr _) \<Rightarrow>
               (fs1, if log_fsync_mode fl1 = FSYNC_PARALLEL then fl1\<lparr>parallel_fsync_event := True\<rparr> else fl1, Inr ())))"

end
