(* ===== verification/Log_Store_Facts.thy ===== *)
theory Log_Store_Facts
  imports Log_Store Log_Segment_Facts
begin

text \<open>
  The segment store as a list of entries: a layout lists the segments with their inodes and entries,
  and the invariant says that they follow each other without gaps from the first to the last index of
  the log. Every operation of the store acts on that list.
\<close>

section \<open>Layouts\<close>

type_synonym layout = "(segment \<times> nat \<times> log_entry list) list"

definition entries :: "layout \<Rightarrow> log_entry list" where
  "entries L = concat (map (\<lambda>(seg, i, es). es) L)"

definition inodes :: "layout \<Rightarrow> nat list" where
  "inodes L = map (\<lambda>(seg, i, es). i) L"

definition names :: "layout \<Rightarrow> string list" where
  "names L = map (\<lambda>(seg, i, es). file_name seg) L"

lemma layout_simps [simp]:
  "entries [] = []" "entries ((seg, i, es) # L) = es @ entries L" "entries (L @ M) = entries L @ entries M"
  "inodes [] = []" "inodes ((seg, i, es) # L) = i # inodes L" "inodes (L @ M) = inodes L @ inodes M"
  "names [] = []" "names ((seg, i, es) # L) = file_name seg # names L" "names (L @ M) = names L @ names M"
  by (simp_all add: entries_def inodes_def names_def)

fun chain :: "nuraft \<Rightarrow> files \<Rightarrow> nat \<Rightarrow> layout \<Rightarrow> bool" where
  "chain N fs n [] \<longleftrightarrow> True"
| "chain N fs n ((seg, i, es) # L) \<longleftrightarrow>
     seg_ok N fs seg i es \<and> unat (first_index seg) = n \<and> chain N fs (n + length es) L"

lemma chain_append [simp]:
  "chain N fs n (L @ M) \<longleftrightarrow> chain N fs n L \<and> chain N fs (n + length (entries L)) M"
  by (induction L arbitrary: n rule: list.induct) (auto simp: add.assoc)

lemma seg_ok_cong:
  "dir fs (file_name seg) = dir fs' (file_name seg) \<Longrightarrow> contents fs i = contents fs' i
    \<Longrightarrow> seg_ok N fs seg i es = seg_ok N fs' seg i es"
  by (simp add: seg_ok_def)

lemma chain_cong:
  "\<forall>x\<in>set (names L). dir fs x = dir fs' x \<Longrightarrow> \<forall>i\<in>set (inodes L). contents fs i = contents fs' i
    \<Longrightarrow> chain N fs n L = chain N fs' n L"
proof (induction L arbitrary: n)
  case (Cons x L)
  obtain seg i es where x: "x = (seg, i, es)" by (cases x)
  have "seg_ok N fs seg i es = seg_ok N fs' seg i es" by (rule seg_ok_cong) (use Cons.prems x in simp_all)
  then show ?case using Cons x by simp
qed simp

lemma chain_names:
  assumes "chain N fs n L" and "distinct (inodes L)"
  shows "distinct (names L)" and "\<forall>x\<in>set (names L). dir fs x \<in> Some ` set (inodes L)"
proof -
  have "map (dir fs) (names L) = map Some (inodes L)" using assms(1)
    by (induction L arbitrary: n) (auto simp: seg_okD(2))
  moreover have "distinct (map Some (inodes L))" using assms(2) by (simp add: distinct_map)
  ultimately show "distinct (names L)" by (metis distinct_map)
  from \<open>map (dir fs) (names L) = map Some (inodes L)\<close>
  have "dir fs ` set (names L) = Some ` set (inodes L)" by (metis list.set_map)
  then show "\<forall>x\<in>set (names L). dir fs x \<in> Some ` set (inodes L)" by blast
qed

text \<open>The segment that holds a position.\<close>

lemma chain_find:
  "n \<le> j \<Longrightarrow> j < n + length (entries L) \<Longrightarrow>
    \<exists>A seg i es B. L = A @ (seg, i, es) # B \<and> n + length (entries A) \<le> j
      \<and> j < n + length (entries A) + length es"
proof (induction L arbitrary: n)
  case (Cons x L)
  obtain seg i es where x: "x = (seg, i, es)" by (cases x)
  show ?case
  proof (cases "j < n + length es")
    case True
    with Cons.prems x show ?thesis by (intro exI [of _ "[]"]) auto
  next
    case False
    then obtain A seg' i' es' B where "L = A @ (seg', i', es') # B"
      "n + length es + length (entries A) \<le> j" "j < n + length es + length (entries A) + length es'"
      using Cons.IH [of "n + length es"] Cons.prems x by (auto simp: add.assoc)
    then show ?thesis using x by (intro exI [of _ "x # A"]) (auto simp: add.assoc)
  qed
qed simp

lemma chain_holds:
  assumes "chain N fs n (A @ (seg, i, es) # B)"
  shows "holds_index index seg \<longleftrightarrow> n + length (entries A) \<le> unat index \<and> unat index < n + length (entries A) + length es"
  using assms seg_okD(9) [of N fs seg i es]
  by (auto simp: holds_index_def word_le_nat_alt)

lemma holds_nth:
  assumes "chain N fs n L" and "k < length L"
  shows "holds_index index (fst (L ! k)) \<longleftrightarrow>
    n + length (entries (take k L)) \<le> unat index \<and> unat index < n + length (entries (take (Suc k) L))"
proof -
  obtain seg i es where x: "L ! k = (seg, i, es)" by (cases "L ! k")
  then have L: "L = take k L @ (seg, i, es) # drop (Suc k) L" using id_take_nth_drop [OF assms(2)] by simp
  have "entries (take (Suc k) L) = entries (take k L) @ es"
    using x assms(2) by (simp add: take_Suc_conv_app_nth)
  moreover have "holds_index index seg \<longleftrightarrow> n + length (entries (take k L)) \<le> unat index
      \<and> unat index < n + length (entries (take k L)) + length es"
    by (rule chain_holds [of N fs n _ seg i es "drop (Suc k) L"]) (use assms(1) L in simp)
  ultimately show ?thesis using x by (simp add: add.assoc)
qed

lemma entries_take_mono: "k \<le> m \<Longrightarrow> length (entries (take k L)) \<le> length (entries (take m L))"
proof -
  assume "k \<le> m"
  then have "take m L = take k L @ drop k (take m L)" by (metis append_take_drop_id min.absorb1 take_take)
  then have "entries (take m L) = entries (take k L) @ entries (drop k (take m L))" by (metis layout_simps(3))
  then show ?thesis by simp
qed

lemma holds_unique:
  assumes "chain N fs n L" and "k < length L" and "m < length L"
    and "holds_index index (fst (L ! k))" and "holds_index index (fst (L ! m))"
  shows "k = m"
  using holds_nth [OF assms(1,2), of index] holds_nth [OF assms(1,3), of index] assms(4,5)
    entries_take_mono [of "Suc k" m L] entries_take_mono [of "Suc m" k L]
  by (cases k m rule: linorder_cases) auto

lemma filter_upt_single: "a < m \<Longrightarrow> P a \<Longrightarrow> \<forall>k<m. P k \<longrightarrow> k = a \<Longrightarrow> filter P [0..<m] = [a]"
proof -
  assume a: "a < m" "P a" "\<forall>k<m. P k \<longrightarrow> k = a"
  have "P k \<longleftrightarrow> k = a" if "k < m" for k using a that by blast
  then have "filter P [0..<m] = filter (\<lambda>k. k = a) [0..<m]" by (intro filter_cong) simp_all
  also have "\<dots> = [a]" using a(1) by (induction m) (auto simp: less_Suc_eq filter_empty_conv)
  finally show ?thesis .
qed

section \<open>The invariant\<close>

definition open_list :: "segment_store \<Rightarrow> segment list" where
  "open_list st = (case open_segment st of None \<Rightarrow> [] | Some seg \<Rightarrow> [seg])"

definition closed_named :: "segment \<Rightarrow> bool" where
  "closed_named seg \<longleftrightarrow> (\<exists>t. time_ok t \<and> file_name seg = format_finish (first_index seg) (last_index seg) t)"

definition open_named :: "segment \<Rightarrow> bool" where
  "open_named seg \<longleftrightarrow> time_ok (create_time seg) \<and> file_name seg = getOpenFileName seg
     \<and> CURRENT_LOG_VERSION \<le> seg_version seg"

text \<open>
  Segments that were closed in this run know their creation time and can be reopened by truncation;
  the flag of the invariant says whether all closed segments are of this kind.
\<close>

definition reopenable :: "segment \<Rightarrow> bool" where
  "reopenable seg \<longleftrightarrow> time_ok (create_time seg) \<and> file_name seg = getFinishFileName seg
     \<and> CURRENT_LOG_VERSION \<le> seg_version seg"

fun placed_ok :: "bool \<Rightarrow> segment \<times> nat \<times> log_entry list \<Rightarrow> bool" where
  "placed_ok lv (seg, i, es) \<longleftrightarrow>
     (if is_open seg then open_named seg else closed_named seg \<and> es \<noteq> [] \<and> (lv \<longrightarrow> reopenable seg))"

lemma placed_ok_fd [simp]: "placed_ok lv (seg\<lparr>seg_fd := fd\<rparr>, i, es) = placed_ok lv (seg, i, es)"
  by (simp add: open_named_def closed_named_def getOpenFileName_def reopenable_def getFinishFileName_def)

definition store_ok :: "bool \<Rightarrow> nuraft \<Rightarrow> files \<Rightarrow> segment_store \<Rightarrow> layout \<Rightarrow> bool" where
  "store_ok lv N fs st L \<longleftrightarrow>
     map fst L = segments st @ open_list st
   \<and> chain N fs (unat (first_log_index st)) L
   \<and> 0 < first_log_index st
   \<and> unat (last_log_index st) + 1 = unat (first_log_index st) + length (entries L)
   \<and> (\<forall>x\<in>set L. placed_ok lv x)
   \<and> (\<forall>seg\<in>set (segments st). \<not> is_open seg) \<and> (\<forall>seg\<in>set (open_list st). is_open seg)
   \<and> distinct (inodes L) \<and> (\<forall>i\<in>set (inodes L). i < next_inode fs)
   \<and> dom (dir fs) = set (names L)
   \<and> 9 \<le> unat (max_log_size st)"

lemma store_okD:
  assumes "store_ok lv N fs st L"
  shows "map fst L = segments st @ open_list st"
    "chain N fs (unat (first_log_index st)) L"
    "0 < first_log_index st"
    "unat (last_log_index st) + 1 = unat (first_log_index st) + length (entries L)"
    "\<forall>x\<in>set L. placed_ok lv x"
    "\<forall>seg\<in>set (segments st). \<not> is_open seg" "\<forall>seg\<in>set (open_list st). is_open seg"
    "distinct (inodes L)" "\<forall>i\<in>set (inodes L). i < next_inode fs"
    "dom (dir fs) = set (names L)" "9 \<le> unat (max_log_size st)"
  using assms unfolding store_ok_def by blast+

text \<open>The two parts of a layout.\<close>

lemma store_split:
  assumes "store_ok lv N fs st L"
  obtains (no_open) "open_segment st = None" "map fst L = segments st"
  | (with_open) C seg i es where "L = C @ [(seg, i, es)]" "map fst C = segments st" "open_segment st = Some seg"
      "is_open seg" "open_named seg"
proof (cases "open_segment st")
  case None
  then show ?thesis using no_open store_okD(1) [OF assms] by (simp add: open_list_def)
next
  case (Some seg)
  then have m: "map fst L = segments st @ [seg]" using store_okD(1) [OF assms] by (simp add: open_list_def)
  then have "L \<noteq> []" by auto
  then obtain C x where L: "L = C @ [x]" by (metis append_butlast_last_id)
  obtain seg' i es where x: "x = (seg', i, es)" by (cases x)
  have "seg' = seg" "map fst C = segments st" using m L x by simp_all
  moreover have "is_open seg" using store_okD(7) [OF assms] Some by (simp add: open_list_def)
  ultimately show ?thesis using with_open [of C seg i es] L x Some store_okD(5) [OF assms] by simp
qed

section \<open>Finding the segment of an index\<close>

lemma closed_matches:
  assumes c: "chain N fs n (A @ (seg, i, es) # B)" and segs: "map fst (A @ (seg, i, es) # B) = segs"
    and hold: "holds_index index seg"
  shows "filter (\<lambda>k. holds_index index (segs ! k)) [0..<length segs] = [length A]" and "segs ! length A = seg"
proof -
  let ?L = "A @ (seg, i, es) # B"
  have len: "length segs = length ?L" and a: "length A < length ?L" by (simp_all add: segs [symmetric])
  have nth: "k < length ?L \<Longrightarrow> segs ! k = fst (?L ! k)" for k
    unfolding segs [symmetric] by (rule nth_map)
  then show seg: "segs ! length A = seg" using a by simp
  show "filter (\<lambda>k. holds_index index (segs ! k)) [0..<length segs] = [length A]"
    unfolding len
  proof (rule filter_upt_single [OF a])
    show "holds_index index (segs ! length A)" using seg hold by simp
    show "\<forall>k<length ?L. holds_index index (segs ! k) \<longrightarrow> k = length A"
      using holds_unique [OF c _ a] nth hold by simp
  qed
qed

lemma index_range:
  assumes ok: "store_ok lv N fs st L" and idx: "first_log_index st \<le> index" "index \<le> last_log_index st"
  shows "unat (first_log_index st) \<le> unat index" "unat index < unat (first_log_index st) + length (entries L)"
    and "first_log_index st \<noteq> last_log_index st + 1"
proof -
  show j: "unat (first_log_index st) \<le> unat index" "unat index < unat (first_log_index st) + length (entries L)"
    using idx store_okD(4) [OF ok] by (simp_all add: word_le_nat_alt)
  show "first_log_index st \<noteq> last_log_index st + 1"
  proof
    assume eq: "first_log_index st = last_log_index st + 1"
    show False
    proof (cases "last_log_index st = -1")
      case True
      with eq store_okD(3) [OF ok] show False by simp
    next
      case False
      with eq have "unat (first_log_index st) = unat (last_log_index st) + 1" by (simp add: unat_Suc)
      with j store_okD(4) [OF ok] show False by linarith
    qed
  qed
qed

definition holds_at :: "segment_store \<Rightarrow> layout \<Rightarrow> layout \<Rightarrow> segment \<Rightarrow> nat \<Rightarrow> log_entry list \<Rightarrow> layout \<Rightarrow> seg_loc \<Rightarrow> bool" where
  "holds_at st L A seg i es B loc \<longleftrightarrow> L = A @ (seg, i, es) # B \<and> seg_at st loc = seg
     \<and> (\<forall>seg'. map fst (A @ (seg', i, es) # B) = segments (update_at st loc seg') @ open_list (update_at st loc seg'))"

lemma getSegment_ok:
  assumes ok: "store_ok lv N fs st L" and idx: "first_log_index st \<le> index" "index \<le> last_log_index st"
  shows "\<exists>A seg i es B loc. getSegment st index = Some loc \<and> holds_at st L A seg i es B loc
    \<and> unat (first_log_index st) + length (entries A) \<le> unat index
    \<and> unat index < unat (first_log_index st) + length (entries A) + length es"
proof -
  let ?n = "unat (first_log_index st)"
  note r = index_range [OF ok idx]
  obtain A seg i es B where L: "L = A @ (seg, i, es) # B"
    and k: "?n + length (entries A) \<le> unat index" "unat index < ?n + length (entries A) + length es"
    using chain_find [OF r(1,2)] by blast
  have c: "chain N fs ?n L" by (rule store_okD(2) [OF ok])
  have hold: "holds_index index seg" using chain_holds [of N fs ?n A seg i es B] c k unfolding L by blast
  have "\<exists>loc. getSegment st index = Some loc \<and> holds_at st L A seg i es B loc"
    using ok
  proof (cases rule: store_split)
    case no_open
    have m: "filter (\<lambda>k. holds_index index (segments st ! k)) [0..<length (segments st)] = [length A]"
      "segments st ! length A = seg"
      using closed_matches [OF c [unfolded L] no_open(2) [unfolded L] hold] by simp_all
    have "getSegment st index = Some (ClosedSegment (length A))"
      using no_open(1) r(3) idx m by (simp add: getSegment_def not_less)
    moreover have "holds_at st L A seg i es B (ClosedSegment (length A))"
      using L m(2) no_open(1)
      by (simp add: holds_at_def seg_at_def update_at_def open_list_def list_update_append L flip: no_open(2))
    ultimately show ?thesis by blast
  next
    case (with_open C oseg oi oes)
    have oc: "chain N fs ?n C" and of: "unat (first_index oseg) = ?n + length (entries C)"
      using c by (simp_all add: with_open(1))
    show ?thesis
    proof (cases "first_index oseg \<le> index")
      case True
      have "holds_index index oseg"
        using True r(2) of seg_okD(9) [of N fs oseg oi oes] c
        by (auto simp: with_open(1) holds_index_def word_le_nat_alt)
      then have "length A = length C"
        using holds_unique [OF c, of "length A" "length C" index] hold L with_open(1)
        by (metis fst_conv length_append length_Cons less_add_Suc1 add_Suc_right nth_append_length)
      then have eq: "A = C" "B = []" "(seg, i, es) = (oseg, oi, oes)" using L with_open(1) by simp_all
      have "getSegment st index = Some OpenSegment"
        using True r(3) idx with_open(3) by (simp add: getSegment_def not_less)
      moreover have "holds_at st L A seg i es B OpenSegment"
        using eq L with_open by (simp add: holds_at_def seg_at_def update_at_def open_list_def)
      ultimately show ?thesis by blast
    next
      case False
      then have "seg \<noteq> oseg" using hold by (auto simp: holds_index_def)
      then have "B \<noteq> []" using L with_open(1) by auto
      then obtain B' x where B: "B = B' @ [x]" by (metis append_butlast_last_id)
      then have C: "C = A @ (seg, i, es) # B'" and x: "x = (oseg, oi, oes)" using L with_open(1) by simp_all
      have m: "filter (\<lambda>k. holds_index index (segments st ! k)) [0..<length (segments st)] = [length A]"
        "segments st ! length A = seg"
        using closed_matches [OF oc [unfolded C] with_open(2) [unfolded C] hold] by simp_all
      have "getSegment st index = Some (ClosedSegment (length A))"
        using False with_open(3) r(3) idx m by (simp add: getSegment_def not_less)
      moreover have "holds_at st L A seg i es B (ClosedSegment (length A))"
        using L m(2) with_open(3)
        by (simp add: holds_at_def seg_at_def update_at_def open_list_def list_update_append B x C flip: with_open(2))
      ultimately show ?thesis by blast
    qed
  qed
  then show ?thesis using k by blast
qed

section \<open>Reading\<close>

lemma update_at_fields [simp]:
  "first_log_index (update_at st loc seg) = first_log_index st"
  "last_log_index (update_at st loc seg) = last_log_index st"
  "max_log_size (update_at st loc seg) = max_log_size st"
  "length (segments (update_at st loc seg)) = length (segments st)"
  by (simp_all add: update_at_def split: seg_loc.splits)

lemma reopen_ok:
  assumes ok: "store_ok lv N fs st L" and at: "holds_at st L A seg i es B loc"
    and seg': "seg' = seg\<lparr>seg_fd := fd\<rparr>" "seg_ok N fs seg' i es"
  shows "store_ok lv N fs (update_at st loc seg') (A @ (seg', i, es) # B)"
proof -
  let ?st = "update_at st loc seg'" and ?L = "A @ (seg', i, es) # B"
  have L: "L = A @ (seg, i, es) # B" and m: "map fst ?L = segments ?st @ open_list ?st"
    using at by (simp_all add: holds_at_def)
  have "map is_open (segments ?st) @ map is_open (open_list ?st) = map is_open (segments st) @ map is_open (open_list st)"
    unfolding map_append [symmetric] m [symmetric] store_okD(1) [OF ok, symmetric] L by (simp add: seg'(1))
  then have flags: "map is_open (segments ?st) = map is_open (segments st)" "map is_open (open_list ?st) = map is_open (open_list st)"
    by simp_all
  have sets: "is_open ` set (segments ?st) = is_open ` set (segments st)" "is_open ` set (open_list ?st) = is_open ` set (open_list st)"
    using flags by (metis list.set_map)+
  have "\<forall>x\<in>set ?L. placed_ok lv x"
    using store_okD(5) [OF ok] unfolding L seg'(1) by (simp del: placed_ok.simps)
  moreover have "chain N fs (unat (first_log_index st)) ?L"
    using store_okD(2) [OF ok] seg'(2) unfolding L by (simp add: seg'(1))
  moreover have "\<forall>s\<in>set (segments ?st). \<not> is_open s" "\<forall>s\<in>set (open_list ?st). is_open s"
    using store_okD(6,7) [OF ok] sets by (metis (full_types) image_iff)+
  moreover have "entries ?L = entries L" "inodes ?L = inodes L" "names ?L = names L"
    by (simp_all add: L seg'(1))
  ultimately show ?thesis
    unfolding store_ok_def using store_okD(3,4,8,9,10,11) [OF ok] m by simp
qed

lemma store_getEntry_ok:
  assumes N: "buffers_ok N" and ok: "store_ok lv N fs st L" and io: "open_ok io"
    and idx: "first_log_index st \<le> index" "index \<le> last_log_index st"
  shows "\<exists>st' L'. store_getEntry N io fs st index = (st', Inr (Some (entries L ! (unat index - unat (first_log_index st)))))
    \<and> store_ok lv N fs st' L' \<and> entries L' = entries L \<and> first_log_index st' = first_log_index st"
proof -
  let ?n = "unat (first_log_index st)"
  obtain A seg i es B loc where g: "getSegment st index = Some loc" and at: "holds_at st L A seg i es B loc"
    and k: "?n + length (entries A) \<le> unat index" "unat index < ?n + length (entries A) + length es"
    using getSegment_ok [OF ok idx] by blast
  have L: "L = A @ (seg, i, es) # B" and seg: "seg_at st loc = seg" using at by (simp_all add: holds_at_def)
  have sok: "seg_ok N fs seg i es" and first: "unat (first_index seg) = ?n + length (entries A)"
    using store_okD(2) [OF ok] unfolding L by simp_all
  have within: "first_index seg \<le> index" "index \<le> last_index seg"
    using k first seg_okD(9) [OF sok] by (simp_all add: word_le_nat_alt)
  obtain p where get: "seg_getEntry N io fs seg index
      = (seg\<lparr>seg_fd := Some (i, p)\<rparr>, Inr (Some (es ! unat (index - first_index seg))))"
    and sok': "seg_ok N fs (seg\<lparr>seg_fd := Some (i, p)\<rparr>) i es"
    by (rule getEntry_ok [OF N sok io within])
  have pos: "unat (index - first_index seg) = unat index - ?n - length (entries A)"
    using within first by (simp add: unat_sub)
  have "entries L ! (unat index - ?n) = es ! unat (index - first_index seg)"
    unfolding L pos using k by (simp add: nth_append)
  then show ?thesis
    using reopen_ok [OF ok at refl sok'] g get seg L
    by (intro exI [of _ "update_at st loc (seg\<lparr>seg_fd := Some (i, p)\<rparr>)"] exI [of _ "A @ (seg\<lparr>seg_fd := Some (i, p)\<rparr>, i, es) # B"])
       (simp add: store_getEntry_def)
qed

lemma store_getEntry_outside:
  "index < first_log_index st \<or> last_log_index st < index \<Longrightarrow> store_getEntry N io fs st index = (st, Inr None)"
  by (auto simp: store_getEntry_def getSegment_def)

lemma store_getTerm_ok:
  assumes ok: "store_ok lv N fs st L" and idx: "first_log_index st \<le> index" "index \<le> last_log_index st"
  shows "store_getTerm st index = Inr (le_term (entries L ! (unat index - unat (first_log_index st))))"
proof -
  let ?n = "unat (first_log_index st)"
  obtain A seg i es B loc where g: "getSegment st index = Some loc" and at: "holds_at st L A seg i es B loc"
    and k: "?n + length (entries A) \<le> unat index" "unat index < ?n + length (entries A) + length es"
    using getSegment_ok [OF ok idx] by blast
  have L: "L = A @ (seg, i, es) # B" and seg: "seg_at st loc = seg" using at by (simp_all add: holds_at_def)
  have sok: "seg_ok N fs seg i es" and first: "unat (first_index seg) = ?n + length (entries A)"
    using store_okD(2) [OF ok] unfolding L by simp_all
  have within: "first_index seg \<le> index" "index \<le> last_index seg"
    using k first seg_okD(9) [OF sok] by (simp_all add: word_le_nat_alt)
  have pos: "unat (index - first_index seg) = unat index - ?n - length (entries A)"
    using within first by (simp add: unat_sub)
  have "entries L ! (unat index - ?n) = es ! unat (index - first_index seg)"
    unfolding L pos using k by (simp add: nth_append)
  then show ?thesis using getTerm_ok [OF sok within] g seg by (simp add: store_getTerm_def)
qed

section \<open>Appending\<close>

definition io_ok :: "io \<Rightarrow> bool" where
  "io_ok io \<longleftrightarrow> mkdir_ok io \<and> open_ok io \<and> truncate_ok io \<and> writes_all io \<and> time_ok (clock io)"

lemma open_last:
  assumes ok: "store_ok lv N fs st (C @ [(seg, i, es)])"
  shows "last_index seg = last_log_index st"
proof -
  have "unat (last_index seg) + 1 = unat (last_log_index st) + 1"
    using store_okD(2,4) [OF ok] seg_okD(9) [of N fs seg i es] by simp
  then show ?thesis by (simp add: word_unat_eq_iff)
qed

lemma append_open:
  assumes N: "buffers_ok N" and ok: "store_ok lv N fs st (C @ [(seg, i, es)])"
    and op: "open_segment st = Some seg" "is_open seg" and e: "entry_ok e" and io: "writes_all io"
    and room: "last_log_index st \<noteq> -1" and segs: "map fst C = segments st"
    and fs1: "fs1 = fs\<lparr>contents := (contents fs)(i := contents fs i @ record_bytes N (last_log_index st + 1) e)\<rparr>"
  shows "seg_appendEntry N io fs seg (Some e) l
      = (fs1, appended N seg i e, last_log_index st + 1, last_log_index st + 1)"
    and "store_ok lv N fs1 (st\<lparr>open_segment := Some (appended N seg i e), last_log_index := last_log_index st + 1\<rparr>)
      (C @ [(appended N seg i e, i, es @ [e])])"
proof -
  have last_eq: "last_index seg = last_log_index st" by (rule open_last [OF ok])
  have sok: "seg_ok N fs seg i es" and cC: "chain N fs (unat (first_log_index st)) C"
    and first: "unat (first_index seg) = unat (first_log_index st) + length (entries C)"
    using store_okD(2) [OF ok] by simp_all
  show "seg_appendEntry N io fs seg (Some e) l
      = (fs1, appended N seg i e, last_log_index st + 1, last_log_index st + 1)"
    unfolding fs1 using append_result [OF N sok op(2) e io, of l] by (simp add: last_eq)
  have sok1: "seg_ok N fs1 (appended N seg i e) i (es @ [e])"
    using append_ok [OF N sok e] room by (simp add: last_eq fs1)
  have "chain N fs1 (unat (first_log_index st)) C = chain N fs (unat (first_log_index st)) C"
    by (rule chain_cong) (use store_okD(8) [OF ok] fs1 in auto)
  with cC sok1 first have chain1: "chain N fs1 (unat (first_log_index st)) (C @ [(appended N seg i e, i, es @ [e])])"
    by (simp add: appended_def Let_def)
  have "placed_ok lv (appended N seg i e, i, es @ [e])"
    using store_okD(5) [OF ok] op(2) by (simp add: appended_def Let_def open_named_def getOpenFileName_def)
  moreover have "names (C @ [(appended N seg i e, i, es @ [e])]) = names (C @ [(seg, i, es)])" "is_open (appended N seg i e)"
    using op(2) by (simp_all add: appended_def Let_def)
  ultimately show "store_ok lv N fs1 (st\<lparr>open_segment := Some (appended N seg i e), last_log_index := last_log_index st + 1\<rparr>)
      (C @ [(appended N seg i e, i, es @ [e])])"
    unfolding store_ok_def using store_okD(3-11) [OF ok] chain1 unat_Suc [OF room] segs op
    by (simp add: fs1 open_list_def del: placed_ok.simps)
qed

text \<open>A new segment gets a name that no segment has.\<close>

lemma open_name_fresh:
  assumes "closed_named seg" and "time_ok t" shows "file_name seg \<noteq> format_open f t"
  using assms parse_finish_open [of t f] parse_format_finish by (metis closed_named_def option.distinct(1))

definition started :: "io \<Rightarrow> files \<Rightarrow> uint64 \<Rightarrow> segment" where
  "started io fs first =
     (new_open_segment first (format_open first (clock io)) (clock io))
       \<lparr>seg_fd := Some (next_inode fs, 9), file_size := 9\<rparr>"

definition started_files :: "io \<Rightarrow> files \<Rightarrow> uint64 \<Rightarrow> files" where
  "started_files io fs first =
     fs\<lparr>dir := (dir fs)(format_open first (clock io) \<mapsto> next_inode fs),
        contents := (contents fs)(next_inode fs := file_header CURRENT_LOG_VERSION),
        next_inode := Suc (next_inode fs)\<rparr>"

lemma start_result:
  assumes "io_ok io" and "dir fs (format_open (last_log_index st + 1) (clock io)) = None"
  shows "start_segment io fs st
    = (started_files io fs (last_log_index st + 1), st\<lparr>open_segment := Some (started io fs (last_log_index st + 1))\<rparr>, 0)"
proof -
  let ?f = "last_log_index st + 1"
  let ?name = "format_open ?f (clock io)"
  let ?seg = "(new_open_segment ?f ?name (clock io))\<lparr>seg_fd := Some (next_inode fs, 0)\<rparr>"
  have c: "seg_create io fs (new_open_segment ?f [] []) = (create_file fs ?name, ?seg, 0)"
    using assms by (simp add: seg_create_def Let_def new_open_segment_def getOpenFileName_def exists_file_def io_ok_def)
  have "length magic_array = 8" by (simp add: magic_array_def)
  then have "writeFileHeader io (create_file fs ?name) ?seg
      = (started_files io fs ?f, started io fs ?f, Inr ())"
    using assms(1)
    by (simp add: writeFileHeader_def new_open_segment_def write_fd_all io_ok_def overwrite_def resize_def
        create_file_def started_files_def started_def file_header_def)
       (simp add: magic_array_def)
  then show ?thesis by (simp add: start_segment_def c)
qed

lemma start_ok:
  assumes ok: "store_ok lv N fs st L" and none: "open_segment st = None" and io: "io_ok io"
    and room: "last_log_index st \<noteq> -1"
  shows "dir fs (format_open (last_log_index st + 1) (clock io)) = None"
    and "store_ok lv N (started_files io fs (last_log_index st + 1))
      (st\<lparr>open_segment := Some (started io fs (last_log_index st + 1))\<rparr>)
      (L @ [(started io fs (last_log_index st + 1), next_inode fs, [])])"
proof -
  let ?f = "last_log_index st + 1"
  let ?name = "format_open ?f (clock io)" and ?fs = "started_files io fs ?f" and ?seg = "started io fs ?f"
  have time: "time_ok (clock io)" using io by (simp add: io_ok_def)
  have L: "map fst L = segments st" using store_okD(1) [OF ok] none by (simp add: open_list_def)
  have closed: "closed_named seg" if "(seg, i, es) \<in> set L" for seg i es
  proof -
    have "seg \<in> set (segments st)" using that by (metis L fst_conv image_eqI list.set_map)
    then have "\<not> is_open seg" using store_okD(6) [OF ok] by blast
    then show ?thesis using store_okD(5) [OF ok] that by fastforce
  qed
  have "?name \<notin> set (names L)"
    using closed open_name_fresh [OF _ time] unfolding names_def by (auto, metis)
  then show fresh: "dir fs ?name = None" using store_okD(10) [OF ok] by blast
  have f: "unat ?f = unat (first_log_index st) + length (entries L)"
    using store_okD(4) [OF ok] unat_Suc [OF room] by simp
  then have pos: "0 < ?f" using store_okD(3) [OF ok] by (simp add: word_less_nat_alt)
  have "chain N ?fs (unat (first_log_index st)) L = chain N fs (unat (first_log_index st)) L"
    by (rule chain_cong) (use \<open>?name \<notin> set (names L)\<close> store_okD(9) [OF ok] in \<open>auto simp: started_files_def\<close>)
  then have "chain N ?fs (unat (first_log_index st)) L" using store_okD(2) [OF ok] by simp
  moreover have "?name \<noteq> []" using time by (simp add: format_open_eq)
  then have "seg_ok N ?fs ?seg (next_inode fs) []"
    using pos unat_Suc [OF room]
    by (simp add: seg_ok_def started_def started_files_def new_open_segment_def)
  moreover have "placed_ok lv (?seg, next_inode fs, [])" "is_open ?seg" "first_index ?seg = ?f" "file_name ?seg = ?name"
    using time by (simp_all add: started_def new_open_segment_def open_named_def getOpenFileName_def)
  moreover have "dom (dir ?fs) = insert ?name (dom (dir fs))" "next_inode ?fs = Suc (next_inode fs)"
    by (simp_all add: started_files_def)
  ultimately show "store_ok lv N ?fs (st\<lparr>open_segment := Some ?seg\<rparr>) (L @ [(?seg, next_inode fs, [])])"
    unfolding store_ok_def using store_okD(3-11) [OF ok] L f
    by (auto simp: open_list_def simp del: placed_ok.simps)
qed

text \<open>A segment that is full gets the name of a closed segment, which no other has.\<close>

lemma finish_name_unique:
  assumes "closed_named seg" and "file_name seg = format_finish f l t" and "time_ok t"
  shows "first_index seg = f"
  using assms parse_format_finish unfolding closed_named_def by (metis option.inject prod.inject)

lemma chain_first_less:
  assumes "chain N fs n L" and "(seg, i, es) \<in> set L" and "es \<noteq> []"
  shows "unat (first_index seg) < n + length (entries L)"
  using assms(1,2)
proof (induction L arbitrary: n)
  case (Cons x L)
  obtain s j fs' where x: "x = (s, j, fs')" by (cases x)
  show ?case
  proof (cases "(seg, i, es) = x")
    case True
    then show ?thesis using Cons.prems(1) x assms(3) by (simp add: less_le_trans)
  next
    case False
    then show ?thesis using Cons x by (fastforce simp: add.assoc)
  qed
qed simp

lemma roll_ok:
  assumes ok: "store_ok lv N fs st (C @ [(seg, i, es)])" and segs: "map fst C = segments st"
    and op: "open_segment st = Some seg" "is_open seg" "open_named seg" and es: "es \<noteq> []"
    and fs1: "fs1 = fs\<lparr>dir := ((dir fs)(file_name seg := None))(getFinishFileName seg \<mapsto> i)\<rparr>"
  shows "roll_segment fs st = (fs1, st\<lparr>segments := segments st @ [finished seg], open_segment := None\<rparr>, Inr ())"
    and "store_ok lv N fs1 (st\<lparr>segments := segments st @ [finished seg], open_segment := None\<rparr>) (C @ [(finished seg, i, es)])"
proof -
  let ?n = "unat (first_log_index st)"
  have sok: "seg_ok N fs seg i es" and cC: "chain N fs ?n C"
    and first: "unat (first_index seg) = ?n + length (entries C)"
    using store_okD(2) [OF ok] by simp_all
  have name: "file_name seg = getOpenFileName seg" and time: "time_ok (create_time seg)"
    using op(3) by (simp_all add: open_named_def)
  note close = close_full [OF sok op(2) name fs1]
  show "roll_segment fs st = (fs1, st\<lparr>segments := segments st @ [finished seg], open_segment := None\<rparr>, Inr ())"
    by (simp add: roll_segment_def op(1) close(1))
  have other: "x \<noteq> getFinishFileName seg" "x \<noteq> file_name seg" if x: "x \<in> set (names C)" for x
  proof -
    obtain s j es' where s: "(s, j, es') \<in> set C" "x = file_name s" using x by (auto simp: names_def)
    then have "s \<in> set (segments st)" using segs by (metis fst_conv image_eqI list.set_map)
    then have c: "closed_named s" "es' \<noteq> []" using store_okD(5,6) [OF ok] s(1) by fastforce+
    then have "unat (first_index s) < unat (first_index seg)" using chain_first_less [OF cC s(1)] first by simp
    then show "x \<noteq> getFinishFileName seg"
      using finish_name_unique [OF c(1)] time s(2) by (auto simp: getFinishFileName_def)
    show "x \<noteq> file_name seg" using open_name_fresh [OF c(1) time] s(2) name by (simp add: getOpenFileName_def)
  qed
  have "chain N fs1 ?n C = chain N fs ?n C"
    by (rule chain_cong) (use other in \<open>auto simp: fs1\<close>)
  then have chain1: "chain N fs1 ?n (C @ [(finished seg, i, es)])"
    using cC close(2) first by (simp add: finished_def)
  have placed: "placed_ok lv (finished seg, i, es)"
    using es time op(3) by (auto simp: finished_def closed_named_def getFinishFileName_def reopenable_def open_named_def)
  have "file_name seg \<noteq> getFinishFileName seg"
    using parse_finish_open [OF time, of "first_index seg"] parse_format_finish [OF time, of "first_index seg" "last_index seg"]
    by (auto simp: name getOpenFileName_def getFinishFileName_def)
  then have "dom (dir fs1) = set (names (C @ [(finished seg, i, es)]))"
    using store_okD(10) [OF ok] other by (auto simp: fs1 finished_def)
  then show "store_ok lv N fs1 (st\<lparr>segments := segments st @ [finished seg], open_segment := None\<rparr>) (C @ [(finished seg, i, es)])"
    unfolding store_ok_def using store_okD(3-11) [OF ok] chain1 placed segs
    by (simp add: open_list_def fs1 del: placed_ok.simps) (simp add: finished_def)
qed

lemma openSegment_ok:
  assumes ok: "store_ok lv N fs st L" and io: "io_ok io" and room: "last_log_index st \<noteq> -1"
  shows "\<exists>fs' st' L'. openSegment io fs st = (fs', st', Inr 0) \<and> store_ok lv N fs' st' L' \<and> entries L' = entries L
    \<and> first_log_index st' = first_log_index st \<and> last_log_index st' = last_log_index st \<and> open_segment st' \<noteq> None"
proof (cases "usable st")
  case True
  then show ?thesis using ok by (intro exI [of _ fs] exI [of _ st] exI [of _ L]) (auto simp: openSegment_def usable_def split: option.splits)
next
  case False
  show ?thesis
    using ok
  proof (cases rule: store_split)
    case no_open
    note start = start_ok [OF ok no_open(1) io room]
    show ?thesis
      using False no_open(1) start_result [OF io start(1)] start(2)
      by (intro exI [of _ "started_files io fs (last_log_index st + 1)"] exI [of _ "st\<lparr>open_segment := Some (started io fs (last_log_index st + 1))\<rparr>"]
          exI [of _ "L @ [(started io fs (last_log_index st + 1), next_inode fs, [])]"])
         (simp add: openSegment_def roll_segment_def)
  next
    case (with_open C seg i es)
    have "CURRENT_LOG_VERSION \<le> seg_version seg" using with_open(5) by (simp add: open_named_def)
    then have "unat (max_log_size st) < file_size seg" using False with_open(3) by (simp add: usable_def)
    moreover have "file_size seg = 9 + rec_size N es"
      using store_okD(2) [OF ok] seg_okD(6) [of N fs seg i es] by (simp add: with_open(1))
    ultimately have es: "es \<noteq> []" using store_okD(11) [OF ok] by auto
    let ?fs = "fs\<lparr>dir := ((dir fs)(file_name seg := None))(getFinishFileName seg \<mapsto> i)\<rparr>"
    let ?st = "st\<lparr>segments := segments st @ [finished seg], open_segment := None\<rparr>"
    note roll = roll_ok [OF ok [unfolded with_open(1)] with_open(2-5) es refl]
    have none: "open_segment ?st = None" and room': "last_log_index ?st \<noteq> -1" using room by simp_all
    note start = start_ok [OF roll(2) none io room']
    show ?thesis
      using False roll(1) start_result [OF io start(1)] start(2)
      by (intro exI [of _ "started_files io ?fs (last_log_index st + 1)"] exI [of _ "?st\<lparr>open_segment := Some (started io ?fs (last_log_index st + 1))\<rparr>"]
          exI [of _ "(C @ [(finished seg, i, es)]) @ [(started io ?fs (last_log_index st + 1), next_inode ?fs, [])]"])
         (simp add: openSegment_def with_open(1))
  qed
qed

lemma store_append_ok:
  assumes N: "buffers_ok N" and ok: "store_ok lv N fs st L" and io: "io_ok io"
    and e: "entry_ok e" and room: "last_log_index st \<noteq> -1"
  shows "\<exists>fs' st' L'. store_appendEntry N io fs st (Some e) = (fs', st', Inr (last_log_index st + 1))
    \<and> store_ok lv N fs' st' L' \<and> entries L' = entries L @ [e]
    \<and> first_log_index st' = first_log_index st \<and> last_log_index st' = last_log_index st + 1"
proof -
  obtain fs1 st1 L1 where op: "openSegment io fs st = (fs1, st1, Inr 0)" and ok1: "store_ok lv N fs1 st1 L1"
    and same: "entries L1 = entries L" "first_log_index st1 = first_log_index st" "last_log_index st1 = last_log_index st"
    and some: "open_segment st1 \<noteq> None"
    using openSegment_ok [OF ok io room] by blast
  show ?thesis
    using ok1
  proof (cases rule: store_split)
    case no_open
    with some show ?thesis by simp
  next
    case (with_open C seg i es)
    have w: "writes_all io" using io by (simp add: io_ok_def)
    have room1: "last_log_index st1 \<noteq> -1" using room same by simp
    note app = append_open [OF N ok1 [unfolded with_open(1)] with_open(3,4) e w room1 with_open(2) refl]
    show ?thesis
      using op app(1) app(2) same with_open(3)
      by (intro exI [of _ "fs1\<lparr>contents := (contents fs1)(i := contents fs1 i @ record_bytes N (last_log_index st1 + 1) e)\<rparr>"]
          exI [of _ "st1\<lparr>open_segment := Some (appended N seg i e), last_log_index := last_log_index st1 + 1\<rparr>"]
          exI [of _ "C @ [(appended N seg i e, i, es @ [e])]"])
         (simp add: store_appendEntry_def with_open(1) flip: same(1))
  qed
qed

end
