(* ===== verification/Log_Store_Remove.thy ===== *)
theory Log_Store_Remove
  imports Log_Store_Facts
begin

text \<open>
  Compaction and truncation of the segment store: removing whole segments from the front drops a
  prefix of the log, truncating keeps a prefix of it.
\<close>

section \<open>Removing files\<close>

lemma remove_files_eq:
  "dir (remove_files fs segs) x = (if x \<in> getFileName ` set segs then None else dir fs x)"
  "contents (remove_files fs segs) = contents fs" "next_inode (remove_files fs segs) = next_inode fs"
proof (induction segs arbitrary: fs)
  case (Cons seg segs)
  have name: "getFileName (closeFile seg) = getFileName seg"
    by (simp add: closeFile_def getFileName_def getOpenFileName_def getFinishFileName_def)
  have d: "dir (fst (seg_remove fs seg)) = (dir fs)(getFileName seg := None)" for fs
    by (auto simp: seg_remove_def Let_def name remove_file_def exists_file_def)
  have c: "contents (fst (seg_remove fs seg)) = contents fs" "next_inode (fst (seg_remove fs seg)) = next_inode fs" for fs
    by (simp_all add: seg_remove_def Let_def remove_file_def)
  { case 1 show ?case using Cons.IH(1) [of "fst (seg_remove fs seg)"] by (simp add: d) }
  { case 2 show ?case using Cons.IH(2) [of "fst (seg_remove fs seg)"] by (simp add: c) }
  { case 3 show ?case using Cons.IH(3) [of "fst (seg_remove fs seg)"] by (simp add: c) }
qed simp_all

lemma getFileName_named: "seg_ok N fs seg i es \<Longrightarrow> getFileName seg = file_name seg"
  by (simp add: getFileName_def seg_okD(1))

lemma layout_names: "chain N fs n L \<Longrightarrow> map getFileName (map fst L) = names L"
  by (induction L arbitrary: n) (auto simp: getFileName_named)

lemma remove_parts:
  assumes c: "chain N fs n (A @ B @ C)" and d: "distinct (inodes (A @ B @ C))"
    and dom: "dom (dir fs) = set (names (A @ B @ C))"
  shows "chain N (remove_files fs (map fst B)) n A"
    and "chain N (remove_files fs (map fst B)) (n + length (entries (A @ B))) C"
    and "dom (dir (remove_files fs (map fst B))) = set (names (A @ C))"
proof -
  have nm: "getFileName ` set (map fst B) = set (names B)"
    using layout_names [of N fs "n + length (entries A)" B] c by (metis chain_append list.set_map)
  have dn: "distinct (names (A @ B @ C))" by (rule chain_names(1) [OF c d])
  have dir: "dir (remove_files fs (map fst B)) x = (if x \<in> set (names B) then None else dir fs x)" for x
    by (simp only: remove_files_eq nm)
  have "chain N (remove_files fs (map fst B)) n A = chain N fs n A"
    by (rule chain_cong) (use dn in \<open>auto simp: dir remove_files_eq(2)\<close>)
  then show "chain N (remove_files fs (map fst B)) n A" using c by simp
  have "chain N (remove_files fs (map fst B)) (n + length (entries (A @ B))) C = chain N fs (n + length (entries (A @ B))) C"
    by (rule chain_cong) (use dn in \<open>auto simp: dir remove_files_eq(2)\<close>)
  then show "chain N (remove_files fs (map fst B)) (n + length (entries (A @ B))) C" using c by (simp add: add.assoc)
  show "dom (dir (remove_files fs (map fst B))) = set (names (A @ C))"
  proof (rule set_eqI)
    fix x
    have "x \<in> dom (dir (remove_files fs (map fst B))) \<longleftrightarrow> x \<in> dom (dir fs) \<and> x \<notin> set (names B)"
      by (simp add: dir dom_def)
    then show "x \<in> dom (dir (remove_files fs (map fst B))) \<longleftrightarrow> x \<in> set (names (A @ C))"
      unfolding dom using dn by auto
  qed
qed

section \<open>Splitting a layout by an index\<close>

lemma filter_split:
  assumes "\<forall>x\<in>set A. P x" and "\<forall>x\<in>set B. \<not> P x"
  shows "filter P (A @ B) = A" "filter (\<lambda>x. \<not> P x) (A @ B) = B"
    "filter P (B @ A) = A" "filter (\<lambda>x. \<not> P x) (B @ A) = B"
  using assms by (auto simp: filter_empty_conv filter_id_conv)

lemma chain_nonempty_last:
  "chain N fs n L \<Longrightarrow> (seg, i, es) \<in> set L \<Longrightarrow> unat (last_index seg) < n + length (entries L)"
proof (induction L arbitrary: n)
  case (Cons x L)
  obtain s j fs' where x: "x = (s, j, fs')" by (cases x)
  have "unat (last_index s) + 1 = n + length fs'" using Cons.prems(1) x seg_okD(9) [of N fs s j fs'] by simp
  then show ?case using Cons x by (fastforce simp: add.assoc)
qed simp

lemma chain_member: "chain N fs n L \<Longrightarrow> (seg, i, es) \<in> set L \<Longrightarrow> seg_ok N fs seg i es"
  by (induction L arbitrary: n) auto

lemma chain_first_ge:
  "chain N fs n L \<Longrightarrow> (seg, i, es) \<in> set L \<Longrightarrow> n \<le> unat (first_index seg)"
proof (induction L arbitrary: n)
  case (Cons x L)
  obtain s j fs' where x: "x = (s, j, fs')" by (cases x)
  then show ?case using Cons by fastforce
qed simp

section \<open>Compaction\<close>

lemma split_last:
  assumes c: "chain N fs n L"
  obtains R K where "L = R @ K" "\<forall>s\<in>set (map fst R). last_index s < k" "\<forall>s\<in>set (map fst K). \<not> last_index s < k"
proof
  let ?P = "\<lambda>x. last_index (fst x) < k"
  let ?R = "takeWhile ?P L" and ?K = "dropWhile ?P L"
  show "L = ?R @ ?K" by simp
  show "\<forall>s\<in>set (map fst ?R). last_index s < k" by (auto dest: set_takeWhileD)
  have cK: "chain N fs (n + length (entries ?R)) ?K"
    using c by (metis chain_append takeWhile_dropWhile_id)
  show "\<forall>s\<in>set (map fst ?K). \<not> last_index s < k"
  proof (cases ?K)
    case (Cons x K')
    obtain s i es where x: "x = (s, i, es)" by (cases x)
    have head: "k \<le> last_index s" using Cons x by (metis fst_conv hd_dropWhile list.distinct(1) list.sel(1) not_less)
    have "k \<le> last_index s'" if "(s', i', es') \<in> set K'" for s' i' es'
    proof -
      have sok: "seg_ok N fs s i es" and cK': "chain N fs (n + length (entries ?R) + length es) K'"
        and f: "unat (first_index s) = n + length (entries ?R)"
        using cK Cons x by simp_all
      have "unat (last_index s') + 1 = unat (first_index s') + length es'"
        by (rule seg_okD(9) [OF chain_member [OF cK' that]])
      moreover have "unat (last_index s) + 1 = unat (first_index s) + length es" by (rule seg_okD(9) [OF sok])
      moreover have "n + length (entries ?R) + length es \<le> unat (first_index s')" by (rule chain_first_ge [OF cK' that])
      ultimately have "unat (last_index s) \<le> unat (last_index s')" using f by linarith
      then show ?thesis using head by (simp add: word_le_nat_alt)
    qed
    then show ?thesis using x head unfolding Cons by (auto simp: not_less)
  next
    case Nil
    show ?thesis unfolding Nil by simp
  qed
qed

lemma keep_later: "f \<le> first_index s \<Longrightarrow> keep_segment s (f, l) = (f, l)"
  by (auto simp: keep_segment_def)

lemma fold_keep_later: "\<forall>s\<in>set segs. f \<le> first_index s \<Longrightarrow> fold keep_segment segs (f, l) = (f, l)"
  by (induction segs) (simp_all add: keep_later)

lemma beyond_iff:
  assumes "0 < f" and "f \<le> l" shows "beyond f l \<longleftrightarrow> l = f"
proof -
  have "0 < l" using assms by simp
  then have u: "unat (l - 1) = unat l - 1" by (intro unat_minus_one) auto
  have "0 < unat l" "unat f \<le> unat l" using \<open>0 < l\<close> assms(2) by (simp_all add: word_less_nat_alt word_le_nat_alt)
  then have "l - 1 < f \<longleftrightarrow> unat l = unat f" unfolding word_less_nat_alt u by linarith
  then show ?thesis using \<open>0 < unat l\<close> by (auto simp: beyond_def word_unat_eq_iff)
qed

lemma fold_keep:
  assumes c: "chain N fs n ((s, i, es) # K)" and k: "first_index s \<le> k" "k \<le> last_index s" "last_index s \<le> l"
    and pos: "0 < first_index s"
  shows "fold keep_segment (map fst ((s, i, es) # K)) (k, l) = (first_index s, l)"
proof -
  have head: "keep_segment s (k, l) = (first_index s, l)"
  proof (cases "first_index s < k")
    case True
    have "\<not> beyond (first_index s) l" using beyond_iff [OF pos, of l] k True by auto
    with True show ?thesis by (simp add: keep_segment_def)
  qed (use k in \<open>simp add: keep_segment_def\<close>)
  have "first_index s \<le> first_index t" if t: "t \<in> set (map fst K)" for t
  proof -
    obtain x where "x \<in> set K" "t = fst x" using t by auto
    then have "(t, fst (snd x), snd (snd x)) \<in> set K" by simp
    moreover have "chain N fs (n + length es) K" using c by simp
    ultimately have "n + length es \<le> unat (first_index t)" by (rule chain_first_ge [rotated])
    then show ?thesis using c by (simp add: word_le_nat_alt)
  qed
  then show ?thesis using fold_keep_later [of "map fst K" "first_index s" l] head by simp
qed

lemma removeSegment_to_eq:
  assumes ok: "store_ok lv N fs st L" and less: "first_log_index st < k"
    and L: "L = R @ K" and R: "\<forall>s\<in>set (map fst R). last_index s < k" and K: "\<forall>s\<in>set (map fst K). \<not> last_index s < k"
  obtains kept op f l where "fold keep_segment (map fst K) (k, last_log_index st) = (f, l)"
    "removeSegment_to fs st k = (remove_files fs (map fst R),
      st\<lparr>first_log_index := f, last_log_index := (if beyond f l then f - 1 else l), segments := kept, open_segment := op\<rparr>, 0)"
    "map fst K = kept @ (case op of None \<Rightarrow> [] | Some seg \<Rightarrow> [seg])" "set kept \<subseteq> set (segments st)" "op = None \<or> op = open_segment st"
proof -
  obtain f l where fl: "fold keep_segment (map fst K) (k, last_log_index st) = (f, l)" by fastforce
  note fs_R = filter_split [OF R K]
  have g: "\<not> k \<le> first_log_index st" using less by simp
  show ?thesis
    using ok
  proof (cases rule: store_split)
    case no_open
    then have segs: "segments st = map fst R @ map fst K" using L by simp
    show ?thesis
      by (rule that [OF fl, where kept = "map fst K" and op = None])
         (use g no_open(1) fl fs_R in \<open>simp_all add: removeSegment_to_def segs\<close>)
  next
    case (with_open C seg i es)
    show ?thesis
    proof (cases "K = []")
      case True
      have segs: "map fst R = segments st @ [seg]" using with_open L True by simp
      then have "filter (\<lambda>s. last_index s < k) (segments st) = segments st" "filter (\<lambda>s. \<not> last_index s < k) (segments st) = []"
        "last_index seg < k" using R by (auto simp: filter_id_conv filter_empty_conv)
      then show ?thesis
        using fl g with_open(3)
        by (intro that [OF fl, where kept = "[]" and op = None]) (simp_all add: removeSegment_to_def True segs)
    next
      case False
      then obtain K' x where K': "K = K' @ [x]" by (metis append_butlast_last_id)
      have x: "x = (seg, i, es)" and C: "C = R @ K'" using with_open(1) L K' by simp_all
      have segs: "segments st = map fst R @ map fst K'" using with_open(2) C by simp
      have K2: "\<forall>s\<in>set (map fst K'). \<not> last_index s < k" and seg: "\<not> last_index seg < k" using K K' x by auto
      note fs' = filter_split [OF R K2]
      obtain f1 l1 where fl1: "fold keep_segment (map fst K') (k, last_log_index st) = (f1, l1)" by fastforce
      then have "keep_segment seg (f1, l1) = (f, l)" using fl K' x by simp
      then show ?thesis
        using fl1 g with_open(3) seg fs' K' x
        by (intro that [OF fl, where kept = "map fst K'" and op = "Some seg"]) (simp_all add: removeSegment_to_def segs)
    qed
  qed
qed

lemma prefix_end:
  assumes c: "chain N fs (unat f) R" and less: "f < k" and R: "\<forall>s\<in>set (map fst R). last_index s < k"
  shows "unat f + length (entries R) \<le> unat k"
proof (cases R rule: rev_cases)
  case Nil
  then show ?thesis using less by (simp add: word_less_nat_alt)
next
  case (snoc R' x)
  obtain s i es where x: "x = (s, i, es)" by (cases x)
  have "unat (last_index s) + 1 = unat f + length (entries R)"
    using c snoc x seg_okD(9) [of N fs s i es] by simp
  moreover have "unat (last_index s) < unat k" using R snoc x by (simp add: word_less_nat_alt)
  ultimately show ?thesis by linarith
qed

lemma compact_parts:
  assumes ok: "store_ok lv N fs st (R @ K)" and st': "map fst K = segments st' @ open_list st'"
    and sub: "set (segments st') \<subseteq> set (segments st)" "open_segment st' = None \<or> open_segment st' = open_segment st"
    and pos: "0 < first_log_index st'" "max_log_size st' = max_log_size st"
    and first: "K \<noteq> [] \<Longrightarrow> unat (first_log_index st') = unat (first_log_index st) + length (entries R)"
    and last: "unat (last_log_index st') + 1 = unat (first_log_index st') + length (entries K)"
  shows "store_ok lv N (remove_files fs (map fst R)) st' K"
proof -
  let ?fs = "remove_files fs (map fst R)"
  have c: "chain N fs (unat (first_log_index st)) ([] @ R @ K)" and d: "distinct (inodes ([] @ R @ K))"
    and dm: "dom (dir fs) = set (names ([] @ R @ K))"
    using store_okD(2,8,10) [OF ok] by simp_all
  note parts = remove_parts [OF c d dm]
  have ch: "chain N ?fs (unat (first_log_index st')) K"
    using parts(2) first by (cases "K = []") simp_all
  have op: "\<forall>seg\<in>set (segments st'). \<not> is_open seg" "\<forall>seg\<in>set (open_list st'). is_open seg"
    using sub store_okD(6,7) [OF ok] by (auto simp: open_list_def)
  show ?thesis
    unfolding store_ok_def using st' ch pos last op store_okD(5,8,9,11) [OF ok] parts(3)
    by (simp add: remove_files_eq(2,3) del: placed_ok.simps)
qed

lemma compact_ok:
  assumes ok: "store_ok lv N fs st L" and less: "first_log_index st < k" and more: "last_log_index st \<noteq> k"
  shows "\<exists>fs' st' R K. removeSegment_to fs st k = (fs', st', 0) \<and> store_ok lv N fs' st' K \<and> L = R @ K
    \<and> (if last_log_index st < k then K = [] \<and> first_log_index st' = k
       else unat (first_log_index st') = unat (first_log_index st) + length (entries R)
         \<and> first_log_index st' \<le> k \<and> last_log_index st' = last_log_index st)"
proof -
  let ?f = "first_log_index st" and ?l = "last_log_index st"
  have c: "chain N fs (unat ?f) L" by (rule store_okD(2) [OF ok])
  obtain R K where L: "L = R @ K" and R: "\<forall>s\<in>set (map fst R). last_index s < k"
    and K: "\<forall>s\<in>set (map fst K). \<not> last_index s < k"
    by (rule split_last [OF c])
  obtain kept op f l where fl: "fold keep_segment (map fst K) (k, ?l) = (f, l)"
    and rm: "removeSegment_to fs st k = (remove_files fs (map fst R),
      st\<lparr>first_log_index := f, last_log_index := (if beyond f l then f - 1 else l), segments := kept, open_segment := op\<rparr>, 0)"
    and m: "map fst K = kept @ (case op of None \<Rightarrow> [] | Some seg \<Rightarrow> [seg])"
    and sub: "set kept \<subseteq> set (segments st)" "op = None \<or> op = open_segment st"
    by (rule removeSegment_to_eq [OF ok less L R K])
  have pe: "unat ?f + length (entries R) \<le> unat k"
    by (rule prefix_end [of N fs, OF _ less R]) (use c L in simp)
  have kpos: "0 < k" using less store_okD(3) [OF ok] by simp
  let ?st = "st\<lparr>first_log_index := f, last_log_index := (if beyond f l then f - 1 else l), segments := kept, open_segment := op\<rparr>"
  have m': "map fst K = segments ?st @ open_list ?st" using m by (simp add: open_list_def)
  show ?thesis
  proof (cases K)
    case Nil
    then have f: "f = k" "l = ?l" using fl by simp_all
    have "unat ?l < unat k" using store_okD(4) [OF ok] pe L Nil by simp
    then have lk: "?l < k" by (simp add: word_less_nat_alt)
    then have b: "beyond f l"
      unfolding f beyond_def by (metis less_trans measure_unat word_less_nat_alt)
    have "unat (k - 1) + 1 = unat k" using kpos by (simp add: unat_minus_one unat_gt_0 word_gt_0)
    then have "store_ok lv N (remove_files fs (map fst R)) ?st K"
      by (intro compact_parts [OF ok [unfolded L] m']) (use sub kpos Nil b f in simp_all)
    then show ?thesis using rm L lk f Nil by auto
  next
    case (Cons x K')
    obtain s i es where x: "x = (s, i, es)" by (cases x)
    have cK: "chain N fs (unat ?f + length (entries R)) ((s, i, es) # K')" using c L Cons x by simp
    then have fs: "unat (first_index s) = unat ?f + length (entries R)" by simp
    have s1: "first_index s \<le> k" using pe fs by (simp add: word_le_nat_alt)
    have s2: "k \<le> last_index s" using K Cons x by (simp add: not_less)
    have "unat (last_index s) < unat ?l + 1"
      using chain_nonempty_last [OF cK, of s i es] store_okD(4) [OF ok] L Cons x by simp
    then have s3: "last_index s \<le> ?l" by (simp add: word_le_nat_alt)
    have pos: "0 < first_index s" using seg_okD(8) cK by (metis chain.simps(2))
    have f: "f = first_index s" "l = ?l" using fold_keep [OF cK s1 s2 s3 pos] fl Cons x by simp_all
    have "first_index s \<le> ?l" using s1 s2 s3 by simp
    then have b: "\<not> beyond f l" using beyond_iff [OF pos, of ?l] more s1 s2 s3 unfolding f by auto
    have "unat l + 1 = unat f + length (entries K)" using store_okD(4) [OF ok] fs f L by simp
    then have "store_ok lv N (remove_files fs (map fst R)) ?st K"
      by (intro compact_parts [OF ok [unfolded L] m']) (use sub pos fs b f in simp_all)
    moreover have "\<not> ?l < k" using s2 s3 by simp
    ultimately show ?thesis using rm L fs f b s1 by auto
  qed
qed

text \<open>When exactly the last entry remains, the index of the last entry is set back by one.\<close>

lemma compact_single:
  assumes ok: "store_ok lv N fs st (R @ [(seg, i, [e])])" and R: "R \<noteq> []" "entries R \<noteq> []"
  shows "\<exists>fs' st'. removeSegment_to fs st (last_log_index st) = (fs', st', 0)
    \<and> first_log_index st' = last_log_index st \<and> last_log_index st' = last_log_index st - 1
    \<and> loadEntry N (contents fs' i) 9 = loadEntry N (contents fs i) 9"
proof -
  let ?l = "last_log_index st" and ?f = "first_log_index st"
  have c: "chain N fs (unat ?f) R" and sok: "seg_ok N fs seg i [e]"
    and fs: "unat (first_index seg) = unat ?f + length (entries R)"
    using store_okD(2) [OF ok] by simp_all
  have l: "unat ?l = unat ?f + length (entries R)" using store_okD(4) [OF ok] by simp
  then have first: "first_index seg = ?l" using fs by (simp add: word_unat_eq_iff)
  have lst: "last_index seg = ?l" by (rule open_last [OF ok])
  have less: "?f < ?l" using l R(2) by (simp add: word_less_nat_alt)
  have "last_index s < ?l" if s: "s \<in> set (map fst R)" for s
  proof -
    obtain x where "x \<in> set R" "s = fst x" using s by auto
    then have "(s, fst (snd x), snd (snd x)) \<in> set R" by simp
    then have "unat (last_index s) < unat ?f + length (entries R)" by (rule chain_nonempty_last [OF c])
    then show ?thesis using l by (simp add: word_less_nat_alt)
  qed
  then have Rl: "\<forall>s\<in>set (map fst R). last_index s < ?l" by blast
  have K: "\<forall>s\<in>set (map fst [(seg, i, [e])]). \<not> last_index s < ?l" by (simp add: lst)
  obtain kept op f l' where fl: "fold keep_segment (map fst [(seg, i, [e])]) (?l, ?l) = (f, l')"
    and rm: "removeSegment_to fs st ?l = (remove_files fs (map fst R),
      st\<lparr>first_log_index := f, last_log_index := (if beyond f l' then f - 1 else l'), segments := kept, open_segment := op\<rparr>, 0)"
    by (rule removeSegment_to_eq [OF ok less refl Rl K])
  have "(f, l') = (?l, ?l)" unfolding fl [symmetric] by (simp add: keep_later first)
  then have "f = ?l" "l' = ?l" by blast+
  moreover have "beyond ?l ?l" using beyond_iff [of ?l ?l] seg_okD(8) [OF sok] first by simp
  ultimately show ?thesis using rm by (simp add: remove_files_eq(2))
qed

section \<open>Truncation\<close>

lemma chain_first_le:
  "chain N fs n L \<Longrightarrow> (seg, i, es) \<in> set L \<Longrightarrow> unat (first_index seg) \<le> n + length (entries L)"
proof (induction L arbitrary: n)
  case (Cons x L)
  obtain s j fs' where x: "x = (s, j, fs')" by (cases x)
  then show ?case using Cons by (fastforce simp: add.assoc)
qed simp

lemma mem_fst: "s \<in> set (map fst L) \<Longrightarrow> \<exists>i es. (s, i, es) \<in> set L"
proof -
  assume "s \<in> set (map fst L)"
  then obtain x where "x \<in> set L" "s = fst x" by auto
  then show ?thesis by (metis prod.collapse)
qed

text \<open>The segments that truncation keeps are a prefix of the layout.\<close>

lemma truncate_keep:
  assumes ok: "store_ok lv N fs st (A @ B)" and A: "\<forall>s\<in>set (map fst A). \<not> kept < first_index s"
    and B: "\<forall>s\<in>set (map fst B). kept < first_index s" and less: "\<not> last_log_index st \<le> kept"
  obtains segs op where "map fst A = segs @ (case op of None \<Rightarrow> [] | Some seg \<Rightarrow> [seg])"
    "set segs \<subseteq> set (segments st)" "op = None \<or> op = open_segment st"
    "truncateLog io fs st kept
      = truncate_kept io (remove_files fs (map fst B)) (st\<lparr>segments := segs, open_segment := op\<rparr>) kept"
proof -
  note AB = filter_split [OF B A]
  show ?thesis
    using ok
  proof (cases rule: store_split)
    case no_open
    then have segs: "segments st = map fst A @ map fst B" by simp
    show ?thesis
      by (rule that [where segs = "map fst A" and op = None])
         (use less no_open(1) AB in \<open>simp_all add: truncateLog_def segs Let_def\<close>)
  next
    case (with_open C seg i es)
    show ?thesis
    proof (cases "B = []")
      case True
      then have A': "A = C @ [(seg, i, es)]" using with_open(1) by simp
      have "\<forall>s\<in>set (segments st). \<not> kept < first_index s" "\<not> kept < first_index seg"
        using A unfolding A' with_open(2) [symmetric] by simp_all
      then have "filter (\<lambda>s. kept < first_index s) (segments st) = []" "filter (\<lambda>s. \<not> kept < first_index s) (segments st) = segments st"
        "\<not> kept < first_index seg" by (auto simp: filter_id_conv filter_empty_conv)
      then show ?thesis
        by (intro that [where segs = "segments st" and op = "Some seg"])
           (use less with_open(2,3) A' True in \<open>simp_all add: truncateLog_def Let_def\<close>)
    next
      case False
      then obtain B' x where B': "B = B' @ [x]" by (metis append_butlast_last_id)
      have x: "x = (seg, i, es)" and C: "C = A @ B'" using with_open(1) B' by simp_all
      have segs: "segments st = map fst A @ map fst B'" using with_open(2) C by simp
      have B2: "\<forall>s\<in>set (map fst B'). kept < first_index s" and seg: "kept < first_index seg" using B B' x by auto
      note AB' = filter_split [OF B2 A]
      show ?thesis
        by (intro that [where segs = "map fst A" and op = None])
           (use less with_open(3) AB' seg B' x in \<open>simp_all add: truncateLog_def segs Let_def\<close>)
    qed
  qed
qed

lemma truncate_layout:
  assumes ok: "store_ok lv N fs st L" and kept: "first_log_index st \<le> kept" "kept < last_log_index st"
  obtains A seg i es B where "L = A @ [(seg, i, es)] @ B" "\<forall>s\<in>set (map fst (A @ [(seg, i, es)])). \<not> kept < first_index s"
    "\<forall>s\<in>set (map fst B). kept < first_index s" "first_index seg \<le> kept" "kept \<le> last_index seg"
    "unat (first_index seg) = unat (first_log_index st) + length (entries A)"
proof -
  let ?n = "unat (first_log_index st)"
  have c: "chain N fs ?n L" by (rule store_okD(2) [OF ok])
  have "kept \<le> last_log_index st" using kept(2) by simp
  from chain_find [OF index_range(1,2) [OF ok kept(1) this]]
  obtain A seg i es B where L: "L = A @ (seg, i, es) # B" and j: "?n + length (entries A) \<le> unat kept"
    "unat kept < ?n + length (entries A) + length es" by blast
  have cA: "chain N fs ?n (A @ [(seg, i, es)])" and cB: "chain N fs (?n + length (entries A) + length es) B"
    and first: "unat (first_index seg) = ?n + length (entries A)" and sok: "seg_ok N fs seg i es"
    using c L by (simp_all add: add.assoc)
  have "\<not> kept < first_index s" if s: "s \<in> set (map fst A)" for s
  proof -
    obtain j' es' where "(s, j', es') \<in> set A" using mem_fst [OF s] by blast
    moreover have "chain N fs ?n A" using cA by simp
    ultimately have "unat (first_index s) \<le> ?n + length (entries A)" by (rule chain_first_le [rotated])
    then show ?thesis using j by (simp add: word_less_nat_alt)
  qed
  moreover have "\<not> kept < first_index seg" using first j by (simp add: word_less_nat_alt)
  moreover have "kept < first_index s" if s: "s \<in> set (map fst B)" for s
  proof -
    obtain j' es' where "(s, j', es') \<in> set B" using mem_fst [OF s] by blast
    then have "?n + length (entries A) + length es \<le> unat (first_index s)" by (rule chain_first_ge [OF cB])
    then show ?thesis using j by (simp add: word_less_nat_alt)
  qed
  moreover have "kept \<le> last_index seg" using j first seg_okD(9) [OF sok] by (simp add: word_le_nat_alt)
  ultimately show ?thesis using that [of A seg i es B] L first by auto
qed

lemma keep_prefix_ok:
  assumes ok: "store_ok lv N fs st (A @ B)" and st': "map fst A = segments st' @ open_list st'"
    and sub: "set (segments st') \<subseteq> set (segments st)" "open_segment st' = None \<or> open_segment st' = open_segment st"
    and same: "first_log_index st' = first_log_index st" "max_log_size st' = max_log_size st"
    and last: "unat (last_log_index st') + 1 = unat (first_log_index st) + length (entries A)"
  shows "store_ok lv N (remove_files fs (map fst B)) st' A"
proof -
  let ?fs = "remove_files fs (map fst B)"
  have c: "chain N fs (unat (first_log_index st)) (A @ B @ [])" and d: "distinct (inodes (A @ B @ []))"
    and dm: "dom (dir fs) = set (names (A @ B @ []))"
    using store_okD(2,8,10) [OF ok] by simp_all
  note parts = remove_parts [OF c d dm]
  have op: "\<forall>seg\<in>set (segments st'). \<not> is_open seg" "\<forall>seg\<in>set (open_list st'). is_open seg"
    using sub store_okD(6,7) [OF ok] by (auto simp: open_list_def)
  show ?thesis
    unfolding store_ok_def using st' same last op store_okD(3,5,8,9,11) [OF ok] parts(1,3)
    by (simp add: remove_files_eq(2,3) del: placed_ok.simps)
qed

lemma replace_last_ok:
  assumes ok: "store_ok lv N fs st (A @ [(seg, i, es)])" and seg': "seg_ok N fs' seg' i ks"
    and same: "first_index seg' = first_index seg" "is_open seg'" "open_named seg'"
    and A: "chain N fs' (unat (first_log_index st)) A"
    and fs': "dom (dir fs') = insert (file_name seg') (set (names A))" "next_inode fs' = next_inode fs"
    and st': "map fst A = segments st'" "open_segment st' = Some seg'" "first_log_index st' = first_log_index st"
      "max_log_size st' = max_log_size st"
    and closed: "\<forall>s\<in>set (map fst A). \<not> is_open s"
    and last: "last_log_index st' = last_index seg'"
  shows "store_ok lv N fs' st' (A @ [(seg', i, ks)])"
proof -
  have first: "unat (first_index seg') = unat (first_log_index st) + length (entries A)"
    using store_okD(2) [OF ok] same(1) by simp
  have "placed_ok lv (seg', i, ks)" using same by simp
  moreover have "unat (last_log_index st') + 1 = unat (first_log_index st') + length (entries (A @ [(seg', i, ks)]))"
    using last st'(3) first seg_okD(9) [OF seg'] by simp
  ultimately show ?thesis
    unfolding store_ok_def using st' same seg' A fs' closed first store_okD(3,5,8,9,11) [OF ok]
    by (simp add: open_list_def del: placed_ok.simps)
qed

lemma truncate_target_last:
  assumes c: "chain N fs n (A @ [(seg, i, es)])" and m: "map fst (A @ [(seg, i, es)]) = segments st @ open_list st"
    and h: "holds_index kept seg" and op: "\<forall>s\<in>set (segments st). \<not> is_open s" "\<forall>s\<in>set (open_list st). is_open s"
  shows "if is_open seg then truncate_target st kept = Some OpenSegment \<and> open_segment st = Some seg \<and> segments st = map fst A
    else truncate_target st kept = Some (ClosedSegment (length A)) \<and> open_segment st = None \<and> segments st = map fst A @ [seg]"
proof (cases "open_segment st")
  case None
  then have segs: "map fst (A @ (seg, i, es) # []) = segments st" using m by (simp add: open_list_def)
  have "\<not> is_open seg" using op(1) segs by (metis in_set_conv_decomp map_append list.simps(9) fst_conv)
  with None closed_matches [OF c segs h] segs show ?thesis by (simp add: truncate_target_def)
next
  case (Some s)
  then have "s = seg" "segments st = map fst A" using m by (simp_all add: open_list_def)
  with Some op(2) h show ?thesis by (simp add: truncate_target_def open_list_def)
qed

lemma truncate_kept_ok:
  assumes ok: "store_ok True N fs st (A @ [(seg, i, es)])" and io: "io_ok io"
    and kept: "first_index seg \<le> kept" "kept \<le> last_index seg"
  shows "\<exists>fs' st' seg' ks. truncate_kept io fs st kept = (fs', st', Inr 0) \<and> store_ok True N fs' st' (A @ [(seg', i, ks)])
    \<and> ks = take (unat kept + 1 - unat (first_index seg)) es \<and> first_log_index st' = first_log_index st
    \<and> last_log_index st' = kept"
proof -
  let ?n = "unat (first_log_index st)"
  have c: "chain N fs ?n (A @ [(seg, i, es)])" and m: "map fst (A @ [(seg, i, es)]) = segments st @ open_list st"
    by (rule store_okD(2) [OF ok], rule store_okD(1) [OF ok])
  have sok: "seg_ok N fs seg i es" and cA: "chain N fs ?n A" using c by simp_all
  have last_eq: "last_index seg = last_log_index st" by (rule open_last [OF ok])
  have "holds_index kept seg" using kept by (simp add: holds_index_def)
  note t = truncate_target_last [OF c m this store_okD(6,7) [OF ok]]
  have placed: "placed_ok True (seg, i, es)" using store_okD(5) [OF ok] by simp
  have dom: "dom (dir fs) = insert (file_name seg) (set (names A))" using store_okD(10) [OF ok] by auto
  have closedA: "\<forall>s\<in>set (map fst A). \<not> is_open s"
  proof (cases "is_open seg")
    case True
    then have "segments st = map fst A" using t by simp
    then show ?thesis using store_okD(6) [OF ok] by simp
  next
    case False
    then have "segments st = map fst A @ [seg]" using t by simp
    then show ?thesis using store_okD(6) [OF ok] by simp
  qed
  show ?thesis
  proof (cases "kept = last_index seg")
    case True
    have keep: "seg_truncate io fs seg kept = (fs, seg, Inr 0)" by (rule truncate_nothing) (simp add: True)
    have "truncate_kept io fs st kept = (fs, st\<lparr>last_log_index := kept\<rparr>, Inr 0)"
    proof (cases "is_open seg")
      case True
      then have "truncate_target st kept = Some OpenSegment" "seg_at st OpenSegment = seg" "update_at st OpenSegment seg = st"
        using t by (simp_all add: seg_at_def update_at_def)
      then show ?thesis by (simp add: truncate_kept_def keep)
    next
      case False
      then have "truncate_target st kept = Some (ClosedSegment (length A))" "seg_at st (ClosedSegment (length A)) = seg"
        "update_at st (ClosedSegment (length A)) seg = st"
        using t by (cases st, simp_all add: seg_at_def update_at_def nth_append list_update_append)
      then show ?thesis by (simp add: truncate_kept_def keep)
    qed
    moreover have "st\<lparr>last_log_index := kept\<rparr> = st" by (simp add: True last_eq)
    moreover have "take (unat kept + 1 - unat (first_index seg)) es = es"
      using seg_okD(9) [OF sok] by (simp add: True)
    ultimately show ?thesis using ok by (intro exI [of _ fs] exI [of _ st] exI [of _ seg] exI [of _ es]) (simp add: True last_eq)
  next
    case False
    then have k: "first_index seg \<le> kept" "kept < last_index seg" using kept by simp_all
    let ?ks = "take (unat (kept + 1 - first_index seg)) es"
    have ks: "unat (kept + 1 - first_index seg) = unat kept + 1 - unat (first_index seg)"
      using kept_length(2) [OF sok k] by linarith
    have i: "i \<notin> set (inodes A)" using store_okD(8) [OF ok] by simp
    show ?thesis
    proof (cases "is_open seg")
      case True
      have tr: "truncate_ok io" using io by (simp add: io_ok_def)
      note r = truncate_open [OF sok True tr k refl]
      let ?fs = "truncate_fd fs i (9 + rec_size N ?ks)" and ?seg = "truncated N seg i kept ?ks"
      have "truncate_kept io fs st kept = (?fs, st\<lparr>open_segment := Some ?seg, last_log_index := kept\<rparr>, Inr 0)"
        using t True by (simp add: truncate_kept_def seg_at_def r(1) update_at_def Let_def)
      moreover have "chain N ?fs ?n A = chain N fs ?n A"
        by (rule chain_cong) (use i in \<open>auto simp: truncate_fd_def\<close>)
      then have "store_ok True N ?fs (st\<lparr>open_segment := Some ?seg, last_log_index := kept\<rparr>) (A @ [(?seg, i, ?ks)])"
        using placed True t dom cA closedA
        by (intro replace_last_ok [OF ok r(2)])
           (simp_all add: truncated_def open_named_def getOpenFileName_def truncate_fd_def)
      ultimately show ?thesis unfolding ks [symmetric]
        by (intro exI [of _ ?fs] exI [of _ "st\<lparr>open_segment := Some ?seg, last_log_index := kept\<rparr>"] exI [of _ ?seg] exI [of _ ?ks]) simp
    next
      case closed: False
      have re: "reopenable seg" using placed closed by simp
      have io': "truncate_ok io" "open_ok io" using io by (simp_all add: io_ok_def)
      have nm: "file_name seg = getFinishFileName seg" and time: "time_ok (create_time seg)" using re by (simp_all add: reopenable_def)
      let ?fs1 = "fs\<lparr>dir := ((dir fs)(file_name seg := None))(getOpenFileName seg \<mapsto> i)\<rparr>"
      let ?fs = "truncate_fd ?fs1 i (9 + rec_size N ?ks)" and ?seg = "truncated N (reopened seg) i kept ?ks"
      note r = truncate_closed [OF sok closed nm io' k refl refl]
      let ?st = "st\<lparr>segments := map fst A, open_segment := Some ?seg, last_log_index := kept\<rparr>"
      have "is_open ?seg" by (simp add: truncated_def reopened_def)
      then have "truncate_kept io fs st kept = (?fs, ?st, Inr 0)"
        using t closed by (simp add: truncate_kept_def seg_at_def nth_append r(1) update_at_def Let_def butlast_append list_update_append)
      moreover have names: "x \<noteq> getOpenFileName seg" "x \<noteq> file_name seg" if x: "x \<in> set (names A)" for x
      proof -
        obtain s j es' where s: "(s, j, es') \<in> set A" "x = file_name s" using x by (auto simp: names_def)
        then have "s \<in> set (map fst A)" by force
        then have "closed_named s" using closedA s(1) store_okD(5) [OF ok] by fastforce
        then show "x \<noteq> getOpenFileName seg" using open_name_fresh [OF _ time] s(2) by (simp add: getOpenFileName_def)
        have "distinct (names (A @ [(seg, i, es)]))" by (rule chain_names(1) [OF c store_okD(8) [OF ok]])
        then show "x \<noteq> file_name seg" using x by auto
      qed
      have "chain N ?fs ?n A = chain N fs ?n A"
        by (rule chain_cong) (use i names in \<open>auto simp: truncate_fd_def\<close>)
      then have "store_ok True N ?fs ?st (A @ [(?seg, i, ?ks)])"
        using cA closedA re dom names
        by (intro replace_last_ok [OF ok r(2)])
           (auto simp: truncated_def reopened_def open_named_def getOpenFileName_def truncate_fd_def reopenable_def)
      ultimately show ?thesis unfolding ks [symmetric]
        by (intro exI [of _ ?fs] exI [of _ ?st] exI [of _ ?seg] exI [of _ ?ks]) simp
    qed
  qed
qed

lemma truncate_kept_last:
  assumes "truncate_kept io fs (st\<lparr>last_log_index := x\<rparr>) kept = (fs', st', Inr 0)"
  shows "truncate_kept io fs st kept = (fs', st', Inr 0)"
proof -
  have same: "truncate_target (st\<lparr>last_log_index := x\<rparr>) kept = truncate_target st kept"
    "seg_at (st\<lparr>last_log_index := x\<rparr>) loc = seg_at st loc"
    "update_at (st\<lparr>last_log_index := x\<rparr>) loc seg = (update_at st loc seg)\<lparr>last_log_index := x\<rparr>" for loc seg
    by (simp_all add: truncate_target_def seg_at_def update_at_def Let_def split: seg_loc.splits option.splits)
  show ?thesis
    using assms unfolding truncate_kept_def same
    by (auto simp: Let_def split: option.splits prod.splits sum.splits if_splits)
qed

lemma truncateLog_ok:
  assumes ok: "store_ok True N fs st L" and io: "io_ok io"
    and kept: "unat (first_log_index st) \<le> unat kept + 1" "kept < last_log_index st"
  shows "\<exists>fs' st' L'. truncateLog io fs st kept = (fs', st', Inr 0) \<and> store_ok True N fs' st' L'
    \<and> entries L' = take (unat kept + 1 - unat (first_log_index st)) (entries L)
    \<and> first_log_index st' = first_log_index st \<and> last_log_index st' = kept"
proof (cases "first_log_index st \<le> kept")
  case True
  obtain A seg i es B where L: "L = A @ [(seg, i, es)] @ B"
    and a: "\<forall>s\<in>set (map fst (A @ [(seg, i, es)])). \<not> kept < first_index s" "\<forall>s\<in>set (map fst B). kept < first_index s"
    and k: "first_index seg \<le> kept" "kept \<le> last_index seg"
    and first: "unat (first_index seg) = unat (first_log_index st) + length (entries A)"
    by (rule truncate_layout [OF ok True kept(2)])
  have ok': "store_ok True N fs st ((A @ [(seg, i, es)]) @ B)" using ok L by simp
  have less: "\<not> last_log_index st \<le> kept" using kept(2) by simp
  obtain segs op where m: "map fst (A @ [(seg, i, es)]) = segs @ (case op of None \<Rightarrow> [] | Some s \<Rightarrow> [s])"
    and sub: "set segs \<subseteq> set (segments st)" "op = None \<or> op = open_segment st"
    and tr: "truncateLog io fs st kept
      = truncate_kept io (remove_files fs (map fst B)) (st\<lparr>segments := segs, open_segment := op\<rparr>) kept"
    by (rule truncate_keep [OF ok' a less])
  let ?st = "st\<lparr>segments := segs, open_segment := op\<rparr>" and ?fs = "remove_files fs (map fst B)"
  have "unat (last_index seg) + 1 = unat (first_log_index st) + length (entries (A @ [(seg, i, es)]))"
    using store_okD(2) [OF ok'] seg_okD(9) [of N fs seg i es] by simp
  then have "store_ok True N ?fs (?st\<lparr>last_log_index := last_index seg\<rparr>) (A @ [(seg, i, es)])"
    by (intro keep_prefix_ok [OF ok']) (use m sub in \<open>simp_all add: open_list_def\<close>)
  from truncate_kept_ok [OF this io k]
  obtain fs' st' seg' ks where r: "truncate_kept io ?fs (?st\<lparr>last_log_index := last_index seg\<rparr>) kept = (fs', st', Inr 0)"
    "store_ok True N fs' st' (A @ [(seg', i, ks)])" "ks = take (unat kept + 1 - unat (first_index seg)) es"
    "first_log_index st' = first_log_index st" "last_log_index st' = kept"
    by auto
  have kf: "unat (first_index seg) \<le> unat kept" "unat kept \<le> unat (last_index seg)" using k by (simp_all add: word_le_nat_alt)
  have "unat kept + 1 - unat (first_log_index st) = length (entries A) + (unat kept + 1 - unat (first_index seg))"
    using first kf by linarith
  moreover have "unat kept + 1 - unat (first_index seg) \<le> length es"
    using kf seg_okD(9) [of N fs seg i es] store_okD(2) [OF ok'] by simp
  ultimately have "entries (A @ [(seg', i, ks)]) = take (unat kept + 1 - unat (first_log_index st)) (entries L)"
    by (simp add: L r(3))
  then show ?thesis using tr truncate_kept_last [OF r(1)] r(2,4,5) by metis
next
  case False
  then have "unat kept < unat (first_log_index st)" by (simp add: word_le_nat_alt)
  then have eq: "unat kept + 1 = unat (first_log_index st)" using kept(1) by linarith
  have all: "\<forall>s\<in>set (map fst L). kept < first_index s"
  proof
    fix s assume "s \<in> set (map fst L)"
    from mem_fst [OF this] obtain i es where "(s, i, es) \<in> set L" by blast
    then have "unat (first_log_index st) \<le> unat (first_index s)" by (rule chain_first_ge [OF store_okD(2) [OF ok]])
    then show "kept < first_index s" using eq by (simp add: word_less_nat_alt)
  qed
  have less: "\<not> last_log_index st \<le> kept" using kept(2) by simp
  have ok': "store_ok True N fs st ([] @ L)" using ok by simp
  obtain segs op where m: "map fst [] = segs @ (case op of None \<Rightarrow> [] | Some s \<Rightarrow> [s])"
    and tr: "truncateLog io fs st kept
      = truncate_kept io (remove_files fs (map fst L)) (st\<lparr>segments := segs, open_segment := op\<rparr>) kept"
    by (rule truncate_keep [OF ok' _ all less]) auto
  have e: "segs = []" "op = None" using m by (auto split: option.splits)
  let ?st = "st\<lparr>segments := [], open_segment := None, last_log_index := kept\<rparr>"
  have "truncateLog io fs st kept = (remove_files fs (map fst L), ?st, Inr 0)"
    unfolding tr e by (simp add: truncate_kept_def truncate_target_def)
  moreover have "store_ok True N (remove_files fs (map fst L)) ?st []"
    by (rule keep_prefix_ok [OF ok']) (use eq in \<open>simp_all add: open_list_def\<close>)
  ultimately show ?thesis using eq
    by (intro exI [of _ "remove_files fs (map fst L)"] exI [of _ ?st] exI [of _ "[]"]) simp
qed

lemma writeAt_ok:
  assumes N: "buffers_ok N" and ok: "store_ok True N fs st L" and io: "io_ok io" and e: "entry_ok e"
    and idx: "first_log_index st \<le> index" "unat index \<le> unat (last_log_index st) + 1"
  shows "\<exists>fs' st' L'. store_writeAt N io fs st index (Some e) = (fs', st', Inr index) \<and> store_ok True N fs' st' L'
    \<and> entries L' = take (unat index - unat (first_log_index st)) (entries L) @ [e]
    \<and> first_log_index st' = first_log_index st \<and> last_log_index st' = index"
proof -
  have pos: "0 < index" using idx(1) store_okD(3) [OF ok] by simp
  have u: "unat (index - 1) + 1 = unat index" using pos by (simp add: unat_minus_one unat_gt_0 word_gt_0)
  have f: "unat (first_log_index st) \<le> unat index" using idx(1) by (simp add: word_le_nat_alt)
  have "\<exists>fs1 st1 L1. truncateLog io fs st (index - 1) = (fs1, st1, Inr 0) \<and> store_ok True N fs1 st1 L1
    \<and> entries L1 = take (unat index - unat (first_log_index st)) (entries L)
    \<and> first_log_index st1 = first_log_index st \<and> last_log_index st1 = index - 1"
  proof (cases "index - 1 < last_log_index st")
    case True
    show ?thesis using truncateLog_ok [OF ok io _ True, unfolded u, OF f] .
  next
    case False
    then have "unat (last_log_index st) \<le> unat (index - 1)" by (simp add: word_le_nat_alt not_less)
    then have eq: "unat (index - 1) = unat (last_log_index st)" using idx(2) u by linarith
    then have l: "last_log_index st = index - 1" by (simp add: word_unat_eq_iff)
    have "unat index - unat (first_log_index st) = length (entries L)"
      using store_okD(4) [OF ok] eq u by linarith
    then show ?thesis using ok l
      by (intro exI [of _ fs] exI [of _ st] exI [of _ L]) (simp add: truncateLog_def)
  qed
  then obtain fs1 st1 L1 where tr: "truncateLog io fs st (index - 1) = (fs1, st1, Inr 0)" and ok1: "store_ok True N fs1 st1 L1"
    and r: "entries L1 = take (unat index - unat (first_log_index st)) (entries L)"
      "first_log_index st1 = first_log_index st" "last_log_index st1 = index - 1" by blast
  have "last_log_index st1 \<noteq> -1" using pos r(3) by (metis add.right_neutral diff_add_cancel add.left_inverse less_irrefl)
  from store_append_ok [OF N ok1 io e this] r tr show ?thesis by (auto simp: store_writeAt_def)
qed

end
