(* ===== verification/Log_Store_Restart.thy ===== *)
theory Log_Store_Restart
  imports Log_Store_Remove "HOL-Library.Multiset"
begin

text \<open>
  Start up of the segment store: from the files alone \<open>init\<close> rebuilds a store with the same entries,
  whatever the order in which the directory is listed. The theory also shows two situations in which
  it does not: a record that was written in part, and an open segment without entries.
\<close>

section \<open>Listing the directory\<close>

definition reload :: "io \<Rightarrow> segment \<Rightarrow> segment" where
  "reload io seg =
     (if is_open seg then new_open_segment (first_index seg) (file_name seg) (create_time seg)
      else new_closed_segment io (first_index seg) (last_index seg) (file_name seg))"

definition name_seg :: "io \<Rightarrow> string \<Rightarrow> segment" where
  "name_seg io name =
     (case parse_finish name of
        Some (first, last_idx, _) \<Rightarrow> new_closed_segment io first last_idx name
      | None \<Rightarrow> new_closed_segment io 0 0 name)"

definition finish_name :: "string \<Rightarrow> bool" where
  "finish_name x \<longleftrightarrow> (\<exists>f l t. time_ok t \<and> x = format_finish f l t)"

lemma contains_prefix: "contains pat (pat @ s)"
  by (cases "pat @ s") (auto simp: append_eq_Cons_conv)

lemma contains_names:
  "time_ok t \<Longrightarrow> contains ''log_'' (format_finish f l t)" "time_ok t \<Longrightarrow> contains ''log_'' (format_open f t)"
  by (simp_all only: format_finish_eq format_open_eq contains_prefix)

lemma name_seg_closed: "closed_named seg \<Longrightarrow> \<not> is_open seg \<Longrightarrow> name_seg io (file_name seg) = reload io seg"
  by (auto simp: closed_named_def name_seg_def reload_def parse_format_finish)

lemma list_names_closed:
  "\<forall>x\<in>set ns. finish_name x \<Longrightarrow>
    list_names io (ns @ rest) segs op = list_names io rest (segs @ map (name_seg io) ns) op"
proof (induction ns arbitrary: segs)
  case (Cons x ns)
  then obtain f l t where "time_ok t" "x = format_finish f l t" by (auto simp: finish_name_def)
  then show ?case using Cons by (simp add: contains_names parse_format_finish name_seg_def)
qed simp

lemma list_names_all:
  assumes "\<forall>x\<in>set (ns1 @ ns2). finish_name x" and "time_ok t"
  shows "list_names io (ns1 @ format_open f t # ns2) segs None
    = (segs @ map (name_seg io) (ns1 @ ns2), Some (new_open_segment f (format_open f t) t), True)"
proof -
  have "list_names io (ns1 @ format_open f t # ns2) segs None
      = list_names io (ns2 @ []) (segs @ map (name_seg io) ns1) (Some (new_open_segment f (format_open f t) t))"
    using assms list_names_closed [of ns1 io "format_open f t # ns2" segs None]
    by (simp add: contains_names parse_finish_open parse_format_open)
  also have "\<dots> = (segs @ map (name_seg io) (ns1 @ ns2), Some (new_open_segment f (format_open f t) t), True)"
    using assms(1) list_names_closed [of ns2 io "[]"] by simp
  finally show ?thesis .
qed

section \<open>Sorting\<close>

lemma chain_sorted:
  assumes "chain N fs n L" and "\<forall>(seg, i, es)\<in>set L. es \<noteq> []"
  shows "sorted_wrt (<) (map (\<lambda>x. first_index (fst x)) L)"
  using assms
proof (induction L arbitrary: n)
  case (Cons x L)
  obtain seg i es where x: "x = (seg, i, es)" by (cases x)
  have c: "chain N fs (n + length es) L" and f: "unat (first_index seg) = n" and ne: "es \<noteq> []"
    using Cons.prems x by simp_all
  have "first_index seg < first_index (fst y)" if y: "y \<in> set L" for y
  proof -
    obtain s j es' where "y = (s, j, es')" by (cases y)
    then have "n + length es \<le> unat (first_index (fst y))" using chain_first_ge [OF c] y by simp
    moreover have "0 < length es" using ne by simp
    ultimately have "n < unat (first_index (fst y))" by linarith
    then show ?thesis using f by (simp add: word_less_nat_alt)
  qed
  moreover have "sorted_wrt (<) (map (\<lambda>x. first_index (fst x)) L)" using Cons.IH [OF c] Cons.prems(2) by simp
  ultimately show ?case using x by simp
qed simp

lemma sort_closed:
  assumes c: "chain N fs n C" and closed: "\<forall>(seg, i, es)\<in>set C. \<not> is_open seg \<and> closed_named seg \<and> es \<noteq> []"
    and d: "distinct (inodes C)" and ns: "distinct ns" "set ns = set (names C)"
  shows "sort_key first_index (map (name_seg io) ns) = map (\<lambda>x. reload io (fst x)) C"
proof (rule sort_key_inj_key_eq)
  have rel: "map (name_seg io) (names C) = map (\<lambda>x. reload io (fst x)) C"
    using closed by (auto simp: names_def name_seg_closed)
  have "mset ns = mset (names C)" using ns chain_names(1) [OF c d] by (metis set_eq_iff_mset_eq_distinct)
  then have "mset (map (name_seg io) ns) = mset (map (name_seg io) (names C))" by simp
  then show m: "mset (map (name_seg io) ns) = mset (map (\<lambda>x. reload io (fst x)) C)" unfolding rel .
  have f: "map first_index (map (\<lambda>x. reload io (fst x)) C) = map (\<lambda>x. first_index (fst x)) C"
    by (simp add: reload_def new_open_segment_def new_closed_segment_def)
  have s: "sorted_wrt (<) (map first_index (map (\<lambda>x. reload io (fst x)) C))"
    unfolding f using chain_sorted [OF c] closed by fastforce
  then show "sorted (map first_index (map (\<lambda>x. reload io (fst x)) C))" by (metis strict_sorted_imp_sorted strict_sorted_iff)
  have "distinct (map first_index (map (\<lambda>x. reload io (fst x)) C))" using s strict_sorted_iff by blast
  then show "inj_on first_index (set (map (name_seg io) ns))"
    by (metis distinct_map m set_mset_mset)
qed

section \<open>Loading\<close>

definition relayout :: "nuraft \<Rightarrow> io \<Rightarrow> layout \<Rightarrow> layout" where
  "relayout N io L = map (\<lambda>(seg, i, es). (loaded N (reload io seg) i (seg_version seg) es, i, es)) L"

lemma reload_fields [simp]:
  "first_index (reload io seg) = first_index seg" "file_name (reload io seg) = file_name seg"
  "is_open (reload io seg) = is_open seg" "seg_fd (reload io seg) = None" "offset_term (reload io seg) = []"
  by (simp_all add: reload_def new_open_segment_def new_closed_segment_def)

lemma reload_create: "is_open seg \<Longrightarrow> create_time (reload io seg) = create_time seg"
  by (simp add: reload_def new_open_segment_def)

lemma reload_ok:
  assumes N: "buffers_ok N" and sok: "seg_ok N fs seg i es" and io: "open_ok io"
  shows "load N io fs (reload io seg) = (fs, loaded N (reload io seg) i (seg_version seg) es, Inr 0)"
    and "seg_ok N fs (loaded N (reload io seg) i (seg_version seg) es) i es"
    and "last_index (loaded N (reload io seg) i (seg_version seg) es) = last_index seg"
proof -
  have last_eq: "first_index seg - 1 + of_nat (length es) = last_index seg"
  proof -
    have "first_index seg - 1 + of_nat (length es) = (first_index seg + of_nat (length es)) - 1" by simp
    also have "\<dots> = last_index seg" unfolding seg_ok_index [OF sok] by simp
    finally show ?thesis .
  qed
  then show "last_index (loaded N (reload io seg) i (seg_version seg) es) = last_index seg"
    by (simp add: loaded_def)
  have end_eq: "is_open seg \<or> last_index (reload io seg) = first_index seg - 1 + of_nat (length es)"
    by (simp add: last_eq reload_def new_closed_segment_def)
  show "load N io fs (reload io seg) = (fs, loaded N (reload io seg) i (seg_version seg) es, Inr 0)"
    by (rule load_result [OF N]) (use seg_okD(1,2,3,10) [OF sok] io end_eq in simp_all)
  have "unat (first_index seg) + length es \<le> 2 ^ 64"
    using seg_okD(9) [OF sok] unat_bound [of "last_index seg"] by simp
  then show "seg_ok N fs (loaded N (reload io seg) i (seg_version seg) es) i es"
    by (intro loaded_ok) (use seg_okD(1,2,3,8,10) [OF sok] in simp_all)
qed

lemma relayout_same [simp]:
  "entries (relayout N io L) = entries L" "inodes (relayout N io L) = inodes L" "names (relayout N io L) = names L"
  by (induction L) (auto simp: relayout_def loaded_def)

lemma chain_relayout: "buffers_ok N \<Longrightarrow> open_ok io \<Longrightarrow> chain N fs n L \<Longrightarrow> chain N fs n (relayout N io L)"
proof (induction L arbitrary: n)
  case (Cons x L)
  obtain seg i es where x: "x = (seg, i, es)" by (cases x)
  then show ?case using Cons reload_ok(2) [OF Cons.prems(1) _ Cons.prems(2), of fs seg i es]
    by (simp add: relayout_def) (simp add: loaded_def)
qed (simp add: relayout_def)

lemma load_closed_ok:
  assumes N: "buffers_ok N" and io: "open_ok io" and c: "chain N fs n C" and l: "n + length (entries C) \<le> unat l + 1"
  shows "load_closed N io fs (map (\<lambda>x. reload io (fst x)) C) l = (fs, map fst (relayout N io C), l, None)"
  using c l
proof (induction C arbitrary: n)
  case (Cons x C)
  obtain seg i es where x: "x = (seg, i, es)" by (cases x)
  have sok: "seg_ok N fs seg i es" and cC: "chain N fs (n + length es) C" and f: "unat (first_index seg) = n"
    using Cons.prems x by simp_all
  note r = reload_ok [OF N sok io]
  have "\<not> l < last_index seg" using seg_okD(9) [OF sok] f Cons.prems(2) x by (simp add: word_less_nat_alt)
  then show ?case using Cons.IH [OF cC] Cons.prems(2) x r(1,3)
    by (simp add: relayout_def add.assoc)
qed (simp add: relayout_def)

lemma placed_relayout:
  assumes N: "buffers_ok N" and io: "open_ok io" and c: "chain N fs n L" and p: "\<forall>x\<in>set L. placed_ok lv x"
  shows "\<forall>x\<in>set (relayout N io L). placed_ok False x"
proof
  fix x assume "x \<in> set (relayout N io L)"
  then obtain seg i es where m: "(seg, i, es) \<in> set L" and x: "x = (loaded N (reload io seg) i (seg_version seg) es, i, es)"
    by (auto simp: relayout_def)
  let ?s = "loaded N (reload io seg) i (seg_version seg) es"
  have l: "last_index ?s = last_index seg" by (rule reload_ok(3) [OF N chain_member [OF c m] io])
  have f: "is_open ?s = is_open seg" "file_name ?s = file_name seg" "first_index ?s = first_index seg"
    "seg_version ?s = seg_version seg" "is_open seg \<Longrightarrow> create_time ?s = create_time seg"
    by (simp_all add: loaded_def reload_create)
  have "placed_ok lv (seg, i, es)" using p m by blast
  then show "placed_ok False x"
    unfolding x using l f by (auto simp: closed_named_def open_named_def getOpenFileName_def split: if_splits)
qed

lemma list_ok:
  assumes ok: "store_ok lv N fs st (C @ [(seg, i, es)])" and op: "is_open seg" "open_named seg"
    and C: "map fst C = segments st" and ls: "enumerates ls" and st0: "segments st0 = []" "open_segment st0 = None"
  shows "listSegments ls io fs st0
    = (st0\<lparr>segments := map (\<lambda>x. reload io (fst x)) C, open_segment := Some (reload io seg),
         first_log_index := first_log_index st, last_log_index := first_index seg - 1\<rparr>, 0)"
proof -
  let ?n = "unat (first_log_index st)" and ?ns = "ls (dom (dir fs))"
  have c: "chain N fs ?n C" and sok: "seg_ok N fs seg i es" and fs: "unat (first_index seg) = ?n + length (entries C)"
    using store_okD(2) [OF ok] by simp_all
  have name: "file_name seg = format_open (first_index seg) (create_time seg)" and time: "time_ok (create_time seg)"
    using op(2) by (simp_all add: open_named_def getOpenFileName_def)
  have closed: "\<forall>(s, j, es')\<in>set C. \<not> is_open s \<and> closed_named s \<and> es' \<noteq> []"
  proof (clarify)
    fix s j es' assume s: "(s, j, es') \<in> set C"
    then have "s \<in> set (segments st)" by (metis C fst_conv image_eqI list.set_map)
    then have "\<not> is_open s" using store_okD(6) [OF ok] by blast
    then show "\<not> is_open s \<and> closed_named s \<and> es' \<noteq> []" using store_okD(5) [OF ok] s by fastforce
  qed
  have dom: "dom (dir fs) = insert (file_name seg) (set (names C))" using store_okD(10) [OF ok] by auto
  have dn: "distinct (names C)" "file_name seg \<notin> set (names C)"
    using chain_names(1) [OF store_okD(2,8) [OF ok]] by simp_all
  have ns: "set ?ns = insert (file_name seg) (set (names C))" "distinct ?ns"
    using enumeratesD [OF ls, of "dom (dir fs)"] dom by simp_all
  then obtain ns1 ns2 where split: "?ns = ns1 @ file_name seg # ns2" by (metis insertI1 in_set_conv_decomp)
  then have d12: "distinct (ns1 @ ns2)" using ns(2) by auto
  have "file_name seg \<notin> set (ns1 @ ns2)" using split ns(2) by auto
  moreover have "insert (file_name seg) (set (ns1 @ ns2)) = insert (file_name seg) (set (names C))"
    using ns(1) unfolding split by simp
  ultimately have s12: "set (ns1 @ ns2) = set (names C)" using dn(2) by (metis insert_ident)
  have fin: "\<forall>x\<in>set (ns1 @ ns2). finish_name x"
  proof
    fix x assume "x \<in> set (ns1 @ ns2)"
    then have "x \<in> set (names C)" unfolding s12 .
    then obtain s j es' where m: "(s, j, es') \<in> set C" "x = file_name s" by (auto simp: names_def)
    then have "closed_named s" using closed by blast
    then show "finish_name x" unfolding m(2) finish_name_def closed_named_def by blast
  qed
  have "list_names io ?ns [] None = (map (name_seg io) (ns1 @ ns2), Some (reload io seg), True)"
    using list_names_all [OF fin time, of io "first_index seg" "[]"] op(1) unfolding split name
    by (simp add: reload_def name)
  moreover have sorted: "sort_key first_index (map (name_seg io) (ns1 @ ns2)) = map (\<lambda>x. reload io (fst x)) C"
    by (rule sort_closed [OF c closed _ d12 s12]) (use store_okD(8) [OF ok] in simp)
  moreover have "\<not> list_ex (\<lambda>s. last_index s < first_index s) (map (\<lambda>x. reload io (fst x)) C)"
  proof -
    have "\<not> last_index s < first_index s" if m: "(s, j, es') \<in> set C" for s j es'
    proof -
      have "es' \<noteq> []" using closed m by blast
      then show ?thesis using seg_okD(9) [OF chain_member [OF c m]] by (cases es') (simp_all add: word_less_nat_alt)
    qed
    moreover have "last_index (reload io s) = last_index s" if m: "(s, j, es') \<in> set C" for s j es'
      using closed m by (auto simp: reload_def new_closed_segment_def)
    ultimately show ?thesis by (auto simp: list_ex_iff)
  qed
  moreover have "(case map (\<lambda>x. reload io (fst x)) C of [] \<Rightarrow> first_index (reload io seg) | s # _ \<Rightarrow> first_index s) = first_log_index st"
  proof (cases C)
    case Nil
    then show ?thesis using fs by (simp add: word_unat_eq_iff)
  next
    case (Cons x C')
    obtain s j es' where "x = (s, j, es')" by (cases x)
    then show ?thesis using c Cons by (simp add: word_unat_eq_iff)
  qed
  moreover have "last_index (reload io seg) = first_index seg - 1" using op(1) by (simp add: reload_def new_open_segment_def)
  ultimately show ?thesis
    using st0 by (simp add: listSegments_def Let_def del: map_append)
qed

lemma open_part:
  assumes ok: "store_ok lv N fs st (C @ [(seg, i, es)])" and op: "is_open seg"
  shows "map fst C = segments st"
  using ok
proof (cases rule: store_split)
  case no_open
  then have "seg \<in> set (segments st)" by (metis fst_conv in_set_conv_decomp list.simps(9) map_append)
  then show ?thesis using store_okD(6) [OF ok] op by blast
qed simp

lemma init_ok:
  assumes N: "buffers_ok N" and ok: "store_ok lv N fs st L" and io: "io_ok io" and ls: "enumerates ls"
    and size: "9 \<le> unat max_size" and room: "last_log_index st \<noteq> -1"
    and open_es: "\<exists>C seg i es. L = C @ [(seg, i, es)] \<and> is_open seg" and some: "entries L \<noteq> []"
  shows "\<exists>fs' st' L'. init N ls io fs new_store max_size max_count = (fs', st', Inr 0) \<and> store_ok False N fs' st' L'
    \<and> entries L' = entries L \<and> first_log_index st' = first_log_index st \<and> last_log_index st' = last_log_index st"
proof -
  obtain C seg i es where L: "L = C @ [(seg, i, es)]" and op: "is_open seg" using open_es by blast
  have named: "open_named seg" using store_okD(5) [OF ok] L op by simp
  have oi: "open_ok io" using io by (simp add: io_ok_def)
  have C: "map fst C = segments st" by (rule open_part [OF ok [unfolded L] op])
  have c: "chain N fs (unat (first_log_index st)) C" and sok: "seg_ok N fs seg i es"
    and fs: "unat (first_index seg) = unat (first_log_index st) + length (entries C)"
    using store_okD(2) [OF ok] L by simp_all
  have last_eq: "last_index seg = last_log_index st" using open_last ok L by blast
  have pos: "0 < first_index seg" by (rule seg_okD(8) [OF sok])
  let ?st0 = "new_store\<lparr>max_log_size := max_size, max_segment_count := max_count, first_log_index := 1,
    last_log_index := 0, open_segment := None\<rparr>"
  let ?st1 = "?st0\<lparr>segments := map (\<lambda>x. reload io (fst x)) C, open_segment := Some (reload io seg),
         first_log_index := first_log_index st, last_log_index := first_index seg - 1\<rparr>"
  have l1: "listSegments ls io fs ?st0 = (?st1, 0)"
    by (rule list_ok [OF ok [unfolded L] op named C ls]) (simp_all add: new_store_def)
  have "unat (first_index seg - 1) + 1 = unat (first_index seg)" using pos by (simp add: unat_minus_one unat_gt_0 word_gt_0)
  then have l2: "load_closed N io fs (segments ?st1) (last_log_index ?st1) = (fs, map fst (relayout N io C), first_index seg - 1, None)"
    using load_closed_ok [OF N oi c] fs by simp
  note r = reload_ok [OF N sok oi]
  let ?s = "loaded N (reload io seg) i (seg_version seg) es"
  let ?st2 = "?st1\<lparr>segments := map fst (relayout N io C), open_segment := Some ?s, last_log_index := last_log_index st\<rparr>"
  have "\<not> last_log_index st < first_log_index st" "last_log_index st \<noteq> 0"
  proof -
    have "0 < length (entries L)" "0 < unat (first_log_index st)"
      using some store_okD(3) [OF ok] by (simp_all add: word_less_nat_alt)
    then have "unat (first_log_index st) \<le> unat (last_log_index st)" using store_okD(4) [OF ok] by linarith
    then show "\<not> last_log_index st < first_log_index st" "last_log_index st \<noteq> 0"
      using \<open>0 < unat (first_log_index st)\<close> by (auto simp: word_less_nat_alt)
  qed
  then have l3: "loadSegments N io fs ?st1 = (fs, ?st2, Inr 0)"
    using l2 r(1,3) last_eq by (simp add: loadSegments_def Let_def finish_load_def)
  have "map fst (relayout N io L) = map fst (relayout N io C) @ [?s]" by (simp add: L relayout_def)
  moreover have "\<forall>s\<in>set (map fst (relayout N io C)). \<not> is_open s"
    using store_okD(6) [OF ok] unfolding C [symmetric] by (auto simp: relayout_def loaded_def)
  moreover have "is_open ?s" using op by (simp add: loaded_def)
  ultimately have "store_ok False N fs ?st2 (relayout N io L)"
    unfolding store_ok_def
    using chain_relayout [OF N oi store_okD(2) [OF ok]] placed_relayout [OF N oi store_okD(2,5) [OF ok]]
      store_okD(3,4,8,9,10) [OF ok] size
    by (simp add: open_list_def new_store_def del: placed_ok.simps)
  moreover have "last_log_index ?st2 \<noteq> -1" using room by simp
  ultimately obtain fs' st' L' where "openSegment io fs ?st2 = (fs', st', Inr 0)" "store_ok False N fs' st' L'"
    "entries L' = entries (relayout N io L)" "first_log_index st' = first_log_index ?st2" "last_log_index st' = last_log_index ?st2"
    using openSegment_ok [OF _ io] by blast
  then show ?thesis
    using io l1 l3 by (auto simp: init_def Let_def io_ok_def)
qed

section \<open>Start up from nothing\<close>

lemma init_empty:
  assumes io: "io_ok io" and fs: "dir fs = Map.empty" and ls: "enumerates ls" and size: "9 \<le> unat max_size"
  shows "\<exists>fs' st' seg i. init N ls io fs new_store max_size max_count = (fs', st', Inr 0)
    \<and> store_ok True N fs' st' [(seg, i, [])] \<and> is_open seg \<and> create_time seg = clock io \<and> first_log_index st' = 1"
proof -
  let ?st = "new_store\<lparr>max_log_size := max_size, max_segment_count := max_count\<rparr>"
  have none: "open_segment ?st = None" "last_log_index ?st = 0" "first_log_index ?st = 1" "segments ?st = []" "max_log_size ?st = max_size"
    by (simp_all add: new_store_def)
  have "ls {} = []" using enumeratesD(1) [OF ls, of "{}"] by simp
  then have "listSegments ls io fs ?st = (?st, 0)"
    using fs by (simp add: listSegments_def new_store_def)
  moreover have "?st\<lparr>first_log_index := 1, last_log_index := 0, open_segment := None\<rparr> = ?st" by (simp add: new_store_def)
  moreover have "loadSegments N io fs ?st = (fs, ?st, Inr 0)"
    by (simp add: loadSegments_def finish_load_def new_store_def)
  ultimately have i: "init N ls io fs new_store max_size max_count = openSegment io fs ?st"
    using io by (simp add: init_def Let_def io_ok_def)
  have ok0: "store_ok True N fs ?st []"
    unfolding store_ok_def using fs size none by (simp add: open_list_def)
  have room: "last_log_index ?st \<noteq> -1" by (simp add: none)
  note start = start_ok [OF ok0 none(1) io room]
  have "openSegment io fs ?st = (started_files io fs 1, ?st\<lparr>open_segment := Some (started io fs 1)\<rparr>, Inr 0)"
    using start_result [OF io start(1)] none by (simp add: openSegment_def usable_def roll_segment_def)
  then show ?thesis
    using i start(2) none by (auto simp: started_def new_open_segment_def)
qed

section \<open>A record that was written in part\<close>

lemma listSegments_dir: "dir fs' = dir fs \<Longrightarrow> listSegments ls io fs' st = listSegments ls io fs st"
  by (simp add: listSegments_def)

lemma init_torn:
  assumes N: "buffers_ok N" and ok: "store_ok lv N fs st (C @ [(seg, i, es)])" and op: "is_open seg"
    and io: "io_ok io" and ls: "enumerates ls" and e: "entry_ok e" and m: "0 < m" "m < length (record_bytes N idx e)"
    and fs': "fs' = fs\<lparr>contents := (contents fs)(i := contents fs i @ take m (record_bytes N idx e))\<rparr>"
  shows "\<exists>st'. init N ls io fs' new_store max_size max_count = (fs', st', Inr (-1))"
proof -
  have named: "open_named seg" using store_okD(5) [OF ok] op by simp
  have oi: "open_ok io" using io by (simp add: io_ok_def)
  have C: "map fst C = segments st" by (rule open_part [OF ok op])
  let ?n = "unat (first_log_index st)"
  have c: "chain N fs ?n C" and sok: "seg_ok N fs seg i es" and f: "unat (first_index seg) = ?n + length (entries C)"
    using store_okD(2) [OF ok] by simp_all
  have "chain N fs' ?n C = chain N fs ?n C"
    by (rule chain_cong) (use store_okD(8) [OF ok] fs' in auto)
  then have c': "chain N fs' ?n C" using c by simp
  let ?st0 = "new_store\<lparr>max_log_size := max_size, max_segment_count := max_count, first_log_index := 1,
    last_log_index := 0, open_segment := None\<rparr>"
  let ?st1 = "?st0\<lparr>segments := map (\<lambda>x. reload io (fst x)) C, open_segment := Some (reload io seg),
         first_log_index := first_log_index st, last_log_index := first_index seg - 1\<rparr>"
  have "listSegments ls io fs ?st0 = (?st1, 0)"
    by (rule list_ok [OF ok op named C ls]) (simp_all add: new_store_def)
  then have l1: "listSegments ls io fs' ?st0 = (?st1, 0)" using listSegments_dir [of fs' fs] fs' by simp
  have "unat (first_index seg - 1) + 1 = unat (first_index seg)"
    using seg_okD(8) [OF sok] by (simp add: unat_minus_one unat_gt_0 word_gt_0)
  then have l2: "load_closed N io fs' (segments ?st1) (last_log_index ?st1) = (fs', map fst (relayout N io C), first_index seg - 1, None)"
    using load_closed_ok [OF N oi c'] f by simp
  have "\<exists>seg'. load N io fs' (reload io seg) = (fs', seg', Inr (-1))"
    by (rule load_torn [OF N _ _ _ _ oi _ seg_okD(10) [OF sok] e m, where ver = "seg_version seg" and i = i and seg = "reload io seg"])
       (use seg_okD(1,2,3) [OF sok] fs' in simp_all)
  then have "\<exists>st'. loadSegments N io fs' ?st1 = (fs', st', Inr (-1))"
    using l2 by (auto simp: loadSegments_def)
  then show ?thesis using io l1 by (auto simp: init_def Let_def io_ok_def)
qed

section \<open>An open segment without entries\<close>

lemma two_open_names:
  assumes "time_ok t" and "time_ok u" and "t \<noteq> u" and "distinct ns" and "set ns = {format_open f t, format_open f u}"
  shows "\<exists>op. list_names io ns [] None = ([], op, False)"
proof -
  have "format_open f t \<noteq> format_open f u" using parse_format_open assms(1-3) by (metis option.inject prod.inject)
  then have "length ns = 2" using distinct_card [OF assms(4)] assms(5) by simp
  then obtain x y where "ns = [x, y]" by (auto simp: numeral_2_eq_2 length_Suc_conv)
  then have "ns = [format_open f t, format_open f u] \<or> ns = [format_open f u, format_open f t]"
    using assms(5) by (auto simp: doubleton_eq_iff)
  then show ?thesis using assms(1,2) by (auto simp: contains_names parse_finish_open parse_format_open)
qed

lemma restart_twice:
  assumes N: "buffers_ok N" and ok: "store_ok lv N fs st [(seg, i, [])]" and op: "is_open seg"
    and io: "io_ok io1" "io_ok io2" and ls: "enumerates ls" and t: "clock io1 \<noteq> create_time seg"
  shows "\<exists>fs' st'. init N ls io1 fs new_store max_size max_count = (fs', st', Inr 0)
    \<and> (\<exists>st''. init N ls io2 fs' new_store max_size max_count = (fs', st'', Inr (-1)))"
proof -
  have ok': "store_ok lv N fs st ([] @ [(seg, i, [])])" using ok by simp
  have named: "open_named seg" using store_okD(5) [OF ok] op by simp
  have time: "time_ok (create_time seg)" "time_ok (clock io1)"
    and name: "file_name seg = format_open (first_index seg) (create_time seg)"
    using named io(1) by (simp_all add: open_named_def io_ok_def getOpenFileName_def)
  have C: "map fst ([] :: layout) = segments st" using open_part [OF ok' op] by simp
  have sok: "seg_ok N fs seg i []" and f: "first_index seg = first_log_index st"
    using store_okD(2) [OF ok] by (simp_all add: word_unat_eq_iff)
  have oi: "open_ok io1" using io(1) by (simp add: io_ok_def)
  let ?f = "first_index seg"
  let ?st0 = "new_store\<lparr>max_log_size := max_size, max_segment_count := max_count, first_log_index := 1,
    last_log_index := 0, open_segment := None\<rparr>"
  let ?st1 = "?st0\<lparr>segments := [], open_segment := Some (reload io1 seg), first_log_index := ?f, last_log_index := ?f - 1\<rparr>"
  let ?st2 = "?st1\<lparr>open_segment := None\<rparr>"
  have l1: "listSegments ls io1 fs ?st0 = (?st1, 0)"
    using list_ok [OF ok' op named C ls, of ?st0 io1] by (simp add: f) (simp add: new_store_def)
  note r = reload_ok [OF N sok oi]
  have "last_index seg < ?f" using seg_okD(9) [OF sok] by (simp add: word_less_nat_alt)
  then have l2: "loadSegments N io1 fs ?st1 = (fs, ?st2, Inr 0)"
    using r(1,3) by (simp add: loadSegments_def Let_def finish_load_def)
  have "dom (dir fs) = {file_name seg}" using store_okD(10) [OF ok] by simp
  moreover have ne: "format_open ?f (clock io1) \<noteq> file_name seg"
    unfolding name using t time parse_format_open by (metis option.inject prod.inject)
  ultimately have fresh: "dir fs (format_open (last_log_index ?st2 + 1) (clock io1)) = None" by (auto simp: dom_def)
  let ?fs = "started_files io1 fs ?f" and ?st3 = "?st2\<lparr>open_segment := Some (started io1 fs ?f)\<rparr>"
  have "openSegment io1 fs ?st2 = (?fs, ?st3, Inr 0)"
    using start_result [OF io(1) fresh] by (simp add: openSegment_def usable_def roll_segment_def)
  then have i1: "init N ls io1 fs new_store max_size max_count = (?fs, ?st3, Inr 0)"
    using io(1) l1 l2 by (simp add: init_def Let_def io_ok_def)
  have dom: "dom (dir ?fs) = {format_open ?f (clock io1), format_open ?f (create_time seg)}"
    using \<open>dom (dir fs) = {file_name seg}\<close> by (auto simp: started_files_def name)
  note en = enumeratesD [OF ls, of "dom (dir ?fs)"]
  obtain opn where "list_names io2 (ls (dom (dir ?fs))) [] None = ([], opn, False)"
    using two_open_names [OF time(2,1) t, of "ls (dom (dir ?fs))" ?f io2] en dom by auto
  then have "\<exists>st''. init N ls io2 ?fs new_store max_size max_count = (?fs, st'', Inr (-1))"
    using io(2) by (simp add: init_def listSegments_def Let_def io_ok_def new_store_def)
  with i1 show ?thesis by blast
qed

end
