(* ===== verification/File_Log_Facts.thy ===== *)
theory File_Log_Facts
  imports File_Log_Store Log_Store_Restart
begin

text \<open>
  The log store as NuRaft sees it is a finite list of entries with the index of the first one: the
  invariant that ties the files, the segments, the cache and the last entry to that list, and what
  each operation of \<open>File_Log_Store\<close> does to it.
\<close>

section \<open>The abstract log\<close>

definition log_map :: "nat \<Rightarrow> log_entry list \<Rightarrow> uint64 \<rightharpoonup> log_entry" where
  "log_map n es i = (if n \<le> unat i \<and> unat i < n + length es then Some (es ! (unat i - n)) else None)"

lemma log_map_append:
  assumes "unat i = n + length es"
  shows "log_map n (es @ [e]) = (log_map n es)(i \<mapsto> e)"
proof
  fix j
  show "log_map n (es @ [e]) j = ((log_map n es)(i \<mapsto> e)) j"
    using assms by (cases "j = i") (auto simp: log_map_def nth_append word_unat_eq_iff)
qed

lemma log_map_take:
  "unat i < n + k \<Longrightarrow> k \<le> length es \<Longrightarrow> log_map n (take k es @ xs) i = log_map n es i"
  by (auto simp: log_map_def nth_append)

lemma log_map_drop: "k \<le> length es \<Longrightarrow> n + k \<le> unat i \<Longrightarrow> log_map (n + k) (drop k es) i = log_map n es i"
  by (auto simp: log_map_def)

definition file_log_ok :: "bool \<Rightarrow> nuraft \<Rightarrow> files \<Rightarrow> file_log \<Rightarrow> nat \<Rightarrow> log_entry list \<Rightarrow> bool" where
  "file_log_ok lv N fs fl n es \<longleftrightarrow>
     (\<exists>L. store_ok lv N fs (seg_store fl) L \<and> entries L = es)
   \<and> unat (first_log_index (seg_store fl)) = n
   \<and> queue_tracks (queue fl) (log_map n es) (last_log_index (seg_store fl))
   \<and> (es \<noteq> [] \<longrightarrow> last_log_entry fl = Some (last es))"

lemma file_log_okE:
  assumes "file_log_ok lv N fs fl n es"
  obtains L where "store_ok lv N fs (seg_store fl) L" and "entries L = es"
    and "unat (first_log_index (seg_store fl)) = n"
    and "queue_tracks (queue fl) (log_map n es) (last_log_index (seg_store fl))"
    and "es \<noteq> [] \<longrightarrow> last_log_entry fl = Some (last es)"
  using assms by (auto simp: file_log_ok_def)

lemma file_log_okI:
  assumes "store_ok lv N fs (seg_store fl) L" and "entries L = es"
    and "unat (first_log_index (seg_store fl)) = n"
    and "queue_tracks (queue fl) (log_map n es) (last_log_index (seg_store fl))"
    and "es \<noteq> [] \<longrightarrow> last_log_entry fl = Some (last es)"
  shows "file_log_ok lv N fs fl n es"
  using assms by (auto simp: file_log_ok_def)

lemma file_log_last:
  "file_log_ok lv N fs fl n es \<Longrightarrow> unat (last_log_index (seg_store fl)) + 1 = n + length es"
  by (elim file_log_okE) (use store_okD(4) in blast)

lemma makeClone_id [simp]: "makeClone e = e"
  by (simp add: makeClone_def)

lemma makeClone_map [simp]: "map_option makeClone x = x"
  by (cases x) simp_all

lemma wake_fsync_fields [simp]:
  "seg_store (wake_fsync N e fl) = seg_store fl" "queue (wake_fsync N e fl) = queue fl"
  "last_log_entry (wake_fsync N e fl) = last_log_entry fl"
  by (simp_all add: wake_fsync_def)

section \<open>Reading\<close>

lemma store_get_map:
  assumes N: "buffers_ok N" and ok: "store_ok lv N fs st L" and io: "open_ok io"
  shows "\<exists>st' L'. store_getEntry N io fs st i = (st', Inr (log_map (unat (first_log_index st)) (entries L) i))
    \<and> store_ok lv N fs st' L' \<and> entries L' = entries L \<and> first_log_index st' = first_log_index st
    \<and> last_log_index st' = last_log_index st"
proof (cases "first_log_index st \<le> i \<and> i \<le> last_log_index st")
  case True
  then obtain st' L' where g: "store_getEntry N io fs st i = (st', Inr (Some (entries L ! (unat i - unat (first_log_index st)))))"
    and r: "store_ok lv N fs st' L'" "entries L' = entries L" "first_log_index st' = first_log_index st"
    using store_getEntry_ok [OF N ok io] by blast
  have "unat (last_log_index st') + 1 = unat (last_log_index st) + 1"
    using store_okD(4) [OF ok] store_okD(4) [OF r(1)] r(2,3) by simp
  then have "last_log_index st' = last_log_index st" by (simp add: word_unat_eq_iff)
  moreover have "log_map (unat (first_log_index st)) (entries L) i = Some (entries L ! (unat i - unat (first_log_index st)))"
    using True store_okD(4) [OF ok] by (simp add: log_map_def word_le_nat_alt)
  ultimately show ?thesis using g r by auto
next
  case False
  then have out: "i < first_log_index st \<or> last_log_index st < i" by auto
  then have "log_map (unat (first_log_index st)) (entries L) i = None"
    using store_okD(4) [OF ok] by (auto simp: log_map_def word_less_nat_alt)
  then show ?thesis using store_getEntry_outside [OF out] ok by auto
qed

lemma entry_at_ok:
  assumes N: "buffers_ok N" and ok: "file_log_ok lv N fs fl n es" and io: "open_ok io"
  shows "\<exists>st. entry_at N io fs fl i = (fl\<lparr>seg_store := st\<rparr>, Inr (log_map n es i)) \<and> file_log_ok lv N fs (fl\<lparr>seg_store := st\<rparr>) n es
    \<and> last_log_index st = last_log_index (seg_store fl)"
proof -
  obtain L where L: "store_ok lv N fs (seg_store fl) L" "entries L = es" "unat (first_log_index (seg_store fl)) = n"
    and t: "queue_tracks (queue fl) (log_map n es) (last_log_index (seg_store fl))"
    and le: "es \<noteq> [] \<longrightarrow> last_log_entry fl = Some (last es)"
    by (rule file_log_okE [OF ok])
  show ?thesis
  proof (cases "queue_getEntry (queue fl) i")
    case None
    obtain st' L' where g: "store_getEntry N io fs (seg_store fl) i = (st', Inr (log_map n es i))"
      and r: "store_ok lv N fs st' L'" "entries L' = es" "first_log_index st' = first_log_index (seg_store fl)"
        "last_log_index st' = last_log_index (seg_store fl)"
      using store_get_map [OF N L(1) io, of i] L by auto
    have "entry_at N io fs fl i = (fl\<lparr>seg_store := st'\<rparr>, Inr (log_map n es i))"
      using None g by (simp add: entry_at_def)
    moreover have "file_log_ok lv N fs (fl\<lparr>seg_store := st'\<rparr>) n es"
      by (rule file_log_okI [of _ _ _ _ L']) (use r L t le in simp_all)
    ultimately show ?thesis using r(4) by blast
  next
    case (Some e)
    have "log_map n es i = Some e" by (rule tracks_sound [OF t Some])
    then have "entry_at N io fs fl i = (fl\<lparr>seg_store := seg_store fl\<rparr>, Inr (log_map n es i))"
      using Some by (simp add: entry_at_def)
    then show ?thesis using ok by (intro exI [of _ "seg_store fl"]) simp
  qed
qed

lemma term_at_ok:
  assumes N: "buffers_ok N" and ok: "file_log_ok lv N fs fl n es" and io: "open_ok io"
  shows "snd (term_at N io fs fl i) = Inr (case log_map n es i of None \<Rightarrow> 0 | Some e \<Rightarrow> le_term e)"
proof -
  obtain st where e1: "entry_at N io fs fl i = (fl\<lparr>seg_store := st\<rparr>, Inr (log_map n es i))"
    and ok1: "file_log_ok lv N fs (fl\<lparr>seg_store := st\<rparr>) n es"
    using entry_at_ok [OF N ok io] by blast
  obtain st2 where "entry_at N io fs (fl\<lparr>seg_store := st\<rparr>) i = (fl\<lparr>seg_store := st\<rparr>\<lparr>seg_store := st2\<rparr>, Inr (log_map n es i))"
    using entry_at_ok [OF N ok1 io, of i] by blast
  with e1 show ?thesis by (cases "log_map n es i") (simp_all add: term_at_def)
qed

lemma log_entries_ok:
  assumes N: "buffers_ok N" and io: "open_ok io"
  shows "file_log_ok lv N fs fl n es \<Longrightarrow>
    \<exists>st. log_entries N io fs fl i j ret = (fl\<lparr>seg_store := st\<rparr>, Inr (ret @ map (\<lambda>k. log_map n es (of_nat k)) [unat i..<unat j]))
      \<and> file_log_ok lv N fs (fl\<lparr>seg_store := st\<rparr>) n es"
proof (induction "unat j - unat i" arbitrary: fl i ret)
  case 0
  then have "\<not> i < j" by (simp add: word_less_nat_alt)
  then show ?case using 0 by (intro exI [of _ "seg_store fl"]) (simp add: log_entries.simps)
next
  case (Suc d)
  then have less: "i < j" by (simp add: word_less_nat_alt)
  then have "i \<noteq> -1" by (metis word_not_simps(3))
  then have u: "unat (i + 1) = unat i + 1" by (rule unat_Suc)
  obtain st where e: "entry_at N io fs fl i = (fl\<lparr>seg_store := st\<rparr>, Inr (log_map n es i))"
    and ok1: "file_log_ok lv N fs (fl\<lparr>seg_store := st\<rparr>) n es"
    using entry_at_ok [OF N Suc.prems io] by blast
  have "d = unat j - unat (i + 1)" using Suc.hyps(2) u by simp
  then obtain st2 where r: "log_entries N io fs (fl\<lparr>seg_store := st\<rparr>) (i + 1) j (ret @ [log_map n es i])
      = (fl\<lparr>seg_store := st\<rparr>\<lparr>seg_store := st2\<rparr>, Inr ((ret @ [log_map n es i]) @ map (\<lambda>k. log_map n es (of_nat k)) [unat (i + 1)..<unat j]))"
    and ok2: "file_log_ok lv N fs (fl\<lparr>seg_store := st\<rparr>\<lparr>seg_store := st2\<rparr>) n es"
    using Suc.hyps(1) [OF _ ok1] by blast
  have "[unat i..<unat j] = unat i # [unat (i + 1)..<unat j]"
    using less u by (simp add: upt_conv_Cons word_less_nat_alt)
  then show ?case using less e r ok2 by (intro exI [of _ st2]) (simp add: log_entries.simps [of N io fs fl])
qed

section \<open>Writing\<close>

lemma append_log_ok:
  assumes N: "buffers_ok N" and ok: "file_log_ok lv N fs fl n es" and io: "io_ok io" and e: "entry_ok e"
    and room: "last_log_index (seg_store fl) \<noteq> -1"
  shows "\<exists>fs' fl'. append_log N io fs fl e = (fs', fl', Inr (next_slot fl)) \<and> file_log_ok lv N fs' fl' n (es @ [e])
    \<and> next_slot fl' = next_slot fl + 1"
proof -
  let ?l = "last_log_index (seg_store fl)"
  obtain L where L: "store_ok lv N fs (seg_store fl) L" "entries L = es" "unat (first_log_index (seg_store fl)) = n"
    and t: "queue_tracks (queue fl) (log_map n es) ?l"
    by (rule file_log_okE [OF ok])
  obtain fs' st' L' where a: "store_appendEntry N io fs (seg_store fl) (Some e) = (fs', st', Inr (?l + 1))"
    and r: "store_ok lv N fs' st' L'" "entries L' = es @ [e]" "first_log_index st' = first_log_index (seg_store fl)"
      "last_log_index st' = ?l + 1"
    using store_append_ok [OF N L(1) io e room] L(2) by auto
  let ?fl = "wake_fsync N e (fl\<lparr>seg_store := st', queue := putEntry (queue fl) (?l + 1) e, last_log_entry := Some e\<rparr>)"
  have "log_map n (es @ [e]) = (log_map n es)(?l + 1 \<mapsto> e)"
    by (rule log_map_append) (use unat_Suc [OF room] file_log_last [OF ok] in simp)
  then have "queue_tracks (queue ?fl) (log_map n (es @ [e])) (last_log_index (seg_store ?fl))"
    using tracks_put [OF t room] r(4) by simp
  then have "file_log_ok lv N fs' ?fl n (es @ [e])"
    by (intro file_log_okI [of _ _ _ _ L']) (use r L in simp_all)
  moreover have "append_log N io fs fl e = (fs', ?fl, Inr (next_slot fl))"
    using a by (simp add: append_log_def next_slot_def)
  moreover have "next_slot ?fl = next_slot fl + 1" using r(4) by (simp add: next_slot_def)
  ultimately show ?thesis by blast
qed

lemma write_at_ok:
  assumes N: "buffers_ok N" and ok: "file_log_ok True N fs fl n es" and io: "io_ok io" and e: "entry_ok e"
    and idx: "n \<le> unat index" "unat index \<le> n + length es"
  shows "\<exists>fs' fl'. write_at N io fs fl index e = (fs', fl', Inr ())
    \<and> file_log_ok True N fs' fl' n (take (unat index - n) es @ [e]) \<and> next_slot fl' = index + 1"
proof -
  obtain L where L: "store_ok True N fs (seg_store fl) L" "entries L = es" "unat (first_log_index (seg_store fl)) = n"
    by (rule file_log_okE [OF ok])
  have i: "first_log_index (seg_store fl) \<le> index" "unat index \<le> unat (last_log_index (seg_store fl)) + 1"
    using idx L(3) file_log_last [OF ok] by (simp_all add: word_le_nat_alt)
  obtain fs' st' L' where a: "store_writeAt N io fs (seg_store fl) index (Some e) = (fs', st', Inr index)"
    and r: "store_ok True N fs' st' L'" "entries L' = take (unat index - n) es @ [e]"
      "first_log_index st' = first_log_index (seg_store fl)" "last_log_index st' = index"
    using writeAt_ok [OF N L(1) io e i] L(2,3) by auto
  let ?fl = "wake_fsync N e (fl\<lparr>seg_store := st', queue := log_queue_clear (queue fl), last_log_entry := Some e\<rparr>)"
  have "file_log_ok True N fs' ?fl n (take (unat index - n) es @ [e])"
    by (rule file_log_okI [of _ _ _ _ L']) (use r L in \<open>simp_all add: tracks_clear\<close>)
  moreover have "write_at N io fs fl index e = (fs', ?fl, Inr ())" using a by (simp add: write_at_def)
  moreover have "next_slot ?fl = index + 1" using r(4) by (simp add: next_slot_def)
  ultimately show ?thesis by blast
qed

lemma remove_to_drop:
  assumes ok: "store_ok lv N fs st L" and n: "unat (first_log_index st) = n" and more: "last_log_index st \<noteq> k"
  shows "\<exists>fs' st' d L'. removeSegment_to fs st k = (fs', st', 0) \<and> store_ok lv N fs' st' L'
    \<and> entries L' = drop d (entries L) \<and> unat (first_log_index st') = n + d
    \<and> (unat k \<le> n \<longrightarrow> d = 0) \<and> (n < unat k \<longrightarrow> n + d \<le> unat k)"
proof (cases "k \<le> first_log_index st")
  case True
  then have "removeSegment_to fs st k = (fs, st, 0)" by (simp add: removeSegment_to_def)
  moreover have "\<not> n < unat k" using True n by (simp add: word_le_nat_alt)
  ultimately show ?thesis using ok n by (intro exI [of _ fs] exI [of _ st] exI [of _ 0] exI [of _ L]) simp
next
  case False
  then have less: "first_log_index st < k" and nk: "n < unat k" using n by (auto simp: word_less_nat_alt word_le_nat_alt)
  obtain fs' st' R K where r: "removeSegment_to fs st k = (fs', st', 0)" "store_ok lv N fs' st' K" "L = R @ K"
    and c: "if last_log_index st < k then K = [] \<and> first_log_index st' = k
       else unat (first_log_index st') = unat (first_log_index st) + length (entries R)
         \<and> first_log_index st' \<le> k \<and> last_log_index st' = last_log_index st"
    using compact_ok [OF ok less more] by blast
  show ?thesis
  proof (cases "last_log_index st < k")
    case True
    then have K: "K = []" "first_log_index st' = k" using c by simp_all
    have "length (entries L) \<le> unat k - n"
      using True store_okD(4) [OF ok] n by (simp add: word_less_nat_alt)
    then show ?thesis using r K nk by (intro exI [of _ fs'] exI [of _ st'] exI [of _ "unat k - n"] exI [of _ K]) simp
  next
    case False
    then show ?thesis using r c nk n
      by (intro exI [of _ fs'] exI [of _ st'] exI [of _ "length (entries R)"] exI [of _ K]) (simp add: word_le_nat_alt)
  qed
qed

lemma compact_log_ok:
  assumes ok: "file_log_ok lv N fs fl n es" and more: "last_log_index (seg_store fl) \<noteq> k + 1"
  shows "\<exists>fs' fl' d. compact fs fl k = (fs', fl', True) \<and> file_log_ok lv N fs' fl' (n + d) (drop d es)
    \<and> (unat (k + 1) \<le> n \<longrightarrow> d = 0) \<and> (n < unat (k + 1) \<longrightarrow> n + d \<le> unat (k + 1))"
proof -
  obtain L where L: "store_ok lv N fs (seg_store fl) L" "entries L = es" "unat (first_log_index (seg_store fl)) = n"
    and le: "es \<noteq> [] \<longrightarrow> last_log_entry fl = Some (last es)"
    by (rule file_log_okE [OF ok])
  obtain fs' st' d L' where r: "removeSegment_to fs (seg_store fl) (k + 1) = (fs', st', 0)" "store_ok lv N fs' st' L'"
    "entries L' = drop d es" "unat (first_log_index st') = n + d"
    and d: "unat (k + 1) \<le> n \<longrightarrow> d = 0" "n < unat (k + 1) \<longrightarrow> n + d \<le> unat (k + 1)"
    using remove_to_drop [OF L(1,3) more] L(2) by auto
  let ?fl = "fl\<lparr>seg_store := st', queue := log_queue_clear (queue fl)\<rparr>"
  have "file_log_ok lv N fs' ?fl (n + d) (drop d es)"
    by (rule file_log_okI [of _ _ _ _ L']) (use r le in \<open>auto simp: tracks_clear\<close>)
  moreover have "compact fs fl k = (fs', ?fl, True)" using r(1) by (simp add: compact_def)
  ultimately show ?thesis using d by blast
qed

section \<open>Start up\<close>

lemma list_max_log_size: "listSegments ls io fs st = (st', r) \<Longrightarrow> max_log_size st' = max_log_size st"
  by (auto simp: listSegments_def Let_def split: prod.splits if_splits option.splits)

lemma load_max_log_size: "loadSegments N io fs st = (fs', st', r) \<Longrightarrow> max_log_size st' = max_log_size st"
  by (auto simp: loadSegments_def finish_load_def Let_def split: prod.splits if_splits option.splits sum.splits)

lemma open_max_log_size: "openSegment io fs st = (fs', st', r) \<Longrightarrow> max_log_size st' = max_log_size st"
  by (auto simp: openSegment_def roll_segment_def start_segment_def split: prod.splits if_splits option.splits sum.splits)

lemma init_max_log_size: "init N ls io fs st max_size max_count = (fs', st', r) \<Longrightarrow> max_log_size st' = max_size"
  by (auto simp: init_def Let_def dest!: list_max_log_size load_max_log_size open_max_log_size
    split: prod.splits sum.splits if_splits)

lemma new_file_log_empty:
  assumes io: "io_ok io" and fs: "dir fs = Map.empty" and ls: "enumerates ls" and size: "9 \<le> unat max_size"
  shows "\<exists>fs' fl'. new_file_log N ls io junk fs None force_new mode interval max_size max_count = (fs', Inr fl')
    \<and> file_log_ok True N fs' fl' 1 [] \<and> log_fsync_mode fl' = mode \<and> \<not> shutdown_called fl'
    \<and> fsync_thread fl' = (if mode = FSYNC_PARALLEL then Loop_Test else Finished)
    \<and> open_segment (seg_store fl') \<noteq> None \<and> max_log_size (seg_store fl') = max_size"
proof -
  obtain fs' st' seg i where r: "init N ls io fs new_store max_size max_count = (fs', st', Inr 0)"
    and ok: "store_ok True N fs' st' [(seg, i, [])]" "is_open seg" "first_log_index st' = 1"
    using init_empty [OF io fs ls size] by blast
  have "unat (last_log_index st') = 0" using store_okD(4) [OF ok(1)] ok(3) by simp
  then have z: "last_log_index st' = 0" by (simp add: unat_eq_0)
  have "open_segment st' \<noteq> None"
    using ok(1)
  proof (cases rule: store_split)
    case no_open
    then have "seg \<in> set (segments st')" by (metis fst_conv list.set_intros(1) list.simps(9))
    then show ?thesis using store_okD(6) [OF ok(1)] ok(2) by blast
  qed simp
  then show ?thesis
    using r z ok init_max_log_size [OF r] by (auto simp: new_file_log_def getInstance_def file_log_ok_def tracks_new)
qed

lemma new_file_log_restart:
  assumes N: "buffers_ok N" and ok: "file_log_ok lv N fs fl n es" and io: "io_ok io" and ls: "enumerates ls"
    and size: "9 \<le> unat max_size" and room: "last_log_index (seg_store fl) \<noteq> -1"
    and op: "open_segment (seg_store fl) \<noteq> None" and es: "es \<noteq> []"
  shows "\<exists>fs' fl'. new_file_log N ls io junk fs None force_new mode interval max_size max_count = (fs', Inr fl')
    \<and> file_log_ok False N fs' fl' n es \<and> next_slot fl' = next_slot fl \<and> last_durable_index fl' = next_slot fl - 1"
proof -
  obtain L where L: "store_ok lv N fs (seg_store fl) L" "entries L = es" "unat (first_log_index (seg_store fl)) = n"
    by (rule file_log_okE [OF ok])
  have "\<exists>C seg i xs. L = C @ [(seg, i, xs)] \<and> is_open seg"
    using L(1) by (cases rule: store_split) (use op in auto)
  then obtain fs' st' L' where r: "init N ls io fs new_store max_size max_count = (fs', st', Inr 0)"
    and ok': "store_ok False N fs' st' L'" "entries L' = es" "first_log_index st' = first_log_index (seg_store fl)"
      "last_log_index st' = last_log_index (seg_store fl)"
    using init_ok [OF N L(1) io ls size room] es L(2) by blast
  have oi: "open_ok io" using io by (simp add: io_ok_def)
  let ?l = "last_log_index (seg_store fl)"
  have last_u: "unat ?l + 1 = n + length es" by (rule file_log_last [OF ok])
  have n: "0 < n" using store_okD(3) [OF L(1)] L(3) by (simp add: word_less_nat_alt)
  have "0 < length es" using es by simp
  then have "n \<le> unat ?l" "unat ?l < n + length es" "unat ?l - n = length es - 1" using last_u by linarith+
  then have "log_map n es ?l = Some (last es)" using es by (simp add: log_map_def last_conv_nth)
  then obtain st2 L2 where g: "store_getEntry N io fs' st' ?l = (st2, Inr (Some (last es)))"
    and ok2: "store_ok False N fs' st2 L2" "entries L2 = es" "first_log_index st2 = first_log_index st'"
      "last_log_index st2 = last_log_index st'"
    using store_get_map [OF N ok'(1) oi, of ?l] ok' L(3) by auto
  have "1 \<le> unat ?l" using \<open>0 < length es\<close> last_u n by linarith
  then have "\<not> ?l < 1" by (simp add: word_less_nat_alt)
  then show ?thesis
    using r g ok' ok2 L(3) by (auto simp: new_file_log_def getInstance_def file_log_ok_def tracks_new next_slot_def last_durable_index_def)
qed

section \<open>Log packs\<close>

lemma pack_okD:
  assumes "pack_ok P"
  shows "length (put_int P v) = 4" and "get_int P (a @ put_int P v @ b) (length a) = Some v"
    and "get_bytes P (a @ xs @ b) (length a) (length xs) = Some xs"
    and "length (le_serialize P e) = length (le_buf e) + 9" and "le_deserialize P (le_serialize P e) = e"
  using assms by (auto simp: pack_ok_def)

definition packable :: "log_entry \<Rightarrow> bool" where
  "packable e \<longleftrightarrow> entry_ok e \<and> length (le_buf e) + 9 < 2 ^ 31"

lemma small_int32:
  assumes "k < 2 ^ 31"
  shows "unat (of_nat k :: int32) = k" and "\<not> (of_nat k :: int32) <s 0" and "sint (of_nat k :: int32) = int k"
proof -
  show u: "unat (of_nat k :: int32) = k" using assms by (simp add: unsigned_of_nat take_bit_nat_eq_self)
  show s: "sint (of_nat k :: int32) = int k"
    using assms by (simp add: signed_of_nat signed_take_bit_int_eq_self)
  show "\<not> (of_nat k :: int32) <s 0" by (simp add: word_sless_alt s)
qed

lemma apply_pack_loop_ok:
  assumes N: "buffers_ok N" and P: "pack_ok P" and io: "io_ok io"
  shows "\<lbrakk>store_ok True N fs (seg_store fl) L; unat (first_log_index (seg_store fl)) = n;
      n \<le> unat idx; unat idx \<le> n + length (entries L); \<forall>e\<in>set logs. packable e; logs \<noteq> []; unat idx + length logs \<le> 2 ^ 64\<rbrakk>
    \<Longrightarrow> \<exists>fs' st' L'. apply_pack_loop N P io fs fl idx (pre @ pack_bytes N P logs @ post) (length pre) (length logs)
          = (fs', fl\<lparr>seg_store := st'\<rparr>, Inr ())
        \<and> store_ok True N fs' st' L' \<and> entries L' = take (unat idx - n) (entries L) @ logs
        \<and> unat (first_log_index st') = n"
proof (induction logs arbitrary: fs fl L idx pre)
  case (Cons e logs)
  let ?s = "le_serialize P e" and ?l = "last_log_index (seg_store fl)"
  have e: "entry_ok e" and small: "length ?s < 2 ^ 31" and logs: "\<forall>e\<in>set logs. packable e"
    using Cons.prems(5) pack_okD(4) [OF P] by (simp_all add: packable_def)
  note int32 = small_int32 [OF small]
  have bytes: "pre @ pack_bytes N P (e # logs) @ post
      = pre @ put_int P (of_nat (length ?s)) @ ?s @ pack_bytes N P logs @ post"
    using N by (simp add: pack_bytes_def buffers_ok_def Let_def)
  have i: "first_log_index (seg_store fl) \<le> idx" "unat idx \<le> unat ?l + 1"
    using Cons.prems(2,3,4) store_okD(4) [OF Cons.prems(1)] by (simp_all add: word_le_nat_alt)
  obtain fs1 st1 L1 where w: "store_writeAt N io fs (seg_store fl) idx (Some e) = (fs1, st1, Inr idx)"
    and ok1: "store_ok True N fs1 st1 L1" "entries L1 = take (unat idx - n) (entries L) @ [e]" "unat (first_log_index st1) = n"
    using writeAt_ok [OF N Cons.prems(1) io e i] Cons.prems(2) by auto
  let ?buf = "pre @ put_int P (of_nat (length ?s)) @ ?s @ pack_bytes N P logs @ post"
  let ?pre = "pre @ put_int P (of_nat (length ?s)) @ ?s"
  have g1: "get_int P ?buf (length pre) = Some (of_nat (length ?s))" by (rule pack_okD(2) [OF P])
  have g2: "get_bytes P ?buf (length pre + 4) (length ?s) = Some ?s"
    using pack_okD(3) [OF P, of "pre @ put_int P (of_nat (length ?s))" ?s "pack_bytes N P logs @ post"]
    by (simp add: pack_okD(1) [OF P])
  have step: "apply_pack_loop N P io fs fl idx ?buf (length pre) (length (e # logs))
      = apply_pack_loop N P io fs1 (fl\<lparr>seg_store := st1\<rparr>) (idx + 1) (?pre @ pack_bytes N P logs @ post) (length ?pre) (length logs)"
    using g1 g2 w int32 by (simp add: pack_okD(1,5) [OF P] add.assoc)
  show ?case
  proof (cases "logs = []")
    case True
    then show ?thesis using step bytes ok1 by (intro exI [of _ fs1] exI [of _ st1] exI [of _ L1]) simp
  next
    case False
    then have "unat idx + 1 < 2 ^ 64" using Cons.prems(7) by (cases logs) simp_all
    then have "idx \<noteq> -1" by (auto simp: unsigned_minus_1_eq_mask mask_eq_exp_minus_1)
    then have u: "unat (idx + 1) = unat idx + 1" by (rule unat_Suc)
    have len: "length (entries L1) = unat idx - n + 1" using ok1(2) Cons.prems(4) by simp
    have "\<exists>fs' st' L'. apply_pack_loop N P io fs1 (fl\<lparr>seg_store := st1\<rparr>) (idx + 1) (?pre @ pack_bytes N P logs @ post) (length ?pre) (length logs)
          = (fs', fl\<lparr>seg_store := st1\<rparr>\<lparr>seg_store := st'\<rparr>, Inr ())
        \<and> store_ok True N fs' st' L' \<and> entries L' = take (unat (idx + 1) - n) (entries L1) @ logs \<and> unat (first_log_index st') = n"
      by (rule Cons.IH) (use ok1 u len logs False Cons.prems in simp_all)
    then show ?thesis using step bytes ok1(2) u len Cons.prems(3) by (auto simp: Suc_diff_le)
  qed
qed simp

lemma unat_of_nat64: "k < 2 ^ 64 \<Longrightarrow> unat (of_nat k :: uint64) = k"
  by (simp add: unsigned_of_nat take_bit_nat_eq_self)

lemma log_map_range:
  assumes "n \<le> a" and "a + k \<le> n + length es" and "a + k \<le> 2 ^ 64"
  shows "map (\<lambda>j. log_map n es (of_nat j)) [a..<a + k] = map Some (take k (drop (a - n) es))"
proof (rule nth_equalityI)
  fix j assume "j < length (map (\<lambda>j. log_map n es (of_nat j)) [a..<a + k])"
  then have j: "j < k" by simp
  then have "unat (of_nat (a + j) :: uint64) = a + j" using assms(3) by (intro unat_of_nat64) simp
  then show "map (\<lambda>j. log_map n es (of_nat j)) [a..<a + k] ! j = map Some (take k (drop (a - n) es)) ! j"
    using assms(1,2) j by (simp add: log_map_def)
qed (use assms in simp)

lemma pack_bytes_length:
  assumes "buffers_ok N" and "pack_ok P"
  shows "length (pack_bytes N P logs) = 4 * length logs + sum_list (map (\<lambda>le. length (le_serialize P le)) logs)"
  using assms(1) by (induction logs) (simp_all add: pack_bytes_def buffers_ok_def Let_def pack_okD(1) [OF assms(2)])

lemma packable_sum:
  assumes "pack_ok P" and "\<forall>e\<in>set logs. packable e"
  shows "sum_list (map (\<lambda>le. length (le_serialize P le)) logs) \<le> length logs * 2 ^ 31"
  using assms(2) by (induction logs) (auto simp: packable_def pack_okD(4) [OF assms(1)])

lemma pack_result:
  assumes N: "buffers_ok N" and P: "pack_ok P" and ok: "file_log_ok lv N fs fl n es" and io: "open_ok io"
    and k: "k < 2 ^ 31" "n \<le> unat idx" "unat idx + k \<le> n + length es" "unat idx + k < 2 ^ 64"
    and es: "\<forall>e\<in>set es. packable e"
  shows "\<exists>st. pack N P io fs fl idx (of_nat k)
      = (fl\<lparr>seg_store := st\<rparr>, Inr (put_int P (of_nat k) @ pack_bytes N P (take k (drop (unat idx - n) es))))
    \<and> file_log_ok lv N fs (fl\<lparr>seg_store := st\<rparr>) n es"
proof -
  let ?logs = "take k (drop (unat idx - n) es)" and ?upto = "idx + scast (of_nat k :: int32)"
  let ?total = "sum_list (map (\<lambda>le. length (le_serialize P le)) ?logs)"
  have c: "(scast (of_nat k :: int32) :: uint64) = of_nat k"
    using small_int32(3) [OF k(1)] by (simp add: scast_eq)
  have "unat ?upto = unat idx + k"
    unfolding c using k(4) by (simp add: unat_word_ariths(1) unsigned_of_nat take_bit_nat_eq_self)
  then obtain st where e: "log_entries N io fs fl idx ?upto [] = (fl\<lparr>seg_store := st\<rparr>, Inr (map Some ?logs))"
    and ok': "file_log_ok lv N fs (fl\<lparr>seg_store := st\<rparr>) n es"
    using log_entries_ok [OF N io ok, of idx ?upto "[]"] log_map_range [OF k(2,3)] k(4) by auto
  have len: "length ?logs = k" using k(2,3) by simp
  have "?total \<le> k * 2 ^ 31"
    using packable_sum [OF P, of ?logs] es len by (auto dest!: in_set_takeD in_set_dropD)
  moreover have "k * 2 ^ 31 \<le> 2 ^ 31 * 2 ^ 31" using k(1) by (intro mult_le_mono1) simp
  ultimately have "4 + k * 4 + ?total < 2 ^ 64" using k(1) by simp
  then have "unat (of_nat (4 + k * 4 + ?total) :: uint64) = 4 + k * 4 + ?total" by (rule unat_of_nat64)
  then have cap: "unat (4 + scast (of_nat k :: int32) * 4 + of_nat ?total :: uint64)
      = length (put_int P (of_nat k) @ pack_bytes N P ?logs)"
    unfolding c using pack_bytes_length [OF N P, of ?logs] len pack_okD(1) [OF P] by (simp add: mult.commute)
  have "map the (map Some ?logs) = ?logs" "None \<notin> set (map Some ?logs)" by (simp_all add: comp_def)
  then have "pack N P io fs fl idx (of_nat k) = (fl\<lparr>seg_store := st\<rparr>, Inr (put_int P (of_nat k) @ pack_bytes N P ?logs))"
    unfolding pack_def e Let_def prod.case sum.case by (simp only: cap if_False) simp
  with ok' show ?thesis by blast
qed

text \<open>The packed entries replace the suffix of the log they are applied to; the cache is not told.\<close>

lemma apply_pack_result:
  assumes N: "buffers_ok N" and P: "pack_ok P" and io: "io_ok io" and ok: "store_ok True N fs (seg_store fl) L"
    and n: "unat (first_log_index (seg_store fl)) = n" "n \<le> unat idx" "unat idx \<le> n + length (entries L)"
    and logs: "\<forall>e\<in>set logs. packable e" "logs \<noteq> []" "unat idx + length logs \<le> 2 ^ 64" "length logs < 2 ^ 31"
  shows "\<exists>fs' st' L' ev. apply_pack N P io fs fl idx (put_int P (of_nat (length logs)) @ pack_bytes N P logs)
      = (fs', fl\<lparr>seg_store := st', parallel_fsync_event := ev\<rparr>, Inr ())
    \<and> store_ok True N fs' st' L' \<and> entries L' = take (unat idx - n) (entries L) @ logs \<and> unat (first_log_index st') = n"
proof -
  let ?h = "put_int P (of_nat (length logs))"
  obtain fs' st' L' where r: "apply_pack_loop N P io fs fl idx (?h @ pack_bytes N P logs) 4 (length logs)
      = (fs', fl\<lparr>seg_store := st'\<rparr>, Inr ())"
    and s: "store_ok True N fs' st' L'" "entries L' = take (unat idx - n) (entries L) @ logs" "unat (first_log_index st') = n"
    using apply_pack_loop_ok [OF N P io ok n logs(1-3), of ?h "[]"] pack_okD(1) [OF P] by auto
  have "get_int P (?h @ pack_bytes N P logs) 0 = Some (of_nat (length logs))"
    using pack_okD(2) [OF P, of "[]"] by simp
  then have "apply_pack N P io fs fl idx (?h @ pack_bytes N P logs)
      = (fs', (if log_fsync_mode fl = FSYNC_PARALLEL then fl\<lparr>seg_store := st', parallel_fsync_event := True\<rparr> else fl\<lparr>seg_store := st'\<rparr>), Inr ())"
    using r small_int32(3) [OF logs(4)] by (simp add: apply_pack_def)
  then show ?thesis
    using s by (intro exI [of _ fs'] exI [of _ st'] exI [of _ L']
      exI [of _ "log_fsync_mode fl = FSYNC_PARALLEL \<or> parallel_fsync_event fl"]) auto
qed

end
