(* ===== verification/Log_Theorems.thy ===== *)
theory Log_Theorems
  imports File_Log_Facts
begin

text \<open>
  The correctness of the log: the runs of the log store as a step relation that carries the abstract
  log, the refinement of the store to it, restarts, compaction, log packs and the background thread;
  and the situations in which the store does not keep its promises.
\<close>

section \<open>Runs of the log store\<close>

text \<open>
  \<open>log_run N lv fs fl n es\<close>: the store \<open>fl\<close> over the files \<open>fs\<close> was started on an empty directory and
  used, and the log it should hold is the list \<open>es\<close> with first index \<open>n\<close>. The flag \<open>lv\<close> says that the
  process was never restarted, which \<open>write_at\<close> needs to reopen closed segments. System calls succeed
  in these runs.
\<close>

inductive log_run :: "nuraft \<Rightarrow> bool \<Rightarrow> files \<Rightarrow> file_log \<Rightarrow> nat \<Rightarrow> log_entry list \<Rightarrow> bool" for N where
  start: "\<lbrakk>dir fs = Map.empty; io_ok io; enumerates ls; 9 \<le> unat max_size;
      new_file_log N ls io junk fs None force_new mode interval max_size max_count = (fs', Inr fl')\<rbrakk>
    \<Longrightarrow> log_run N True fs' fl' 1 []"
| restart: "\<lbrakk>log_run N lv fs fl n es; io_ok io; enumerates ls; 9 \<le> unat max_size; es \<noteq> [];
      last_log_index (seg_store fl) \<noteq> -1; open_segment (seg_store fl) \<noteq> None;
      new_file_log N ls io junk fs None force_new mode interval max_size max_count = (fs', Inr fl')\<rbrakk>
    \<Longrightarrow> log_run N False fs' fl' n es"
| append: "\<lbrakk>log_run N lv fs fl n es; io_ok io; entry_ok e; last_log_index (seg_store fl) \<noteq> -1;
      append_log N io fs fl e = (fs', fl', r)\<rbrakk> \<Longrightarrow> log_run N lv fs' fl' n (es @ [e])"
| replace: "\<lbrakk>log_run N True fs fl n es; io_ok io; entry_ok e; n \<le> unat index; unat index \<le> n + length es;
      write_at N io fs fl index e = (fs', fl', r)\<rbrakk> \<Longrightarrow> log_run N True fs' fl' n (take (unat index - n) es @ [e])"
| compact: "\<lbrakk>log_run N lv fs fl n es; last_log_index (seg_store fl) \<noteq> k + 1; compact fs fl k = (fs', fl', b)\<rbrakk>
    \<Longrightarrow> log_run N lv fs' fl' (unat (start_index fl')) (drop (unat (start_index fl') - n) es)"
| read: "\<lbrakk>log_run N lv fs fl n es; open_ok io; entry_at N io fs fl i = (fl', r)\<rbrakk> \<Longrightarrow> log_run N lv fs fl' n es"
| batch: "\<lbrakk>log_run N lv fs fl n es; end_of_append_batch fl = (fl', r)\<rbrakk> \<Longrightarrow> log_run N lv fs fl' n es"
| fsync: "\<lbrakk>log_run N lv fs fl n es; fsyncThread io fl = Some fl'\<rbrakk> \<Longrightarrow> log_run N lv fs fl' n es"
| stop: "log_run N lv fs fl n es \<Longrightarrow> log_run N lv fs (shutdown fl) n es"

lemma file_log_ok_frame:
  assumes "file_log_ok lv N fs fl n es" and "seg_store fl' = seg_store fl" and "queue fl' = queue fl"
    and "last_log_entry fl' = last_log_entry fl"
  shows "file_log_ok lv N fs fl' n es"
  using assms by (simp add: file_log_ok_def)

lemma fsync_frame:
  "fsyncThread io fl = Some fl' \<Longrightarrow>
    seg_store fl' = seg_store fl \<and> queue fl' = queue fl \<and> last_log_entry fl' = last_log_entry fl"
  by (auto simp: fsyncThread_def Let_def split: fsync_pc.splits if_splits)

lemma batch_frame:
  "end_of_append_batch fl = (fl', r) \<Longrightarrow>
    seg_store fl' = seg_store fl \<and> queue fl' = queue fl \<and> last_log_entry fl' = last_log_entry fl"
  by (auto simp: end_of_append_batch_def split: FsyncMode.splits if_splits)

lemma log_run_ok:
  assumes "log_run N lv fs fl n es" and N: "buffers_ok N"
  shows "file_log_ok lv N fs fl n es"
  using assms(1)
proof (induction rule: log_run.induct)
  case (start fs io ls max_size junk force_new mode interval max_count fs' fl')
  then show ?case using new_file_log_empty [OF start(2,1,3,4), of N junk force_new mode interval max_count] by auto
next
  case (restart lv fs fl n es io ls max_size junk force_new mode interval max_count fs' fl')
  then show ?case using new_file_log_restart [OF N restart.IH restart(2,3,4,6,7,5), of junk force_new mode interval max_count] by auto
next
  case (append lv fs fl n es io e fs' fl' r)
  then show ?case using append_log_ok [OF N append.IH append(2,3,4)] by fastforce
next
  case (replace fs fl n es io e index fs' fl' r)
  then show ?case using write_at_ok [OF N replace.IH replace(2,3,4,5)] by fastforce
next
  case (compact lv fs fl n es k fs' fl' b)
  obtain d where "file_log_ok lv N fs' fl' (n + d) (drop d es)"
    using compact_log_ok [OF compact.IH compact(2)] compact(3) by auto
  moreover from this have "unat (start_index fl') = n + d" by (auto simp: file_log_ok_def start_index_def)
  ultimately show ?case by simp
next
  case (read lv fs fl n es io i fl' r)
  then show ?case using entry_at_ok [OF N read.IH read(2), of i] by auto
next
  case (batch lv fs fl n es fl' r)
  then show ?case using batch_frame file_log_ok_frame by blast
next
  case (fsync lv fs fl n es io fl')
  then show ?case using fsync_frame file_log_ok_frame by blast
next
  case (stop lv fs fl n es)
  show ?case by (rule file_log_ok_frame [OF stop.IH]) (simp_all add: shutdown_def)
qed

section \<open>Sample runs\<close>

definition sample_io :: io where
  "sample_io = \<lparr>clock = ''20240101000000'', mkdir_ok = True, open_ok = True, truncate_ok = True, sync_ok = True,
     write_result = Some, garbage = 0\<rparr>"

definition sample_entry :: "uint64 \<Rightarrow> log_entry" where
  "sample_entry t = \<lparr>le_term = t, le_type = 1, le_buf = ''abc''\<rparr>"

lemma sample_io_ok: "io_ok sample_io" "open_ok sample_io"
  by (auto simp: sample_io_def io_ok_def writes_all_def time_ok_def is_space_def)

lemma sample_entry_ok: "entry_ok (sample_entry t)" "packable (sample_entry t)"
  by (simp_all add: entry_ok_def packable_def sample_entry_def)

lemma sample_names: "enumerates (sorted_list_of_set :: string set \<Rightarrow> string list)"
  by (simp add: enumerates_def)

lemma append_log_opens:
  "\<lbrakk>append_log N io fs fl e = (fs', fl', Inr k); k \<noteq> -1\<rbrakk> \<Longrightarrow> open_segment (seg_store fl') \<noteq> None"
  by (auto simp: append_log_def store_appendEntry_def split: prod.splits sum.splits option.splits if_splits)

lemma append_log_caches:
  "append_log N io fs fl e = (fs', fl', Inr k) \<Longrightarrow> queue fl' = putEntry (queue fl) k e"
  by (auto simp: append_log_def split: prod.splits sum.splits)

lemma append_log_frame:
  "append_log N io fs fl e = (fs', fl', r) \<Longrightarrow> log_fsync_mode fl' = log_fsync_mode fl \<and> fsync_thread fl' = fsync_thread fl
    \<and> shutdown_called fl' = shutdown_called fl \<and> max_log_size (seg_store fl') = max_log_size (seg_store fl)"
  by (auto simp: append_log_def wake_fsync_def store_appendEntry_def dest!: open_max_log_size
    split: prod.splits sum.splits option.splits if_splits)

lemma sample_append:
  assumes r: "log_run plain_buffers lv fs fl n es" and l: "next_slot fl \<noteq> 0" "next_slot fl \<noteq> -1"
  shows "\<exists>fs' fl'. append_log plain_buffers sample_io fs fl (sample_entry t) = (fs', fl', Inr (next_slot fl))
    \<and> log_run plain_buffers lv fs' fl' n (es @ [sample_entry t]) \<and> next_slot fl' = next_slot fl + 1
    \<and> open_segment (seg_store fl') \<noteq> None \<and> queue_getEntry (queue fl') (next_slot fl) = Some (sample_entry t)
    \<and> log_fsync_mode fl' = log_fsync_mode fl \<and> fsync_thread fl' = fsync_thread fl
    \<and> shutdown_called fl' = shutdown_called fl \<and> max_log_size (seg_store fl') = max_log_size (seg_store fl)"
proof -
  note ok = log_run_ok [OF r plain_buffers_ok]
  have room: "last_log_index (seg_store fl) \<noteq> -1" using l(1) by (auto simp: next_slot_def)
  obtain fs' fl' where a: "append_log plain_buffers sample_io fs fl (sample_entry t) = (fs', fl', Inr (next_slot fl))"
    and n: "next_slot fl' = next_slot fl + 1"
    using append_log_ok [OF plain_buffers_ok ok sample_io_ok(1) sample_entry_ok(1) room] by blast
  have "queue_getEntry (queue fl') (next_slot fl) = Some (sample_entry t)"
    using tracks_hit [OF _ room] ok append_log_caches [OF a] by (auto simp: file_log_ok_def next_slot_def)
  then show ?thesis
    using a n log_run.append [OF r sample_io_ok(1) sample_entry_ok(1) room a] append_log_opens [OF a l(2)] append_log_frame [OF a]
    by blast
qed

lemma sample_start:
  assumes size: "9 \<le> unat max_size"
  shows "\<exists>fs fl. log_run plain_buffers True fs fl 1 [] \<and> next_slot fl = 1
    \<and> open_segment (seg_store fl) \<noteq> None \<and> log_fsync_mode fl = FSYNC_PARALLEL \<and> fsync_thread fl = Loop_Test
    \<and> \<not> shutdown_called fl \<and> max_log_size (seg_store fl) = max_size"
proof -
  let ?fs = "\<lparr>dir = Map.empty, contents = (\<lambda>_. []), next_inode = 0\<rparr>"
  obtain fs fl where s: "new_file_log plain_buffers sorted_list_of_set sample_io 0 ?fs None True FSYNC_PARALLEL 1000 max_size 10 = (fs, Inr fl)"
    and ok: "file_log_ok True plain_buffers fs fl 1 []" and f: "log_fsync_mode fl = FSYNC_PARALLEL" "fsync_thread fl = Loop_Test"
      "\<not> shutdown_called fl" "max_log_size (seg_store fl) = max_size" "open_segment (seg_store fl) \<noteq> None"
    using new_file_log_empty [OF sample_io_ok(1) _ sample_names size, of ?fs plain_buffers 0 True FSYNC_PARALLEL 1000 10] by auto
  have "log_run plain_buffers True fs fl 1 []"
    by (rule log_run.start [OF _ sample_io_ok(1) sample_names size s]) simp
  moreover have "unat (last_log_index (seg_store fl)) = 0" using file_log_last [OF ok] by simp
  then have "next_slot fl = 1" by (simp add: next_slot_def unat_eq_0)
  ultimately show ?thesis using f by blast
qed

lemma sample_first:
  assumes size: "9 \<le> unat max_size"
  shows "\<exists>fs fl. log_run plain_buffers True fs fl 1 [sample_entry 1] \<and> next_slot fl = 2
    \<and> open_segment (seg_store fl) \<noteq> None \<and> log_fsync_mode fl = FSYNC_PARALLEL \<and> fsync_thread fl = Loop_Test
    \<and> \<not> shutdown_called fl \<and> max_log_size (seg_store fl) = max_size"
proof -
  obtain fs fl where r: "log_run plain_buffers True fs fl 1 []" and l: "next_slot fl = 1"
    and f: "log_fsync_mode fl = FSYNC_PARALLEL" "fsync_thread fl = Loop_Test" "\<not> shutdown_called fl" "max_log_size (seg_store fl) = max_size"
    using sample_start [OF size] by blast
  show ?thesis using sample_append [OF r, of 1] l f by auto
qed

lemma sample_run:
  "\<exists>fs fl. log_run plain_buffers True fs fl 1 [sample_entry 1, sample_entry 2] \<and> next_slot fl = 3
    \<and> open_segment (seg_store fl) \<noteq> None \<and> queue_getEntry (queue fl) 2 = Some (sample_entry 2)
    \<and> log_fsync_mode fl = FSYNC_PARALLEL \<and> fsync_thread fl = Loop_Test \<and> \<not> shutdown_called fl"
proof -
  obtain fs fl where r: "log_run plain_buffers True fs fl 1 [sample_entry 1]" and l: "next_slot fl = 2"
    and f: "log_fsync_mode fl = FSYNC_PARALLEL" "fsync_thread fl = Loop_Test" "\<not> shutdown_called fl"
    using sample_first [of 1000] by auto
  show ?thesis using sample_append [OF r, of 2] l f by auto
qed

section \<open>What a log store promises\<close>







text \<open>
  C26. Compaction is safe: unless exactly the last entry would remain, \<open>compact k\<close> only removes entries
  up to index \<open>k\<close>; every later entry still reads the same.
\<close>

theorem compact_keeps_later:
  assumes "buffers_ok N" and "log_run N lv fs fl n es" and "open_ok io"
    and "last_log_index (seg_store fl) \<noteq> k + 1" and "k < i" and "k \<noteq> -1"
  shows "\<exists>fs' fl'. compact fs fl k = (fs', fl', True)
    \<and> snd (entry_at N io fs' fl' i) = snd (entry_at N io fs fl i)"
proof -
  note N = assms(1) and ok = log_run_ok [OF assms(2,1)]
  obtain fs' fl' d where c: "compact fs fl k = (fs', fl', True)" and ok': "file_log_ok lv N fs' fl' (n + d) (drop d es)"
    and d: "unat (k + 1) \<le> n \<longrightarrow> d = 0" "n < unat (k + 1) \<longrightarrow> n + d \<le> unat (k + 1)"
    using compact_log_ok [OF ok assms(4)] by blast
  have "unat (k + 1) \<le> unat i" using assms(5) unat_Suc [OF assms(6)] by (simp add: word_less_nat_alt)
  then have "log_map (n + d) (drop d es) i = log_map n es i"
    using d by (cases "n < unat (k + 1)") (auto simp: log_map_def)
  then show ?thesis
    using c entry_at_ok [OF N ok assms(3), of i] entry_at_ok [OF N ok' assms(3), of i] by auto
qed

theorem compact_keeps_later_witness:
  "\<exists>fs fl fs' fl'. log_run plain_buffers True fs fl 1 [sample_entry 1, sample_entry 2]
    \<and> compact fs fl 0 = (fs', fl', True)
    \<and> snd (entry_at plain_buffers sample_io fs' fl' 2) = Inr (Some (sample_entry 2))"
proof -
  obtain fs fl where r: "log_run plain_buffers True fs fl 1 [sample_entry 1, sample_entry 2]" and s: "next_slot fl = 3"
    using sample_run by blast
  have "last_log_index (seg_store fl) + 1 = 2 + 1" using s by (simp add: next_slot_def)
  then have l: "last_log_index (seg_store fl) = 2" by (simp only: add_right_cancel)
  have "snd (entry_at plain_buffers sample_io fs fl 2) = Inr (Some (sample_entry 2))"
    using entry_at_ok [OF plain_buffers_ok log_run_ok [OF r plain_buffers_ok] sample_io_ok(2), of 2] by (auto simp: log_map_def)
  then show ?thesis
    using compact_keeps_later [OF plain_buffers_ok r sample_io_ok(2), of 0 2] r l by auto
qed

section \<open>Log packs\<close>

definition plain_pack :: nuraft_pack where
  "plain_pack =
     \<lparr>put_int = pod_bytes,
      get_int = (\<lambda>b pos. if pos + 4 \<le> length b then Some (pod_word (take 4 (drop pos b))) else None),
      get_bytes = (\<lambda>b pos k. if pos + k \<le> length b then Some (take k (drop pos b)) else None),
      le_serialize = (\<lambda>e. pod_bytes (le_term e) @ pod_bytes (le_type e) @ le_buf e),
      le_deserialize = (\<lambda>b. \<lparr>le_term = pod_word (take 8 b), le_type = pod_word (take 1 (drop 8 b)), le_buf = drop 9 b\<rparr>)\<rparr>"

lemma plain_pack_ok: "pack_ok plain_pack"
  by (simp add: pack_ok_def plain_pack_def pod_word_bytes)



text \<open>
  C28. Applying a log pack does not tell the cache: when a pack replaces an entry that is in the cache,
  the segments hold the new entry while \<open>entry_at\<close> goes on answering with the old one, and the copy of
  the last entry stays the old one too.
\<close>

theorem apply_pack_stale:
  assumes N: "buffers_ok N" and P: "pack_ok P" and io: "io_ok io" and e: "packable e"
    and run: "log_run N True fs fl n es" and hit: "queue_getEntry (queue fl) idx = Some old"
  shows "\<exists>fs' fl'. apply_pack N P io fs fl idx (put_int P 1 @ pack_bytes N P [e]) = (fs', fl', Inr ())
    \<and> snd (store_getEntry N io fs' (seg_store fl') idx) = Inr (Some e)
    \<and> snd (entry_at N io fs' fl' idx) = Inr (Some old) \<and> last_entry fl' = last_entry fl"
proof -
  note ok = log_run_ok [OF run N]
  have oi: "open_ok io" using io by (simp add: io_ok_def)
  obtain L where L: "store_ok True N fs (seg_store fl) L" "entries L = es" "unat (first_log_index (seg_store fl)) = n"
    and t: "queue_tracks (queue fl) (log_map n es) (last_log_index (seg_store fl))"
    by (rule file_log_okE [OF ok])
  have "log_map n es idx = Some old" by (rule tracks_sound [OF t hit])
  then have i: "n \<le> unat idx" "unat idx < n + length es" by (auto simp: log_map_def split: if_splits)
  have u: "unat idx + 1 \<le> 2 ^ 64" using unat_bound [of idx] by simp
  obtain fs' st' L' ev where a: "apply_pack N P io fs fl idx (put_int P (of_nat (length [e])) @ pack_bytes N P [e])
      = (fs', fl\<lparr>seg_store := st', parallel_fsync_event := ev\<rparr>, Inr ())"
    and r: "store_ok True N fs' st' L'" "entries L' = take (unat idx - n) es @ [e]" "unat (first_log_index st') = n"
    using apply_pack_result [OF N P io L(1,3) i(1), of "[e]"] L(2) i(2) e u by auto
  have "log_map n (take (unat idx - n) es @ [e]) idx = Some e" using i by (simp add: log_map_def nth_append)
  then have "snd (store_getEntry N io fs' st' idx) = Inr (Some e)"
    using store_get_map [OF N r(1) oi, of idx] r(2,3) by auto
  then show ?thesis using a hit by (auto simp: entry_at_def last_entry_def)
qed

theorem apply_pack_stale_witness:
  "\<exists>fs fl fs' fl'. log_run plain_buffers True fs fl 1 [sample_entry 1, sample_entry 2]
    \<and> apply_pack plain_buffers plain_pack sample_io fs fl 2 (put_int plain_pack 1 @ pack_bytes plain_buffers plain_pack [sample_entry 9])
      = (fs', fl', Inr ())
    \<and> snd (store_getEntry plain_buffers sample_io fs' (seg_store fl') 2) = Inr (Some (sample_entry 9))
    \<and> snd (entry_at plain_buffers sample_io fs' fl' 2) = Inr (Some (sample_entry 2))"
proof -
  obtain fs fl where r: "log_run plain_buffers True fs fl 1 [sample_entry 1, sample_entry 2]"
    and q: "queue_getEntry (queue fl) 2 = Some (sample_entry 2)"
    using sample_run by blast
  show ?thesis
    using apply_pack_stale [OF plain_buffers_ok plain_pack_ok sample_io_ok(1) sample_entry_ok(2) r q] r by blast
qed

end
