(* ===== verification/Log_Limits.thy ===== *)
theory Log_Limits
  imports Log_Theorems
begin

text \<open>
  The background thread of the log store, the loops that read a range of entries, and the situations
  in which the log does not survive: a record written in part, a restart without entries, and a
  compaction that leaves exactly one entry.
\<close>

section \<open>The background thread\<close>

fun fsync_run :: "io list \<Rightarrow> file_log \<Rightarrow> file_log" where
  "fsync_run [] fl = fl"
| "fsync_run (io # ios) fl = (case fsyncThread io fl of None \<Rightarrow> fl | Some fl' \<Rightarrow> fsync_run ios fl')"

lemma fsync_run_finished: "fsync_thread fl = Finished \<Longrightarrow> fsync_run ios fl = fl"
  by (cases ios) (simp_all add: fsyncThread_def)

lemma fsync_run_blocked:
  "fsync_thread fl = Event_Wait \<Longrightarrow> \<not> parallel_fsync_event fl \<Longrightarrow> fsync_run ios fl = fl"
  by (cases ios) (simp_all add: fsyncThread_def)

lemma fsync_run_test:
  "fsync_thread fl = Loop_Test \<Longrightarrow> \<not> shutdown_called fl \<Longrightarrow> \<not> parallel_fsync_event fl
    \<Longrightarrow> disk_last_durable_index (fsync_run ios fl) = disk_last_durable_index fl"
  by (cases ios) (simp_all add: fsyncThread_def fsync_run_blocked)

lemma fsync_run_mode: "log_fsync_mode (fsync_run ios fl) = log_fsync_mode fl"
proof (induction ios arbitrary: fl)
  case (Cons io ios)
  have "log_fsync_mode fl' = log_fsync_mode fl" if "fsyncThread io fl = Some fl'" for fl'
    using that by (auto simp: fsyncThread_def Let_def split: fsync_pc.splits if_splits)
  then show ?case using Cons.IH by (simp split: option.split)
qed simp

text \<open>
  C29. The background thread ends after \<open>shutdown\<close>: wherever it is, two of its steps bring it to its
  end, so the join of \<open>shutdown\<close> returns.
\<close>

theorem shutdown_ends_thread:
  assumes "log_fsync_mode fl = FSYNC_PARALLEL" and "\<not> shutdown_called fl" and "2 \<le> length ios"
  shows "fsync_thread (fsync_run ios (shutdown fl)) = Finished"
proof -
  obtain io1 io2 rest where ios: "ios = io1 # io2 # rest"
    using assms(3) by (cases ios; cases "tl ios") auto
  show ?thesis
  proof (cases "fsync_thread fl")
    case Loop_Test
    then show ?thesis using assms ios by (simp add: shutdown_def fsyncThread_def fsync_run_finished)
  next
    case Event_Wait
    then show ?thesis using assms ios by (simp add: shutdown_def fsyncThread_def Let_def fsync_run_finished)
  next
    case Finished
    then show ?thesis using assms by (simp add: shutdown_def fsync_run_finished)
  qed
qed

definition sample_log :: "fsync_pc \<Rightarrow> file_log" where
  "sample_log pc =
     \<lparr>seg_store = new_store, queue = new_queue, last_log_entry = None, log_fsync_mode = FSYNC_PARALLEL,
      log_fsync_interval = 1000, to_flush_count = 0, shutdown_called = False, disk_last_durable_index = 0,
      parallel_fsync_event = False, fsync_thread = pc\<rparr>"

theorem shutdown_ends_thread_witness:
  "fsync_thread (fsync_run [sample_io, sample_io] (shutdown (sample_log Event_Wait))) = Finished"
  by (rule shutdown_ends_thread) (simp_all add: sample_log_def)

text \<open>
  C30. The background thread makes the log durable: after the end of a batch of appended entries, two
  steps of the thread, with synchronisations that succeed, bring the durable index to the last entry.
\<close>

theorem fsync_catches_up:
  assumes "buffers_ok N" and "log_run N lv fs fl n es" and "es \<noteq> []" and "open_segment (seg_store fl) \<noteq> None"
    and "log_fsync_mode fl = FSYNC_PARALLEL" and "\<not> shutdown_called fl" and "fsync_thread fl \<noteq> Finished"
    and "2 \<le> length ios" and "\<forall>io\<in>set ios. sync_ok io"
  shows "last_durable_index (fsync_run ios (fst (end_of_append_batch fl))) = next_slot fl - 1"
proof -
  note ok = log_run_ok [OF assms(2,1)]
  obtain io1 io2 rest where ios: "ios = io1 # io2 # rest"
    using assms(8) by (cases ios; cases "tl ios") auto
  obtain L where L: "store_ok lv N fs (seg_store fl) L" "entries L = es" "unat (first_log_index (seg_store fl)) = n"
    by (rule file_log_okE [OF ok])
  let ?l = "last_log_index (seg_store fl)"
  have flush: "store_flush io (seg_store fl) = ?l" if "sync_ok io" for io
    using L(1)
  proof (cases rule: store_split)
    case (with_open C seg i xs)
    have "seg_fd seg \<noteq> None" "last_index seg = ?l"
      using store_okD(2) [OF L(1)] seg_okD(4) [of N fs seg i xs] open_last [OF L(1) [unfolded with_open(1)]] with_open(1,4) by auto
    then show ?thesis using that with_open(3) by (simp add: store_flush_def seg_flush_def)
  qed (use assms(4) in simp)
  have "0 < n" using store_okD(3) [OF L(1)] L(3) by (simp add: word_less_nat_alt)
  moreover have "0 < length es" using assms(3) by simp
  ultimately have "unat ?l \<noteq> 0" using file_log_last [OF ok] by linarith
  then have l0: "?l \<noteq> 0" by (simp add: unat_eq_0)
  let ?fl = "fl\<lparr>parallel_fsync_event := True\<rparr>"
  have batch: "fst (end_of_append_batch fl) = ?fl" using assms(5) by (simp add: end_of_append_batch_def)
  have "disk_last_durable_index (fsync_run ios ?fl) = ?l"
  proof (cases "fsync_thread fl")
    case Loop_Test
    then show ?thesis
      using ios assms(6,9) flush [of io2] l0 by (simp add: fsyncThread_def Let_def fsync_run_test)
  next
    case Event_Wait
    then show ?thesis
      using ios assms(6,9) flush [of io1] l0 by (simp add: fsyncThread_def Let_def fsync_run_blocked)
  qed (use assms(7) in simp)
  moreover have "log_fsync_mode (fsync_run ios ?fl) = FSYNC_PARALLEL"
    using fsync_run_mode [of ios ?fl] assms(5) by simp
  ultimately show ?thesis unfolding batch by (simp add: last_durable_index_def next_slot_def)
qed

theorem fsync_catches_up_witness:
  "\<exists>fs fl. log_run plain_buffers True fs fl 1 [sample_entry 1, sample_entry 2]
    \<and> last_durable_index (fsync_run [sample_io, sample_io] (fst (end_of_append_batch fl))) = 2"
proof -
  obtain fs fl where r: "log_run plain_buffers True fs fl 1 [sample_entry 1, sample_entry 2]" "next_slot fl = 3"
    and f: "open_segment (seg_store fl) \<noteq> None" "log_fsync_mode fl = FSYNC_PARALLEL" "fsync_thread fl = Loop_Test" "\<not> shutdown_called fl"
    using sample_run by blast
  have "sync_ok sample_io" by (simp add: sample_io_def)
  then show ?thesis
    using fsync_catches_up [OF plain_buffers_ok r(1) _ f(1,2,4), of "[sample_io, sample_io]"] r f(3) by auto
qed

section \<open>Reading a range\<close>

lemma getEntries_ok:
  assumes N: "buffers_ok N" and io: "open_ok io" and last_idx: "end_idx \<noteq> -1"
  shows "\<lbrakk>store_ok lv N fs st L; entries L = es; unat (first_log_index st) = n\<rbrakk> \<Longrightarrow>
    \<exists>st'. getEntries N io fs st i end_idx acc
      = Some (st', Inr (acc @ map (\<lambda>k. log_map n es (of_nat k)) [unat i..<unat end_idx + 1]))"
proof (induction "unat end_idx + 1 - unat i" arbitrary: st L i acc)
  case 0
  then have "\<not> i \<le> end_idx" by (simp add: word_le_nat_alt)
  then show ?case using 0 by (subst getEntries.simps) simp
next
  case (Suc d)
  then have le: "i \<le> end_idx" by (simp add: word_le_nat_alt)
  then have "i \<noteq> -1" using last_idx by (metis word_order.extremum_unique)
  then have u: "unat (i + 1) = unat i + 1" by (rule unat_Suc)
  obtain st1 L1 where g: "store_getEntry N io fs st i = (st1, Inr (log_map n es i))"
    and r: "store_ok lv N fs st1 L1" "entries L1 = es" "unat (first_log_index st1) = n"
    using store_get_map [OF N Suc.prems(1) io, of i] Suc.prems(2,3) by auto
  have "d = unat end_idx + 1 - unat (i + 1)" using Suc.hyps(2) u by simp
  from Suc.hyps(1) [OF this r, of "acc @ [log_map n es i]"] obtain st2 where
    e: "getEntries N io fs st1 (i + 1) end_idx (acc @ [log_map n es i])
      = Some (st2, Inr ((acc @ [log_map n es i]) @ map (\<lambda>k. log_map n es (of_nat k)) [unat (i + 1)..<unat end_idx + 1]))"
    by blast
  have "[unat i..<unat end_idx + 1] = unat i # [unat (i + 1)..<unat end_idx + 1]"
    using le u by (simp add: upt_conv_Cons word_le_nat_alt)
  then show ?case using le g e by (subst getEntries.simps) simp
qed

text \<open>
  C31. Reading a range of the segments ends: unless the end of the range is the largest 64-bit number,
  the loop of \<open>LogSegmentStore::getEntries\<close> terminates, and inside the log it returns exactly the entries of
  the range.
\<close>

theorem getEntries_terminates:
  assumes N: "buffers_ok N" and run: "log_run N lv fs fl n es" and io: "open_ok io" and last_idx: "end_idx \<noteq> -1"
  shows "\<exists>st. getEntries N io fs (seg_store fl) start end_idx []
    = Some (st, Inr (map (\<lambda>k. if n \<le> k \<and> k < n + length es then Some (es ! (k - n)) else None) [unat start..<unat end_idx + 1]))"
proof -
  obtain L where L: "store_ok lv N fs (seg_store fl) L" "entries L = es" "unat (first_log_index (seg_store fl)) = n"
    by (rule file_log_okE [OF log_run_ok [OF run N]])
  have "log_map n es (of_nat k) = (if n \<le> k \<and> k < n + length es then Some (es ! (k - n)) else None)"
    if "k \<in> set [unat start..<unat end_idx + 1]" for k
  proof -
    have "k < 2 ^ 64" using that unat_bound [of end_idx] by auto
    then show ?thesis by (simp add: log_map_def unat_of_nat64)
  qed
  then have "map (\<lambda>k. log_map n es (of_nat k)) [unat start..<unat end_idx + 1]
      = map (\<lambda>k. if n \<le> k \<and> k < n + length es then Some (es ! (k - n)) else None) [unat start..<unat end_idx + 1]"
    by (rule map_cong [OF refl])
  then show ?thesis using getEntries_ok [OF N io last_idx L, of start "[]"] by (simp only: append_Nil)
qed

theorem getEntries_terminates_witness:
  "\<exists>fs fl st. log_run plain_buffers True fs fl 1 [sample_entry 1, sample_entry 2]
    \<and> getEntries plain_buffers sample_io fs (seg_store fl) 1 2 [] = Some (st, Inr [Some (sample_entry 1), Some (sample_entry 2)])"
proof -
  obtain fs fl where r: "log_run plain_buffers True fs fl 1 [sample_entry 1, sample_entry 2]"
    using sample_run by blast
  have "[unat (1 :: uint64)..<unat (2 :: uint64) + 1] = [1, 2]" by (simp add: upt_rec)
  then show ?thesis
    using getEntries_terminates [OF plain_buffers_ok r sample_io_ok(2), of 2 1] r by auto
qed

section \<open>Where the log does not survive\<close>

lemma open_layout:
  assumes N: "buffers_ok N" and run: "log_run N lv fs fl n es" and op: "open_segment (seg_store fl) = Some seg"
  obtains C i xs where "store_ok lv N fs (seg_store fl) (C @ [(seg, i, xs)])" and "es = entries C @ xs"
    and "is_open seg" and "seg_fd seg = Some (i, file_size seg)"
proof -
  obtain L where L: "store_ok lv N fs (seg_store fl) L" "entries L = es"
    by (rule file_log_okE [OF log_run_ok [OF run N]])
  from L(1) show ?thesis
  proof (cases rule: store_split)
    case (with_open C seg' i xs)
    then have s: "seg' = seg" using op by simp
    have "seg_ok N fs seg i xs" using store_okD(2) [OF L(1)] with_open(1) s by simp
    then show ?thesis using that [of C i xs] L with_open(1,4) s seg_okD(4) by auto
  qed (use op in simp)
qed

text \<open>
  C32. A crash in the middle of an append makes the log unusable: when the last file ends in a part of
  a record, the next start fails, although the comment in \<open>NuRaftLogSegment::load\<close> says that the
  incomplete entry is cut off.
\<close>

theorem torn_record_stops_start:
  assumes N: "buffers_ok N" and run: "log_run N lv fs fl n es" and op: "open_segment (seg_store fl) = Some seg"
    and fd: "seg_fd seg = Some (i, pos)" and io: "io_ok io" and ls: "enumerates ls" and e: "entry_ok e"
    and m: "0 < m" "m < length (record_bytes N idx e)"
    and fs': "fs' = fs\<lparr>contents := (contents fs)(i := contents fs i @ take m (record_bytes N idx e))\<rparr>"
  shows "\<exists>st fl'. init N ls io fs' new_store max_size max_count = (fs', st, Inr (-1))
    \<and> new_file_log N ls io junk fs' None force_new mode interval max_size max_count = (fs', Inr fl') \<and> last_entry fl' = None"
proof -
  obtain C j xs where L: "store_ok lv N fs (seg_store fl) (C @ [(seg, j, xs)])" "is_open seg" "seg_fd seg = Some (j, file_size seg)"
    by (rule open_layout [OF N run op])
  then have "j = i" using fd by simp
  then obtain st where "init N ls io fs' new_store max_size max_count = (fs', st, Inr (-1))"
    using init_torn [OF N L(1,2) io ls e m] fs' by blast
  then show ?thesis by (auto simp: new_file_log_def getInstance_def last_entry_def)
qed

theorem torn_record_stops_start_witness:
  "\<exists>fs fl fs' st. log_run plain_buffers True fs fl 1 [sample_entry 1, sample_entry 2] \<and> dir fs' = dir fs
    \<and> init plain_buffers sorted_list_of_set sample_io fs' new_store 1000 10 = (fs', st, Inr (-1))"
proof -
  obtain fs fl seg where r: "log_run plain_buffers True fs fl 1 [sample_entry 1, sample_entry 2]"
    and op: "open_segment (seg_store fl) = Some seg"
    using sample_run by blast
  obtain i pos where fd: "seg_fd seg = Some (i, pos)" by (rule open_layout [OF plain_buffers_ok r op]) blast
  let ?b = "record_bytes plain_buffers 3 (sample_entry 3)"
  let ?fs = "fs\<lparr>contents := (contents fs)(i := contents fs i @ take 1 ?b)\<rparr>"
  have m: "0 < (1 :: nat)" "1 < length ?b" by (simp_all add: record_bytes_def header_bytes_def)
  show ?thesis
    using torn_record_stops_start [OF plain_buffers_ok r op fd sample_io_ok(1) sample_names sample_entry_ok(1) m refl, of 1000 10] r
    by (intro exI [of _ fs] exI [of _ fl] exI [of _ ?fs]) auto
qed

text \<open>
  C33. A log without entries survives one restart and not a second: the first restart leaves the file
  of the empty open segment behind and creates another one, and the next start fails because it finds
  two open segments.
\<close>

theorem second_restart_fails:
  assumes N: "buffers_ok N" and run: "log_run N lv fs fl n []" and op: "open_segment (seg_store fl) = Some seg"
    and io: "io_ok io1" "io_ok io2" and ls: "enumerates ls" and t: "clock io1 \<noteq> create_time seg"
  shows "\<exists>fs' st'. init N ls io1 fs new_store max_size max_count = (fs', st', Inr 0)
    \<and> (\<exists>st''. init N ls io2 fs' new_store max_size max_count = (fs', st'', Inr (-1)))"
proof -
  obtain C i xs where L: "store_ok lv N fs (seg_store fl) (C @ [(seg, i, xs)])" "[] = entries C @ xs" "is_open seg"
    by (rule open_layout [OF N run op])
  have "C = []"
  proof (rule ccontr)
    assume "C \<noteq> []"
    then obtain s j ys D where C: "C = (s, j, ys) # D" by (metis neq_Nil_conv prod.collapse)
    have "map fst C = segments (seg_store fl)" by (rule open_part [OF L(1,3)])
    then have "\<not> is_open s" using store_okD(6) [OF L(1)] C by (metis fst_conv list.set_intros(1) list.simps(9))
    moreover have "placed_ok lv (s, j, ys)" using store_okD(5) [OF L(1)] C by simp
    ultimately show False using L(2) C by simp
  qed
  then have "store_ok lv N fs (seg_store fl) [(seg, i, [])]" using L(1,2) by simp
  then show ?thesis by (rule restart_twice [OF N _ L(3) io ls t])
qed

theorem second_restart_fails_witness:
  "\<exists>fs fl io fs' st' st''. log_run plain_buffers True fs fl 1 []
    \<and> init plain_buffers sorted_list_of_set io fs new_store 1000 10 = (fs', st', Inr 0)
    \<and> init plain_buffers sorted_list_of_set sample_io fs' new_store 1000 10 = (fs', st'', Inr (-1))"
proof -
  obtain fs fl seg where r: "log_run plain_buffers True fs fl 1 []" and op: "open_segment (seg_store fl) = Some seg"
    using sample_start [of 1000] by auto
  let ?io = "sample_io\<lparr>clock := if create_time seg = ''1'' then ''2'' else ''1''\<rparr>"
  have "io_ok ?io" "clock ?io \<noteq> create_time seg"
    by (auto simp: sample_io_def io_ok_def writes_all_def time_ok_def is_space_def)
  then show ?thesis
    using second_restart_fails [OF plain_buffers_ok r op _ sample_io_ok(1) sample_names, of ?io 1000 10] r by blast
qed

text \<open>
  C37. Compaction loses the last entry when it is alone in its segment: compacting up to the entry
  before it sets the next index back by one and the entry, whose file is kept, reads as absent.
\<close>

theorem compact_loses_last:
  assumes N: "buffers_ok N" and run: "log_run N lv fs fl n es" and op: "open_segment (seg_store fl) = Some seg"
    and alone: "first_index seg = next_slot fl - 1" and es: "2 \<le> length es"
  shows "\<exists>fs' fl'. compact fs fl (next_slot fl - 2) = (fs', fl', True) \<and> next_slot fl' = next_slot fl - 1
    \<and> snd (entry_at N io fs' fl' (next_slot fl - 1)) = Inr None"
proof -
  let ?l = "last_log_index (seg_store fl)"
  obtain C i xs where L: "store_ok lv N fs (seg_store fl) (C @ [(seg, i, xs)])" "es = entries C @ xs"
    by (rule open_layout [OF N run op])
  have "first_index seg = ?l" using alone by (simp add: next_slot_def)
  moreover have "unat (last_index seg) + 1 = unat (first_index seg) + length xs"
    using store_okD(2) [OF L(1)] seg_okD(9) by auto
  ultimately have "length xs = 1" using open_last [OF L(1)] by simp
  then obtain e where xs: "xs = [e]" by (auto simp: length_Suc_conv)
  have C: "C \<noteq> []" "entries C \<noteq> []" using L(2) xs es by auto
  obtain fs' st' where r: "removeSegment_to fs (seg_store fl) ?l = (fs', st', 0)" "first_log_index st' = ?l" "last_log_index st' = ?l - 1"
    using compact_single [OF L(1) [unfolded xs] C] by blast
  let ?fl = "fl\<lparr>seg_store := st', queue := log_queue_clear (queue fl)\<rparr>"
  have "compact fs fl (next_slot fl - 2) = (fs', ?fl, True)" using r(1) by (simp add: compact_def next_slot_def)
  moreover have "store_getEntry N io fs' st' ?l = (st', Inr None)"
    using r(2,3) by (simp add: store_getEntry_def getSegment_def)
  ultimately show ?thesis using r(3) by (auto simp: next_slot_def entry_at_def queue_getEntry_def log_queue_clear_def)
qed

text \<open>
  An entry goes to the open segment while that is usable; a full segment is closed before the next
  entry, which then is the first of its own segment.
\<close>

lemma append_stays:
  assumes N: "buffers_ok N" and ok: "store_ok lv N fs st L" and op: "open_segment st = Some seg" and u: "usable st"
    and room: "last_log_index st \<noteq> -1" and io: "io_ok io" and e: "entry_ok e"
    and a: "store_appendEntry N io fs st (Some e) = (fs', st', r)"
  shows "\<exists>seg'. open_segment st' = Some seg' \<and> first_index seg' = first_index seg"
  using ok
proof (cases rule: store_split)
  case (with_open C s i ys)
  have s: "s = seg" using op with_open(3) by simp
  have ok1: "store_ok lv N fs st (C @ [(seg, i, ys)])" using ok with_open(1) s by simp
  have w: "writes_all io" using io by (simp add: io_ok_def)
  have "open_segment st' = Some (appended N seg i e)"
    using a u op append_open(1) [OF N ok1 op _ e w room with_open(2) refl] with_open(4) s
    by (auto simp: store_appendEntry_def openSegment_def)
  then show ?thesis by (simp add: appended_def Let_def)
qed (use op in simp)

lemma append_rolls:
  assumes N: "buffers_ok N" and ok: "store_ok lv N fs st L" and op: "open_segment st = Some seg" and u: "\<not> usable st"
    and some: "first_index seg \<le> last_log_index st" and room: "last_log_index st \<noteq> -1" and io: "io_ok io" and e: "entry_ok e"
    and a: "store_appendEntry N io fs st (Some e) = (fs', st', r)"
  shows "\<exists>seg'. open_segment st' = Some seg' \<and> first_index seg' = last_log_index st + 1"
  using ok
proof (cases rule: store_split)
  case (with_open C s i ys)
  let ?l = "last_log_index st"
  have s: "s = seg" using op with_open(3) by simp
  have ok1: "store_ok lv N fs st (C @ [(seg, i, ys)])" using ok with_open(1) s by simp
  have "unat (last_index seg) + 1 = unat (first_index seg) + length ys"
    using store_okD(2) [OF ok1] seg_okD(9) by auto
  then have ys: "ys \<noteq> []" using some open_last [OF ok1] by (auto simp: word_le_nat_alt)
  let ?fs1 = "fs\<lparr>dir := ((dir fs)(file_name seg := None))(getFinishFileName seg \<mapsto> i)\<rparr>"
  let ?st1 = "st\<lparr>segments := segments st @ [finished seg], open_segment := None\<rparr>"
  note roll = roll_ok [OF ok1 with_open(2,3,4,5) [unfolded s] ys refl]
  have none: "open_segment ?st1 = None" and room1: "last_log_index ?st1 \<noteq> -1" using room by simp_all
  note start = start_ok [OF roll(2) none io room1]
  let ?seg = "started io ?fs1 (?l + 1)" and ?st2 = "?st1\<lparr>open_segment := Some (started io ?fs1 (?l + 1))\<rparr>"
  have o: "openSegment io fs st = (started_files io ?fs1 (?l + 1), ?st2, Inr 0)"
    using u roll(1) start_result [OF io start(1)] by (simp add: openSegment_def)
  have w: "writes_all io" using io by (simp add: io_ok_def)
  have ok2: "store_ok lv N (started_files io ?fs1 (?l + 1)) ?st2 ((C @ [(finished seg, i, ys)]) @ [(?seg, next_inode ?fs1, [])])"
    using start(2) by simp
  have "open_segment st' = Some (appended N ?seg (next_inode ?fs1) e)"
    using a o append_open(1) [OF N ok2 _ _ e w _ _ refl, of "last_log_index ?st2"] room with_open(2)
    by (auto simp: store_appendEntry_def started_def new_open_segment_def)
  then show ?thesis by (simp add: appended_def Let_def started_def new_open_segment_def)
qed (use op in simp)

lemma append_log_store:
  "append_log N io fs fl e = (fs', fl', Inr k) \<Longrightarrow> store_appendEntry N io fs (seg_store fl) (Some e) = (fs', seg_store fl', Inr k)"
  by (auto simp: append_log_def split: prod.splits sum.splits)

lemma sample_rolled:
  "\<exists>fs fl seg. log_run plain_buffers True fs fl 1 [sample_entry 1, sample_entry 2] \<and> next_slot fl = 3
    \<and> open_segment (seg_store fl) = Some seg \<and> first_index seg = 2"
proof -
  note N = plain_buffers_ok and e = sample_entry_ok(1) and io = sample_io_ok(1)
  obtain fs fl seg where r: "log_run plain_buffers True fs fl 1 []" and l: "next_slot fl = 1"
    and op: "open_segment (seg_store fl) = Some seg" and m: "max_log_size (seg_store fl) = 9"
    using sample_start [of 9] by auto
  obtain C i xs where L: "store_ok True plain_buffers fs (seg_store fl) (C @ [(seg, i, xs)])" "[] = entries C @ xs" "is_open seg"
    by (rule open_layout [OF N r op])
  have sok: "seg_ok plain_buffers fs seg i xs" and f: "unat (first_index seg) = unat (first_log_index (seg_store fl)) + length (entries C)"
    using store_okD(2) [OF L(1)] by simp_all
  have "unat (first_index seg) = 1"
    using f L(2) log_run_ok [OF r N] by (auto simp: file_log_ok_def)
  then have f1: "first_index seg = 1" by (simp add: word_unat_eq_iff)
  have "open_named seg" using store_okD(5) [OF L(1)] L(3) by simp
  then have us: "usable (seg_store fl)"
    using seg_okD(6) [OF sok] L(2) op m by (simp add: usable_def open_named_def)
  obtain fs1 fl1 where a1: "append_log plain_buffers sample_io fs fl (sample_entry 1) = (fs1, fl1, Inr 1)"
    and r1: "log_run plain_buffers True fs1 fl1 1 [sample_entry 1]" and l1: "next_slot fl1 = 2"
    and m1: "max_log_size (seg_store fl1) = 9"
    using sample_append [OF r, of 1] l m by auto
  have room: "last_log_index (seg_store fl) \<noteq> -1" "last_log_index (seg_store fl1) \<noteq> -1" using l l1 by (auto simp: next_slot_def)
  obtain seg1 where op1: "open_segment (seg_store fl1) = Some seg1" and f2: "first_index seg1 = 1"
    using append_stays [OF N L(1) op us room(1) io e append_log_store [OF a1]] f1 by auto
  obtain D j ys where M: "store_ok True plain_buffers fs1 (seg_store fl1) (D @ [(seg1, j, ys)])" "[sample_entry 1] = entries D @ ys"
    by (rule open_layout [OF N r1 op1])
  have sok1: "seg_ok plain_buffers fs1 seg1 j ys" using store_okD(2) [OF M(1)] by simp
  have "last_log_index (seg_store fl1) + 1 = 1 + 1" using l1 by (simp add: next_slot_def)
  then have l2: "last_log_index (seg_store fl1) = 1" by (simp only: add_right_cancel)
  have "unat (last_index seg1) + 1 = unat (first_index seg1) + length ys" by (rule seg_okD(9) [OF sok1])
  then have "ys \<noteq> []" using f2 l2 open_last [OF M(1)] by auto
  then have "9 < file_size seg1" using seg_okD(6) [OF sok1] by (cases ys) (auto simp: HEADER_SIZE_def)
  then have "\<not> usable (seg_store fl1)" using m1 op1 by (simp add: usable_def)
  moreover obtain fs2 fl2 where a2: "append_log plain_buffers sample_io fs1 fl1 (sample_entry 2) = (fs2, fl2, Inr 2)"
    and r2: "log_run plain_buffers True fs2 fl2 1 [sample_entry 1, sample_entry 2]" "next_slot fl2 = 3"
    using sample_append [OF r1, of 2] l1 by auto
  ultimately obtain seg2 where "open_segment (seg_store fl2) = Some seg2" "first_index seg2 = 2"
    using append_rolls [OF N M(1) op1 _ _ room(2) io e append_log_store [OF a2]] f2 l2 by auto
  then show ?thesis using r2 by blast
qed

theorem compact_loses_last_witness:
  "\<exists>fs fl fs' fl'. log_run plain_buffers True fs fl 1 [sample_entry 1, sample_entry 2] \<and> next_slot fl = 3
    \<and> compact fs fl 1 = (fs', fl', True) \<and> next_slot fl' = 2
    \<and> snd (entry_at plain_buffers sample_io fs' fl' 2) = Inr None"
proof -
  obtain fs fl seg where r: "log_run plain_buffers True fs fl 1 [sample_entry 1, sample_entry 2]" "next_slot fl = 3"
    and op: "open_segment (seg_store fl) = Some seg" "first_index seg = 2"
    using sample_rolled by blast
  show ?thesis using compact_loses_last [OF plain_buffers_ok r(1) op(1), of sample_io] r op(2) by auto
qed

end
