(* ===== verification/Request_Queues.thy ===== *)
theory Request_Queues
  imports Store_Process
begin

text \<open>
  The queues between the threads: \<open>ConcurrentBoundedQueue\<close> of
  \<open>src/src/Common/ConcurrentBoundedQueue.h\<close>, \<open>ThreadSafeQueue\<close> of \<open>src/src/Service/ThreadSafeQueue.h\<close> and
  \<open>RequestsQueue\<close> of \<open>src/src/Service/RequestsQueue.h\<close>, which spreads the requests over one bounded queue
  per runner. A mutex makes each operation atomic; the model shows the queue at the moment a wait ends.
\<close>

section \<open>Bounded queues\<close>

record 'a bounded_queue =
  items :: "'a list"
  max_fill :: nat
  is_finished :: bool

definition new_bounded_queue :: "nat \<Rightarrow> 'a bounded_queue" where
  "new_bounded_queue n = \<lparr>items = [], max_fill = n, is_finished = False\<rparr>"

text \<open>\<open>None\<close>: the thread waits for ever in this state. A wait with a timeout ends with the answer false.\<close>

definition emplaceImpl :: "'a bounded_queue \<Rightarrow> bool \<Rightarrow> 'a \<Rightarrow> ('a bounded_queue \<times> bool) option" where
  "emplaceImpl q timed x =
     (if \<not> (is_finished q \<or> length (items q) < max_fill q) then (if timed then Some (q, False) else None)
      else if is_finished q then Some (q, False)
      else Some (q\<lparr>items := items q @ [x]\<rparr>, True))"

definition popImpl :: "'a bounded_queue \<Rightarrow> bool \<Rightarrow> ('a bounded_queue \<times> 'a option) option" where
  "popImpl q timed =
     (if \<not> (is_finished q \<or> items q \<noteq> []) then (if timed then Some (q, None) else None)
      else if is_finished q \<and> items q = [] then Some (q, None)
      else Some (q\<lparr>items := tl (items q)\<rparr>, Some (hd (items q))))"

text \<open>\<open>push\<close> ignores what \<open>emplaceImpl\<close> answers and always returns true.\<close>

definition bq_push :: "'a bounded_queue \<Rightarrow> 'a \<Rightarrow> ('a bounded_queue \<times> bool) option" where
  "bq_push q x = map_option (\<lambda>(q', _). (q', True)) (emplaceImpl q False x)"

definition bq_tryPush :: "'a bounded_queue \<Rightarrow> 'a \<Rightarrow> 'a bounded_queue \<times> bool" where
  "bq_tryPush q x = (case emplaceImpl q True x of None \<Rightarrow> (q, False) | Some r \<Rightarrow> r)"

definition bq_pop :: "'a bounded_queue \<Rightarrow> ('a bounded_queue \<times> 'a option) option" where
  "bq_pop q = popImpl q False"

definition bq_tryPop :: "'a bounded_queue \<Rightarrow> 'a bounded_queue \<times> 'a option" where
  "bq_tryPop q = (case popImpl q True of None \<Rightarrow> (q, None) | Some r \<Rightarrow> r)"

definition bq_peek :: "'a bounded_queue \<Rightarrow> 'a option" where
  "bq_peek q = (case items q of [] \<Rightarrow> None | x # _ \<Rightarrow> Some x)"

definition bq_size :: "'a bounded_queue \<Rightarrow> nat" where
  "bq_size q = length (items q)"

definition bq_empty :: "'a bounded_queue \<Rightarrow> bool" where
  "bq_empty q \<longleftrightarrow> items q = []"

definition bq_finish :: "'a bounded_queue \<Rightarrow> 'a bounded_queue \<times> bool" where
  "bq_finish q = (if is_finished q then (q, True) else (q\<lparr>is_finished := True\<rparr>, False))"

definition isFinishedAndEmpty :: "'a bounded_queue \<Rightarrow> bool" where
  "isFinishedAndEmpty q \<longleftrightarrow> is_finished q \<and> items q = []"

definition bq_clear :: "'a bounded_queue \<Rightarrow> 'a bounded_queue" where
  "bq_clear q = (if is_finished q then q else q\<lparr>items := []\<rparr>)"

definition clearAndFinish :: "'a bounded_queue \<Rightarrow> 'a bounded_queue" where
  "clearAndFinish q = q\<lparr>items := [], is_finished := True\<rparr>"

section \<open>The unbounded queue of responses\<close>

definition tsq_push :: "'a list \<Rightarrow> 'a \<Rightarrow> 'a list" where
  "tsq_push q x = q @ [x]"

definition tsq_tryPop :: "'a list \<Rightarrow> 'a list \<times> 'a option" where
  "tsq_tryPop q = (case q of [] \<Rightarrow> (q, None) | x # xs \<Rightarrow> (xs, Some x))"

definition tsq_peek :: "'a list \<Rightarrow> 'a option" where
  "tsq_peek q = (case q of [] \<Rightarrow> None | x # _ \<Rightarrow> Some x)"

definition tsq_remove :: "'a list \<Rightarrow> 'a list \<times> bool" where
  "tsq_remove q = (case q of [] \<Rightarrow> (q, False) | _ # xs \<Rightarrow> (xs, True))"

fun tsq_forEach :: "('a \<Rightarrow> 's \<Rightarrow> 's \<times> bool) \<Rightarrow> 'a list \<Rightarrow> 's \<Rightarrow> 's" where
  "tsq_forEach f [] s = s"
| "tsq_forEach f (x # xs) s = (case f x s of (s1, go) \<Rightarrow> if go then tsq_forEach f xs s1 else s1)"

section \<open>The contract of a queue\<close>

text \<open>What the threads at both ends rely on: elements leave in the order in which they came.\<close>

locale fifo =
  fixes contents_of :: "'q \<Rightarrow> 'a list"
    and enqueue :: "'q \<Rightarrow> 'a \<Rightarrow> 'q \<times> bool"
    and dequeue :: "'q \<Rightarrow> 'q \<times> 'a option"
  assumes enqueue_ok: "enqueue q x = (q', b) \<Longrightarrow> contents_of q' = (if b then contents_of q @ [x] else contents_of q)"
    and dequeue_ok: "dequeue q = (q', r) \<Longrightarrow>
      (case contents_of q of [] \<Rightarrow> r = None \<and> contents_of q' = [] | x # xs \<Rightarrow> r = Some x \<and> contents_of q' = xs)"
begin

fun drain :: "nat \<Rightarrow> 'q \<Rightarrow> 'q \<times> 'a list" where
  "drain 0 q = (q, [])"
| "drain (Suc n) q =
     (case dequeue q of
        (q1, None) \<Rightarrow> drain n q1
      | (q1, Some x) \<Rightarrow> (case drain n q1 of (q2, xs) \<Rightarrow> (q2, x # xs)))"

lemma drain_ok: "drain n q = (q', xs) \<Longrightarrow> xs = take n (contents_of q) \<and> contents_of q' = drop n (contents_of q)"
proof (induction n arbitrary: q q' xs)
  case (Suc n)
  obtain q1 r where d: "dequeue q = (q1, r)" by fastforce
  show ?case
  proof (cases "contents_of q")
    case Nil
    then have "r = None" "contents_of q1 = []" using dequeue_ok [OF d] by simp_all
    then show ?thesis using Suc.prems Suc.IH [of q1 q' xs] d Nil by simp
  next
    case (Cons y ys)
    then have r: "r = Some y" "contents_of q1 = ys" using dequeue_ok [OF d] by simp_all
    obtain q2 zs where z: "drain n q1 = (q2, zs)" by fastforce
    then show ?thesis using Suc.prems Suc.IH [OF z] d r Cons by simp
  qed
qed simp

end

interpretation bounded: fifo items bq_tryPush bq_tryPop
  by unfold_locales
    (auto simp: bq_tryPush_def bq_tryPop_def emplaceImpl_def popImpl_def split: list.splits if_splits)

interpretation unbounded: fifo "\<lambda>q. q" "\<lambda>q x. (tsq_push q x, True)" tsq_tryPop
  by unfold_locales (auto simp: tsq_push_def tsq_tryPop_def split: list.splits)

text \<open>A bounded queue never holds more than its capacity.\<close>

lemma bounded_push:
  "length (items q) \<le> max_fill q \<Longrightarrow> bq_tryPush q x = (q', b) \<Longrightarrow> length (items q') \<le> max_fill q' \<and> max_fill q' = max_fill q"
  by (auto simp: bq_tryPush_def emplaceImpl_def split: if_splits)

section \<open>Requests spread over runners\<close>

record RequestForSession =
  rs_session_id :: int64
  rs_request :: request
  rs_create_time :: int64
  rs_server_id :: int32
  rs_client_id :: int32

definition isForwardRequest :: "RequestForSession \<Rightarrow> bool" where
  "isForwardRequest r \<longleftrightarrow> -1 <s rs_server_id r \<and> -1 <s rs_client_id r"

type_synonym requests_queue = "RequestForSession bounded_queue list"

definition new_requests_queue :: "nat \<Rightarrow> nat \<Rightarrow> requests_queue" where
  "new_requests_queue child_queue_size capacity =
     replicate child_queue_size (new_bounded_queue (max 1 (capacity div child_queue_size)))"

text \<open>The signed session id is converted to \<open>size_t\<close> before the remainder is taken.\<close>

definition runner_of :: "nat \<Rightarrow> int64 \<Rightarrow> nat" where
  "runner_of n session_id = unat session_id mod n"

definition rq_push :: "requests_queue \<Rightarrow> RequestForSession \<Rightarrow> (requests_queue \<times> bool) option" where
  "rq_push qs r =
     (let k = runner_of (length qs) (rs_session_id r)
      in map_option (\<lambda>(q, b). (qs[k := q], b)) (bq_push (qs ! k) r))"

definition rq_tryPush :: "requests_queue \<Rightarrow> RequestForSession \<Rightarrow> requests_queue \<times> bool" where
  "rq_tryPush qs r =
     (let k = runner_of (length qs) (rs_session_id r)
      in case bq_tryPush (qs ! k) r of (q, b) \<Rightarrow> (qs[k := q], b))"

definition rq_tryPop :: "requests_queue \<Rightarrow> nat \<Rightarrow> requests_queue \<times> RequestForSession option" where
  "rq_tryPop qs k = (case bq_tryPop (qs ! k) of (q, r) \<Rightarrow> (qs[k := q], r))"

fun tryPopAny_from :: "nat list \<Rightarrow> requests_queue \<Rightarrow> requests_queue \<times> RequestForSession option" where
  "tryPopAny_from [] qs = (qs, None)"
| "tryPopAny_from (k # ks) qs =
     (case rq_tryPop qs k of (qs1, Some r) \<Rightarrow> (qs1, Some r) | (qs1, None) \<Rightarrow> tryPopAny_from ks qs1)"

definition rq_tryPopAny :: "requests_queue \<Rightarrow> requests_queue \<times> RequestForSession option" where
  "rq_tryPopAny qs = tryPopAny_from [0..<length qs] qs"

definition rq_size :: "requests_queue \<Rightarrow> nat" where
  "rq_size qs = sum_list (map bq_size qs)"

definition rq_size_at :: "requests_queue \<Rightarrow> nat \<Rightarrow> nat" where
  "rq_size_at qs k = bq_size (qs ! k)"

definition rq_empty :: "requests_queue \<Rightarrow> bool" where
  "rq_empty qs \<longleftrightarrow> rq_size qs = 0"

end
