(* ===== verification/Request_Processor.thy ===== *)
theory Request_Processor
  imports Request_Queues
begin

text \<open>
  \<open>src/src/Service/RequestProcessor.cpp\<close>: the requests of local sessions wait per session until their
  turn; reads are answered by several runners, writes are applied when Raft has committed them. The
  operations that apply requests also return them, in the order of their application.
\<close>

section \<open>State\<close>

text \<open>
  What the processor sees of the rest of the server while it runs: the sessions of this server, whether
  there is a leader, the number of \<open>nuraft::cmd_result_code::TIMEOUT\<close>, the clock, the surroundings of the
  store and the iteration order of the map of errors.
\<close>

record surroundings =
  local_session :: "int64 \<Rightarrow> bool"
  leader_alive :: bool
  timeout_code :: int32
  wall_clock :: int64
  store_env :: env
  error_order :: "(int64 \<times> uint64) set \<Rightarrow> (int64 \<times> uint64) list"

record ErrorRequest =
  er_accepted :: bool
  er_error_code :: int32
  er_session_id :: int64
  er_xid :: int32
  er_opnum :: OpNum

record processor =
  p_shutdown :: bool
  p_requests :: requests_queue
  p_pending :: "nat \<Rightarrow> (int64 \<rightharpoonup> RequestForSession list)"
  p_committed :: "RequestForSession bounded_queue"
  p_errors :: "int64 \<times> uint64 \<rightharpoonup> ErrorRequest"
  p_runner_count :: nat
  p_responses :: "ResponseForSession list"
  p_store :: KeeperStore

text \<open>\<open>initialize\<close>.\<close>

definition new_processor :: "nat \<Rightarrow> KeeperStore \<Rightarrow> processor" where
  "new_processor thread_count s =
     \<lparr>p_shutdown = False, p_requests = new_requests_queue thread_count 20000, p_pending = (\<lambda>_. Map.empty),
      p_committed = new_bounded_queue 1000, p_errors = Map.empty, p_runner_count = thread_count,
      p_responses = [], p_store = s\<rparr>"

definition getRunnerId :: "processor \<Rightarrow> int64 \<Rightarrow> nat" where
  "getRunnerId p session_id = runner_of (p_runner_count p) session_id"

definition error_key :: "int64 \<Rightarrow> int32 \<Rightarrow> int64 \<times> uint64" where
  "error_key session_id xid = (session_id, scast xid)"

section \<open>Requests that arrive\<close>

text \<open>\<open>None\<close>: the caller waits because the queue is full.\<close>

definition proc_push :: "processor \<Rightarrow> RequestForSession \<Rightarrow> processor option" where
  "proc_push p r =
     (if p_shutdown p then Some p
      else map_option (\<lambda>(qs, _). p\<lparr>p_requests := qs\<rparr>) (rq_push (p_requests p) r))"

definition proc_commit :: "processor \<Rightarrow> RequestForSession \<Rightarrow> processor option" where
  "proc_commit p r =
     (if p_shutdown p then Some p
      else map_option (\<lambda>(q, _). p\<lparr>p_committed := q\<rparr>) (bq_push (p_committed p) r))"

definition onError :: "processor \<Rightarrow> bool \<Rightarrow> int32 \<Rightarrow> int64 \<Rightarrow> int32 \<Rightarrow> OpNum \<Rightarrow> processor" where
  "onError p accepted code session_id xid opnum =
     (if p_shutdown p then p
      else case p_errors p (error_key session_id xid) of
             Some _ \<Rightarrow> p
           | None \<Rightarrow>
               p\<lparr>p_errors := (p_errors p)(error_key session_id xid \<mapsto>
                   \<lparr>er_accepted = accepted, er_error_code = code, er_session_id = session_id,
                    er_xid = xid, er_opnum = opnum\<rparr>)\<rparr>)"

section \<open>Applying a request\<close>

definition error_response :: "RequestForSession \<Rightarrow> Error \<Rightarrow> ResponseForSession" where
  "error_response r err =
     (rs_session_id r,
      Response err (req_xid (rs_request r)) 0 (rs_create_time r) (resp_body (makeResponse (rs_request r))))"

text \<open>An exception of the store is logged; the responses it pushed before stay.\<close>

definition applyRequest ::
    "surroundings \<Rightarrow> RequestForSession \<Rightarrow> KeeperStore \<times> ResponseForSession list \<Rightarrow> KeeperStore \<times> ResponseForSession list" where
  "applyRequest W r = (\<lambda>(s, responses).
     if \<not> leader_alive W \<and> isReadRequest (rs_request r)
     then (s, tsq_push responses (error_response r ZCONNECTIONLOSS))
     else case processRequest (store_env W) s (rs_request r) (rs_session_id r) (rs_create_time r) None True False of
            (s1, rs, _) \<Rightarrow> (s1, responses @ rs))"

definition apply_all :: "surroundings \<Rightarrow> RequestForSession list \<Rightarrow> processor \<Rightarrow> processor" where
  "apply_all W rs p =
     (case fold (applyRequest W) rs (p_store p, p_responses p) of (s, resps) \<Rightarrow> p\<lparr>p_store := s, p_responses := resps\<rparr>)"

section \<open>Errors\<close>

fun find_error :: "uint64 \<Rightarrow> OpNum \<Rightarrow> RequestForSession list \<Rightarrow> RequestForSession option \<times> RequestForSession list" where
  "find_error xid opnum [] = (None, [])"
| "find_error xid opnum (r # rs) =
     (if scast (req_xid (rs_request r)) < xid then (None, r # rs)
      else if scast (req_xid (rs_request r)) = xid \<or> (getOpNum (rs_request r) = Op_Close \<and> opnum = Op_Close)
      then (Some r, rs)
      else case find_error xid opnum rs of (found, rs1) \<Rightarrow> (found, r # rs1))"

definition auth_error_request :: "surroundings \<Rightarrow> int64 \<Rightarrow> RequestForSession" where
  "auth_error_request W session_id =
     \<lparr>rs_session_id = session_id, rs_request = Request 0 False (AuthRequest 0 [] []), rs_create_time = wall_clock W,
      rs_server_id = -1, rs_client_id = -1\<rparr>"

definition set_pending :: "processor \<Rightarrow> nat \<Rightarrow> (int64 \<rightharpoonup> RequestForSession list) \<Rightarrow> processor" where
  "set_pending p k m = p\<lparr>p_pending := (p_pending p)(k := m)\<rparr>"

text \<open>The pending request an error belongs to, with what stays pending.\<close>

definition match_error ::
    "surroundings \<Rightarrow> (int64 \<rightharpoonup> RequestForSession list) \<Rightarrow> int64 \<Rightarrow> uint64 \<Rightarrow> OpNum
      \<Rightarrow> RequestForSession option \<times> (int64 \<rightharpoonup> RequestForSession list)" where
  "match_error W pending session_id xid opnum =
     (if ucast xid = AUTH_XID then (Some (auth_error_request W session_id), pending)
      else case pending session_id of
             None \<Rightarrow> (None, pending)
           | Some rs \<Rightarrow> (case find_error xid opnum rs of (found, rs1) \<Rightarrow> (found, pending(session_id \<mapsto> rs1))))"

text \<open>One round of the loop over the errors; the last component tells whether the loop goes on.\<close>

definition error_one :: "surroundings \<Rightarrow> processor \<Rightarrow> int64 \<times> uint64 \<Rightarrow> processor \<times> bool" where
  "error_one W p key =
     (let (session_id, xid) = key; k = getRunnerId p session_id
      in case p_errors p key of
           None \<Rightarrow> (p, True)
         | Some er \<Rightarrow>
             if \<not> local_session W session_id
             then ((set_pending p k ((p_pending p k)(session_id := None)))\<lparr>p_errors := (p_errors p)(key := None)\<rparr>, True)
             else
               (case match_error W (p_pending p k) session_id xid (er_opnum er) of
                  (None, _) \<Rightarrow> (p, False)
                | (Some r, pending) \<Rightarrow>
                    let err = (if er_error_code er = timeout_code W then ZOPERATIONTIMEOUT else ZCONNECTIONLOSS)
                    in ((set_pending p k pending)
                          \<lparr>p_errors := (p_errors p)(key := None),
                           p_responses := tsq_push (p_responses p) (session_id, snd (error_response r err))\<rparr>, True)))"

fun process_errors :: "surroundings \<Rightarrow> (int64 \<times> uint64) list \<Rightarrow> processor \<Rightarrow> processor" where
  "process_errors W [] p = p"
| "process_errors W (key # keys) p =
     (case error_one W p key of (p1, go) \<Rightarrow> if go then process_errors W keys p1 else p1)"

definition processErrorRequest :: "surroundings \<Rightarrow> processor \<Rightarrow> processor" where
  "processErrorRequest W p = process_errors W (error_order W (dom (p_errors p))) p"

section \<open>Reads\<close>

text \<open>\<open>operator[]\<close> of the map: a session without an entry has no pending requests.\<close>

definition pending_list :: "(int64 \<rightharpoonup> RequestForSession list) \<Rightarrow> int64 \<Rightarrow> RequestForSession list" where
  "pending_list m session_id = (case m session_id of None \<Rightarrow> [] | Some rs \<Rightarrow> rs)"

definition push_pending :: "RequestForSession \<Rightarrow> (int64 \<rightharpoonup> RequestForSession list) \<Rightarrow> (int64 \<rightharpoonup> RequestForSession list)" where
  "push_pending r m =
     m(rs_session_id r \<mapsto> pending_list m (rs_session_id r) @ [r])"

fun move_loop :: "nat \<Rightarrow> nat \<Rightarrow> processor \<Rightarrow> processor" where
  "move_loop 0 k p = p"
| "move_loop (Suc n) k p =
     (case rq_tryPop (p_requests p) k of
        (qs, None) \<Rightarrow> move_loop n k (p\<lparr>p_requests := qs\<rparr>)
      | (qs, Some r) \<Rightarrow>
          move_loop n k
            (if getOpNum (rs_request r) \<noteq> Op_Auth
             then set_pending (p\<lparr>p_requests := qs\<rparr>) k (push_pending r (p_pending p k))
             else p\<lparr>p_requests := qs\<rparr>))"

definition moveRequestToPendingQueue :: "processor \<Rightarrow> nat \<Rightarrow> processor" where
  "moveRequestToPendingQueue p runner_id = move_loop (rq_size_at (p_requests p) runner_id) runner_id p"

definition reads_of :: "RequestForSession list \<Rightarrow> RequestForSession list" where
  "reads_of rs = takeWhile (\<lambda>r. isReadRequest (rs_request r)) rs"

definition after_reads :: "RequestForSession list \<Rightarrow> RequestForSession list" where
  "after_reads rs = dropWhile (\<lambda>r. isReadRequest (rs_request r)) rs"

fun read_sessions ::
    "int64 list \<Rightarrow> (int64 \<rightharpoonup> RequestForSession list) \<Rightarrow> (int64 \<rightharpoonup> RequestForSession list) \<times> RequestForSession list" where
  "read_sessions [] m = (m, [])"
| "read_sessions (sid # sids) m =
     (case m sid of
        None \<Rightarrow> read_sessions sids m
      | Some rs \<Rightarrow>
          (case read_sessions sids (m(sid := (if after_reads rs = [] then None else Some (after_reads rs)))) of
             (m1, applied) \<Rightarrow> (m1, reads_of rs @ applied)))"

definition processReadRequests :: "surroundings \<Rightarrow> processor \<Rightarrow> nat \<Rightarrow> processor \<times> RequestForSession list" where
  "processReadRequests W p runner_id =
     (case read_sessions (sid_order (store_env W) (dom (p_pending p runner_id))) (p_pending p runner_id) of
        (m, applied) \<Rightarrow> (apply_all W applied (set_pending p runner_id m), applied))"

section \<open>Committed requests\<close>

fun drop_through :: "RequestForSession \<Rightarrow> RequestForSession list \<Rightarrow> RequestForSession list" where
  "drop_through c [] = []"
| "drop_through c (r # rs) =
     (if req_xid (rs_request r) = req_xid (rs_request c)
        \<or> (getOpNum (rs_request r) = Op_Close \<and> getOpNum (rs_request c) = Op_Close)
      then rs else drop_through c rs)"

text \<open>
  Whether the committed request has to wait: the loop over the pending requests of its session leaves
  in its first round, so only the first pending request decides.
\<close>

definition must_wait :: "processor \<Rightarrow> RequestForSession \<Rightarrow> RequestForSession list \<Rightarrow> bool" where
  "must_wait p c pending =
     (case pending of
        [] \<Rightarrow> False
      | r # _ \<Rightarrow>
          if req_xid (rs_request r) = req_xid (rs_request c) then False
          else if isReadRequest (rs_request r) then True
          else if getOpNum (rs_request r) = Op_Close \<and> getOpNum (rs_request c) = Op_Close then False
          else p_errors p (error_key (rs_session_id r) (req_xid (rs_request r))) \<noteq> None)"

text \<open>One round of the loop; the last component tells whether the loop goes on.\<close>

definition commit_one :: "surroundings \<Rightarrow> processor \<Rightarrow> processor \<times> RequestForSession list \<times> bool" where
  "commit_one W p =
     (case bq_peek (p_committed p) of
        None \<Rightarrow> (p, [], True)
      | Some c \<Rightarrow>
          let k = getRunnerId p (rs_session_id c);
              pending = p_pending p k;
              popped = fst (bq_tryPop (p_committed p))
          in if \<not> local_session W (rs_session_id c) \<or> getOpNum (rs_request c) = Op_Auth
             then (apply_all W [c] ((set_pending p k (pending(rs_session_id c := None)))\<lparr>p_committed := popped\<rparr>), [c], True)
             else
               let rs = pending_list pending (rs_session_id c)
               in if must_wait p c rs then (p, [], False)
                  else
                    let rs1 = drop_through c rs
                    in (apply_all W [c]
                          ((set_pending p k (pending(rs_session_id c := (if rs1 = [] then None else Some rs1))))
                             \<lparr>p_committed := popped\<rparr>), [c], True))"

fun processCommittedRequest :: "surroundings \<Rightarrow> processor \<Rightarrow> nat \<Rightarrow> processor \<times> RequestForSession list" where
  "processCommittedRequest W p 0 = (p, [])"
| "processCommittedRequest W p (Suc n) =
     (case commit_one W p of
        (p1, applied, False) \<Rightarrow> (p1, applied)
      | (p1, applied, True) \<Rightarrow>
          (case processCommittedRequest W p1 n of (p2, applied2) \<Rightarrow> (p2, applied @ applied2)))"

section \<open>Shutdown\<close>

lemma rq_tryPop_size:
  assumes "rq_tryPop qs k = (qs', r)" and "k < length qs"
  shows "length qs' = length qs" and "rq_size qs = rq_size qs' + (if r = None then 0 else 1)"
proof -
  obtain q where q: "bq_tryPop (qs ! k) = (q, r)" "qs' = qs[k := q]"
    using assms(1) by (auto simp: rq_tryPop_def split: prod.splits)
  then show "length qs' = length qs" by simp
  have "bq_size (qs ! k) = bq_size q + (if r = None then 0 else 1)"
    using q(1) by (auto simp: bq_tryPop_def popImpl_def bq_size_def split: if_splits)
  then show "rq_size qs = rq_size qs' + (if r = None then 0 else 1)"
    using assms(2) q(2) sum_list_update [of k "map bq_size qs" "bq_size q"]
      elem_le_sum_list [of k "map bq_size qs"] by (simp add: rq_size_def map_update)
qed

lemma tryPopAny_from_size:
  "\<lbrakk>tryPopAny_from ks qs = (qs', Some r); \<forall>k\<in>set ks. k < length qs\<rbrakk> \<Longrightarrow> rq_size qs' < rq_size qs"
proof (induction ks arbitrary: qs)
  case (Cons k ks)
  obtain qs1 r1 where p: "rq_tryPop qs k = (qs1, r1)" by fastforce
  note sz = rq_tryPop_size [OF p]
  show ?case
  proof (cases r1)
    case None
    then have "rq_size qs' < rq_size qs1" using Cons p sz(1) by (intro Cons.IH) simp_all
    then show ?thesis using sz(2) Cons.prems(2) None by simp
  qed (use Cons.prems p sz(2) in auto)
qed simp

function answer_queue :: "processor \<Rightarrow> processor" where
  "answer_queue p =
     (case rq_tryPopAny (p_requests p) of
        (qs, None) \<Rightarrow> p\<lparr>p_requests := qs\<rparr>
      | (qs, Some r) \<Rightarrow>
          answer_queue
            (p\<lparr>p_requests := qs, p_responses := tsq_push (p_responses p) (error_response r ZSESSIONEXPIRED)\<rparr>))"
  by pat_completeness auto
termination
proof (relation "measure (\<lambda>p. rq_size (p_requests p))", goal_cases)
  case (2 p qs x r)
  then have "tryPopAny_from [0..<length (p_requests p)] (p_requests p) = (qs, Some r)" by (simp add: rq_tryPopAny_def)
  then show ?case using tryPopAny_from_size by fastforce
qed simp

declare answer_queue.simps [simp del]

text \<open>\<open>shutdown\<close> after the main thread has ended: requests that were not yet pending are answered.\<close>

definition proc_shutdown :: "processor \<Rightarrow> processor" where
  "proc_shutdown p = (if p_shutdown p then p else answer_queue (p\<lparr>p_shutdown := True\<rparr>))"

section \<open>The main loop\<close>

text \<open>
  Where the main thread is: before a round; in the parallel part, with the number of committed
  requests it counted, the runners that have not moved their requests yet and those that have not
  read yet; in the loop over the committed requests, with the number that is left.
\<close>

datatype proc_phase = Round_Start | Reading nat "nat set" "nat set" | Committing nat

inductive main_step ::
    "surroundings \<Rightarrow> proc_phase \<times> processor \<Rightarrow> RequestForSession list \<Rightarrow> proc_phase \<times> processor \<Rightarrow> bool" for W where
  errors: "\<lbrakk>\<not> p_shutdown p; p' = processErrorRequest W p\<rbrakk>
    \<Longrightarrow> main_step W (Round_Start, p) [] (Reading (bq_size (p_committed p')) {0..<p_runner_count p'} {}, p')"
| move: "k \<in> R \<Longrightarrow> main_step W (Reading n R M, p) [] (Reading n (R - {k}) (insert k M), moveRequestToPendingQueue p k)"
| reads: "\<lbrakk>k \<in> M; processReadRequests W p k = (p', applied)\<rbrakk>
    \<Longrightarrow> main_step W (Reading n R M, p) applied (Reading n R (M - {k}), p')"
| reads_done: "main_step W (Reading n {} {}, p) [] (Committing n, p)"
| commit: "commit_one W p = (p', applied, go)
    \<Longrightarrow> main_step W (Committing (Suc n), p) applied (if go then Committing n else Round_Start, p')"
| round_done: "main_step W (Committing 0, p) [] (Round_Start, p)"

inductive_cases main_stepE: "main_step W c applied c'"

end
