(* ===== verification/State_Machine.thy ===== *)
theory State_Machine
  imports Request_Processor Wire_Requests File_Log_Store
begin

text \<open>
  \<open>src/src/Service/NuRaftStateMachine.cpp\<close>: the bytes of a log entry, the commit of an entry by NuRaft,
  the replay of the log at start, and the file in which \<open>RaftTaskManager\<close> records the last committed
  index. The store and the queue of responses are shared with the request processor and are found in its
  record. Snapshots are treated in the theories of the snapshot store.
\<close>

section \<open>Entries of the Raft log\<close>

text \<open>\<open>readIntBinary\<close> and \<open>writeIntBinary\<close> copy the memory of the integer.\<close>

definition read_pod64 :: "int64 reader" where
  "read_pod64 = rbind (readStrict 8) (\<lambda>b. rreturn (pod_word b))"

definition getZooKeeperLogEntry :: "int64 \<Rightarrow> int64 \<Rightarrow> request \<Rightarrow> string" where
  "getZooKeeperLogEntry session_id time req = pod_bytes session_id @ request_write req @ write_int64 time"

definition serializeRequest :: "RequestForSession \<Rightarrow> string" where
  "serializeRequest r = pod_bytes (rs_session_id r) @ request_write (rs_request r) @ write_int64 (rs_create_time r)"

definition local_request :: "int64 \<Rightarrow> request \<Rightarrow> int64 \<Rightarrow> RequestForSession" where
  "local_request session_id req time =
     \<lparr>rs_session_id = session_id, rs_request = req, rs_create_time = time, rs_server_id = -1, rs_client_id = -1\<rparr>"

text \<open>The end of an entry: entries of older versions have no time, and get the current one.\<close>

definition read_create_time :: "int64 \<Rightarrow> int64 reader" where
  "read_create_time now = (\<lambda>rest. if rest \<noteq> [] then read_int64 rest else rreturn now rest)"

definition parseRequest :: "int64 \<Rightarrow> string \<Rightarrow> exc + RequestForSession" where
  "parseRequest now data_bytes =
     (case rbind read_pod64 (\<lambda>session_id. rbind read_int32 (\<lambda>_. rbind request_read (\<lambda>req.
             rbind (read_create_time now) (\<lambda>time. rreturn (local_request session_id req time))))) data_bytes of
        Inl e \<Rightarrow> Inl e
      | Inr (r, _) \<Rightarrow> Inr r)"

definition createRequestSession :: "nuraft \<Rightarrow> int64 \<Rightarrow> log_entry \<Rightarrow> exc + RequestForSession option" where
  "createRequestSession N now entry =
     (if le_type entry \<noteq> app_log N then Inr None
      else
        case rbind read_pod64 (\<lambda>session_id rest.
               if rest = [] then rreturn None rest
               else rbind read_int32 (\<lambda>len.
                 if len <=s 0 then rreturn None
                 else rbind request_read (\<lambda>req. rbind (read_create_time now) (\<lambda>time.
                   rreturn (Some (local_request session_id req time))))) rest) (le_buf entry) of
          Inl e \<Rightarrow> Inl e
        | Inr (r, _) \<Rightarrow> Inr r)"

definition isNewSessionRequest :: "string \<Rightarrow> bool" where
  "isNewSessionRequest data_bytes \<longleftrightarrow> length data_bytes = 8"

definition isUpdateSessionRequest :: "string \<Rightarrow> bool" where
  "isUpdateSessionRequest data_bytes \<longleftrightarrow> length data_bytes = 16"

section \<open>The committed index on disk\<close>

text \<open>
  \<open>RaftTaskManager\<close>: a queue of committed indexes and a thread that writes one of them per batch to
  the file, the last of the queue or the thousandth. \<open>tm_batch\<close> is the variable \<open>batchSize\<close> of the thread.
\<close>

record task_manager =
  tm_queue :: "uint64 list"
  tm_file :: string
  tm_batch :: nat
  tm_shut_down :: bool

definition new_task_manager :: "string \<Rightarrow> task_manager" where
  "new_task_manager file = \<lparr>tm_queue = [], tm_file = file, tm_batch = 0, tm_shut_down = False\<rparr>"

text \<open>\<open>CommittedTask::write\<close> when \<open>writev\<close> writes the first \<open>k\<close> bytes of the index.\<close>

definition task_write :: "nat \<Rightarrow> uint64 \<Rightarrow> string \<Rightarrow> string" where
  "task_write k index file = take k (pod_bytes index) @ drop (min k 8) file"

definition task_read :: "(string \<Rightarrow> uint64) \<Rightarrow> string \<Rightarrow> uint64 option" where
  "task_read get_ulong file = (if length file < 8 then None else Some (get_ulong (take 8 file)))"

definition getLastCommitted :: "(string \<Rightarrow> uint64) \<Rightarrow> task_manager \<Rightarrow> uint64 \<Rightarrow> uint64" where
  "getLastCommitted get_ulong tm index = (case task_read get_ulong (tm_file tm) of None \<Rightarrow> index | Some i \<Rightarrow> i)"

definition afterCommitted :: "task_manager \<Rightarrow> uint64 \<Rightarrow> task_manager" where
  "afterCommitted tm index = tm\<lparr>tm_queue := tsq_push (tm_queue tm) index\<rparr>"

text \<open>One \<open>tryPop\<close> of the thread and what follows it; \<open>k\<close> bytes are written.\<close>

definition task_step :: "nat \<Rightarrow> task_manager \<Rightarrow> task_manager" where
  "task_step k tm =
     (if tm_shut_down tm then tm
      else case tsq_tryPop (tm_queue tm) of
             (_, None) \<Rightarrow> tm\<lparr>tm_batch := 0\<rparr>
           | (q, Some index) \<Rightarrow>
               if q = [] \<or> tm_batch tm + 1 = 1000
               then tm\<lparr>tm_queue := q, tm_file := task_write k index (tm_file tm), tm_batch := 0\<rparr>
               else tm\<lparr>tm_queue := q, tm_batch := tm_batch tm + 1\<rparr>)"

definition task_shutDown :: "task_manager \<Rightarrow> task_manager" where
  "task_shutDown tm = tm\<lparr>tm_shut_down := True\<rparr>"

section \<open>State\<close>

text \<open>
  What commits use of NuRaft: \<open>buffer_serializer::get_i64\<close> at a position, \<open>buffer::get_ulong\<close> at the
  start, and the bytes of \<open>put_i64\<close> and \<open>put_i8\<close>. All of them are little endian.
\<close>

record sm_buffers =
  sm_get_i64 :: "string \<Rightarrow> nat \<Rightarrow> int64"
  sm_get_ulong :: "string \<Rightarrow> uint64"
  sm_put_i64 :: "int64 \<Rightarrow> string"
  sm_put_i8 :: "int8 \<Rightarrow> string"

definition sm_buffers_ok :: "sm_buffers \<Rightarrow> bool" where
  "sm_buffers_ok R \<longleftrightarrow>
     (\<forall>b pos. pos + 8 \<le> length b \<longrightarrow> sm_get_i64 R b pos = pod_word (take 8 (drop pos b)))
   \<and> (\<forall>b. 8 \<le> length b \<longrightarrow> sm_get_ulong R b = pod_word (take 8 b))
   \<and> (\<forall>x. sm_put_i64 R x = pod_bytes x) \<and> (\<forall>x. sm_put_i8 R x = pod_bytes x)"

definition plain_sm_buffers :: sm_buffers where
  "plain_sm_buffers =
     \<lparr>sm_get_i64 = (\<lambda>b pos. pod_word (take 8 (drop pos b))), sm_get_ulong = (\<lambda>b. pod_word (take 8 b)),
      sm_put_i64 = pod_bytes, sm_put_i8 = pod_bytes\<rparr>"

lemma plain_sm_buffers_ok: "sm_buffers_ok plain_sm_buffers"
  by (simp add: sm_buffers_ok_def plain_sm_buffers_def)

text \<open>A waiting client of a session is an entry of \<open>new_session_id_callback\<close>, true once it is notified.\<close>

record state_machine =
  sm_processor :: processor
  with_processor :: bool
  last_committed_idx :: uint64
  sm_task_manager :: task_manager
  new_session_id_callback :: "int64 \<rightharpoonup> bool"
  sm_shutdown :: bool

abbreviation sm_store :: "state_machine \<Rightarrow> KeeperStore" where
  "sm_store sm \<equiv> p_store (sm_processor sm)"

definition set_sm_store :: "KeeperStore \<Rightarrow> state_machine \<Rightarrow> state_machine" where
  "set_sm_store s sm = sm\<lparr>sm_processor := (sm_processor sm)\<lparr>p_store := s\<rparr>\<rparr>"

definition after_commit :: "uint64 \<Rightarrow> state_machine \<Rightarrow> state_machine" where
  "after_commit log_idx sm =
     sm\<lparr>last_committed_idx := log_idx, sm_task_manager := afterCommitted (sm_task_manager sm) log_idx\<rparr>"

definition notify_session :: "int64 \<Rightarrow> state_machine \<Rightarrow> state_machine" where
  "notify_session session_id sm =
     (if session_id \<in> dom (new_session_id_callback sm)
      then sm\<lparr>new_session_id_callback := (new_session_id_callback sm)(session_id \<mapsto> True)\<rparr> else sm)"

section \<open>Commit\<close>

definition commit_new_session ::
    "sm_buffers \<Rightarrow> env \<Rightarrow> state_machine \<Rightarrow> uint64 \<Rightarrow> string \<Rightarrow> state_machine \<times> (exc + string option)" where
  "commit_new_session R E sm log_idx data_bytes =
     (case getSessionID E (sm_store sm) (sm_get_i64 R data_bytes 0) of
        Inl e \<Rightarrow> (sm, Inl e)
      | Inr (s, session_id) \<Rightarrow>
          (notify_session session_id (after_commit log_idx (set_sm_store s sm)), Inr (Some (sm_put_i64 R session_id))))"

definition commit_update_session ::
    "sm_buffers \<Rightarrow> env \<Rightarrow> state_machine \<Rightarrow> uint64 \<Rightarrow> string \<Rightarrow> state_machine \<times> (exc + string option)" where
  "commit_update_session R E sm log_idx data_bytes =
     (let session_id = sm_get_i64 R data_bytes 0
      in case updateSessionTimeout E (sm_store sm) session_id of
           Inl e \<Rightarrow> (sm, Inl e)
         | Inr (s, is_success) \<Rightarrow>
             (notify_session session_id (after_commit log_idx (set_sm_store s sm)),
              Inr (Some (sm_put_i8 R (if is_success then 1 else 0)))))"

text \<open>\<open>None\<close>: the commit waits for room in the queue of the request processor.\<close>

definition commit_request ::
    "env \<Rightarrow> state_machine \<Rightarrow> uint64 \<Rightarrow> string \<Rightarrow> bool \<Rightarrow> (state_machine \<times> (exc + string option)) option" where
  "commit_request E sm log_idx data_bytes ignore_response =
     (case parseRequest (now_ms E) data_bytes of
        Inl e \<Rightarrow> Some (sm, Inl e)
      | Inr r \<Rightarrow>
          if with_processor sm
          then map_option (\<lambda>p. (after_commit log_idx (sm\<lparr>sm_processor := p\<rparr>), Inr None)) (proc_commit (sm_processor sm) r)
          else
            (case processRequest E (sm_store sm) (rs_request r) (rs_session_id r) (rs_create_time r) None True ignore_response of
               (s, rs, exc_opt) \<Rightarrow>
                 let sm1 = sm\<lparr>sm_processor := (sm_processor sm)\<lparr>p_store := s, p_responses := p_responses (sm_processor sm) @ rs\<rparr>\<rparr>
                 in case exc_opt of Some e \<Rightarrow> Some (sm1, Inl e) | None \<Rightarrow> Some (after_commit log_idx sm1, Inr None)))"

definition commit ::
    "sm_buffers \<Rightarrow> env \<Rightarrow> state_machine \<Rightarrow> uint64 \<Rightarrow> string \<Rightarrow> bool \<Rightarrow> (state_machine \<times> (exc + string option)) option" where
  "commit R E sm log_idx data_bytes ignore_response =
     (if isNewSessionRequest data_bytes then Some (commit_new_session R E sm log_idx data_bytes)
      else if isUpdateSessionRequest data_bytes then Some (commit_update_session R E sm log_idx data_bytes)
      else commit_request E sm log_idx data_bytes ignore_response)"

definition processReadRequest :: "env \<Rightarrow> state_machine \<Rightarrow> RequestForSession \<Rightarrow> state_machine \<times> exc option" where
  "processReadRequest E sm r =
     (case processRequest E (sm_store sm) (rs_request r) (rs_session_id r) (rs_create_time r) None True False of
        (s, rs, exc_opt) \<Rightarrow>
          (sm\<lparr>sm_processor := (sm_processor sm)\<lparr>p_store := s, p_responses := p_responses (sm_processor sm) @ rs\<rparr>\<rparr>, exc_opt))"

definition sm_shutdown_op :: "env \<Rightarrow> state_machine \<Rightarrow> state_machine \<times> exc option" where
  "sm_shutdown_op E sm =
     (if sm_shutdown sm then (sm, None)
      else case finalize E (sm_store sm) of
             (s, Some e) \<Rightarrow> ((set_sm_store s sm)\<lparr>sm_shutdown := True\<rparr>, Some e)
           | (s, None) \<Rightarrow>
               ((set_sm_store s sm)\<lparr>sm_shutdown := True, sm_task_manager := task_shutDown (sm_task_manager sm)\<rparr>, None))"

section \<open>Replay\<close>

text \<open>The requests of a batch as the loading thread parses them; null for entries that are no requests.\<close>

definition load_request :: "nuraft \<Rightarrow> int64 \<Rightarrow> log_entry \<Rightarrow> exc + RequestForSession option" where
  "load_request N now entry =
     (if le_type entry \<noteq> app_log N \<or> isNewSessionRequest (le_buf entry) \<or> isUpdateSessionRequest (le_buf entry)
      then Inr None else createRequestSession N now entry)"

fun load_requests :: "nuraft \<Rightarrow> int64 \<Rightarrow> log_entry list \<Rightarrow> exc + RequestForSession option list" where
  "load_requests N now [] = Inr []"
| "load_requests N now (entry # es) =
     (case load_request N now entry of
        Inl e \<Rightarrow> Inl e
      | Inr r \<Rightarrow> (case load_requests N now es of Inl e \<Rightarrow> Inl e | Inr rs \<Rightarrow> Inr (r # rs)))"

definition raise_counter :: "int64 \<Rightarrow> KeeperStore \<Rightarrow> KeeperStore" where
  "raise_counter session_id s =
     (if session_id_counter s <s session_id then s\<lparr>session_id_counter := session_id\<rparr> else s)"

definition replay_entry ::
    "nuraft \<Rightarrow> sm_buffers \<Rightarrow> env \<Rightarrow> log_entry \<Rightarrow> RequestForSession option \<Rightarrow> KeeperStore \<Rightarrow> KeeperStore \<times> exc option" where
  "replay_entry N R E entry req s =
     (if le_type entry \<noteq> app_log N then (s, None)
      else if isNewSessionRequest (le_buf entry) then
        (case getSessionID E s (sm_get_ulong R (le_buf entry)) of Inl e \<Rightarrow> (s, Some e) | Inr (s1, _) \<Rightarrow> (s1, None))
      else if isUpdateSessionRequest (le_buf entry) then
        (case updateSessionTimeout E s (sm_get_i64 R (le_buf entry) 0) of Inl e \<Rightarrow> (s, Some e) | Inr (s1, _) \<Rightarrow> (s1, None))
      else
        (case req of
           None \<Rightarrow> (s, Some NULL_DEREFERENCE)
         | Some r \<Rightarrow>
             (case processRequest E s (rs_request r) (rs_session_id r) (rs_create_time r) None True True of
                (s1, _, Some e) \<Rightarrow> (s1, Some e)
              | (s1, _, None) \<Rightarrow> (raise_counter (rs_session_id r) s1, None))))"

fun replay_batch ::
    "nuraft \<Rightarrow> sm_buffers \<Rightarrow> env \<Rightarrow> (log_entry \<times> RequestForSession option) list \<Rightarrow> KeeperStore \<Rightarrow> KeeperStore \<times> exc option" where
  "replay_batch N R E [] s = (s, None)"
| "replay_batch N R E ((entry, req) # batch) s =
     (case replay_entry N R E entry req s of
        (s1, Some e) \<Rightarrow> (s1, Some e)
      | (s1, None) \<Rightarrow> replay_batch N R E batch s1)"

definition batch_end :: "uint64 \<Rightarrow> uint64 \<Rightarrow> uint64" where
  "batch_end start last_idx = (if last_idx + 1 < start + 10000 then last_idx + 1 else start + 10000)"

text \<open>
  The loading thread and the constructor that waits for its batches, one batch after the other: the
  constructor tests the queue after the thread has moved on to the next batch. When
  the thread leaves with an exception the constructor waits for ever: \<open>None\<close>. The last component is
  the exception of the constructor itself.
\<close>

partial_function (option) replay ::
    "nuraft \<Rightarrow> sm_buffers \<Rightarrow> env \<Rightarrow> io \<Rightarrow> files \<Rightarrow> uint64 \<Rightarrow> uint64 \<Rightarrow> file_log \<Rightarrow> KeeperStore \<Rightarrow> uint64
      \<Rightarrow> (file_log \<times> KeeperStore \<times> uint64 \<times> exc option) option" where
  "replay N R E io fs start last_idx fl s committed_idx =
     (if start < last_idx then
        (case log_entries_version_ext N io fs fl start (batch_end start last_idx) 0 0 [] of
           (_, Inl _) \<Rightarrow> None
         | (fl1, Inr log_vec) \<Rightarrow>
             (case load_requests N (now_ms E) (map vle_entry log_vec) of
                Inl _ \<Rightarrow> None
              | Inr request_vec \<Rightarrow>
                  (case replay_batch N R E (zip (map vle_entry log_vec) request_vec) s of
                     (s1, Some e) \<Rightarrow> Some (fl1, s1, committed_idx, Some e)
                   | (s1, None) \<Rightarrow>
                       replay N R E io fs (batch_end start last_idx) last_idx fl1 s1 (batch_end start last_idx - 1))))
      else Some (fl, s, committed_idx, None))"

definition replay_last :: "uint64 \<Rightarrow> file_log \<Rightarrow> uint64" where
  "replay_last prev_last_committed_idx fl =
     (let last_log = next_slot fl - 1
      in if prev_last_committed_idx \<noteq> 0 \<and> prev_last_committed_idx < last_log then prev_last_committed_idx else last_log)"

text \<open>The constructor after the snapshot: what it replays, and the compaction of a log that ends before the snapshot.\<close>

definition replay_log ::
    "nuraft \<Rightarrow> sm_buffers \<Rightarrow> env \<Rightarrow> io \<Rightarrow> files \<Rightarrow> task_manager \<Rightarrow> file_log \<Rightarrow> KeeperStore \<Rightarrow> uint64
      \<Rightarrow> (files \<times> file_log \<times> KeeperStore \<times> uint64 \<times> exc option) option" where
  "replay_log N R E io fs tm fl s snap_idx =
     (let prev = getLastCommitted (sm_get_ulong R) tm 0
      in case replay N R E io fs (snap_idx + 1) (replay_last prev fl) fl s snap_idx of
           None \<Rightarrow> None
         | Some (fl1, s1, idx, Some e) \<Rightarrow> Some (fs, fl1, s1, idx, Some e)
         | Some (fl1, s1, idx, None) \<Rightarrow>
             if next_slot fl1 \<le> idx
             then (case compact fs fl1 idx of (fs1, fl2, _) \<Rightarrow> Some (fs1, fl2, s1, idx, None))
             else Some (fs, fl1, s1, idx, None))"

end
