(* ===== verification/Replica.thy ===== *)
theory Replica
  imports State_Machine Store_Theorems "HOL-Library.Multiset"
begin

text \<open>
  What every server of the cluster has to agree on: the replicated part of the store, which is all of it
  but the watches and the expiry times of the sessions, both local to a server. A request changes it
  in a way that depends on the replicated part and the log entry only: not on the clock, nor on the order
  in which a server iterates its hash tables, nor on its watches.
\<close>

section \<open>The replicated part\<close>

definition replicated :: "KeeperStore \<Rightarrow> KeeperStore" where
  "replicated s = s\<lparr>session_expiry_queue := new_expiry_queue 0, sessions_and_watchers := Map.empty,
     watches := Map.empty, list_watches := Map.empty, finalized := False\<rparr>"

lemma replicated_sel [simp]:
  "container (replicated s) = container s" "ephemerals (replicated s) = ephemerals s"
  "session_and_auth (replicated s) = session_and_auth s" "store_acl_map (replicated s) = store_acl_map s"
  "session_and_timeout (replicated s) = session_and_timeout s" "zxid (replicated s) = zxid s"
  "session_id_counter (replicated s) = session_id_counter s" "super_digest (replicated s) = super_digest s"
  by (simp_all add: replicated_def)

lemma replicated_update [simp]:
  "replicated (s\<lparr>container := c\<rparr>) = (replicated s)\<lparr>container := c\<rparr>"
  "replicated (s\<lparr>ephemerals := e\<rparr>) = (replicated s)\<lparr>ephemerals := e\<rparr>"
  "replicated (s\<lparr>session_and_auth := a\<rparr>) = (replicated s)\<lparr>session_and_auth := a\<rparr>"
  "replicated (s\<lparr>store_acl_map := m\<rparr>) = (replicated s)\<lparr>store_acl_map := m\<rparr>"
  "replicated (s\<lparr>session_and_timeout := t\<rparr>) = (replicated s)\<lparr>session_and_timeout := t\<rparr>"
  "replicated (s\<lparr>zxid := z\<rparr>) = (replicated s)\<lparr>zxid := z\<rparr>"
  "replicated (s\<lparr>session_id_counter := k\<rparr>) = (replicated s)\<lparr>session_id_counter := k\<rparr>"
  "replicated (s\<lparr>session_expiry_queue := q\<rparr>) = replicated s"
  "replicated (s\<lparr>sessions_and_watchers := sw\<rparr>) = replicated s"
  "replicated (s\<lparr>watches := w\<rparr>) = replicated s" "replicated (s\<lparr>list_watches := lw\<rparr>) = replicated s"
  by (simp_all add: replicated_def)

lemma replicatedD:
  assumes "replicated s = replicated t"
  shows "container s = container t" "ephemerals s = ephemerals t" "session_and_auth s = session_and_auth t"
    "store_acl_map s = store_acl_map t" "session_and_timeout s = session_and_timeout t" "zxid s = zxid t"
    "session_id_counter s = session_id_counter t" "super_digest s = super_digest t"
  using assms by (metis replicated_sel)+

section \<open>Requests\<close>

lemma rep_create_acl: "create_acl (replicated s) sid acls = apfst replicated (create_acl s sid acls)"
  by (simp add: create_acl_def Let_def split: prod.splits)

lemma rep_create_target: "create_target (replicated s) path q = create_target s path q"
  unfolding create_target_def replicated_sel ..

lemma rep_create: "create_process (replicated s) zx sid time path dat eph q acls
    = apfst replicated (create_process s zx sid time path dat eph q acls)"
proof -
  obtain s1 r where r: "create_acl s sid acls = (s1, r)" by fastforce
  then show ?thesis
    by (simp add: create_process_def rep_create_target rep_create_acl split: sum.splits prod.splits)
qed

lemma rep_remove: "remove_process (replicated s) zx path ver = apfst replicated (remove_process s zx path ver)"
  by (simp add: remove_process_def Let_def split: option.splits)

lemma rep_set: "set_process (replicated s) zx time path dat ver = apfst replicated (set_process s zx time path dat ver)"
  by (simp add: set_process_def Let_def split: option.splits)

lemma rep_check: "check_process (replicated s) path ver = apfst replicated (check_process s path ver)"
  by (simp add: check_process_def split: option.splits)

lemma rep_sub: "sub_process (replicated s) zx sid time b = apfst replicated (sub_process s zx sid time b)"
  by (cases b) (simp_all add: rep_create rep_remove rep_set rep_check)

lemma rep_undo: "run_undo u (replicated s) = map_sum id replicated (run_undo u s)"
  by (cases u) (simp_all add: undo_create_def undo_remove_def undo_set_def Let_def split: option.splits)

lemma rep_undos: "run_undos us (replicated s) = map_sum id replicated (run_undos us s)"
  by (induction us arbitrary: s) (simp_all add: rep_undo split: sum.splits)

lemma rep_multi_loop:
  "multi_loop (replicated s) zx sid time rs ds us = apfst replicated (multi_loop s zx sid time rs ds us)"
proof (induction rs arbitrary: s ds us)
  case (Cons b rs)
  obtain s1 r where r: "sub_process s zx sid time b = (s1, r)" by fastforce
  then show ?case
    using Cons.IH [of s1] by (simp add: rep_sub rep_undos split: sum.splits prod.splits)
qed simp

lemma rep_multi: "multi_process (replicated s) zx sid time rs = apfst replicated (multi_process s zx sid time rs)"
  by (simp add: multi_process_def rep_multi_loop split: prod.splits sum.splits)

lemma rep_setACL: "setACL_process (replicated s) sid path acls ver = apfst replicated (setACL_process s sid path acls ver)"
  by (simp add: setACL_process_def Let_def split: option.splits prod.splits)

definition same_digests :: "env \<Rightarrow> env \<Rightarrow> bool" where
  "same_digests E E' \<longleftrightarrow> sha1_digest E' = sha1_digest E \<and> base64_encode E' = base64_encode E \<and> split_colon E' = split_colon E"

lemma rep_auth:
  "same_digests E E' \<Longrightarrow> auth_process E' (replicated s) sid sch dat = apfst replicated (auth_process E s sid sch dat)"
  by (simp add: auth_process_def generateDigest_def same_digests_def Let_def)

lemma rep_process:
  assumes "same_digests E E'"
  shows "store_process E' (replicated s) zx sid time b = apfst replicated (store_process E s zx sid time b)"
  by (cases b)
     (simp_all add: rep_create rep_remove rep_set rep_check rep_multi rep_setACL rep_auth [OF assms] heartbeat_process_def
        setWatches_process_def sync_process_def close_process_def exists_process_def get_process_def list_process_def
        setSeqNum_process_def getACL_process_def split: option.splits sum.splits)

lemma rep_node_auth: "node_auth (replicated s) path perm sid = node_auth s path perm sid"
  unfolding node_auth_def replicated_sel ..

lemma rep_multi_checkAuth: "multi_checkAuth (replicated s) sid bs = multi_checkAuth s sid bs"
proof (induction bs)
  case (Cons b bs)
  moreover have "sub_checkAuth (replicated s) sid b = sub_checkAuth s sid b"
    by (cases b) (simp_all add: checkAuth_defs rep_node_auth)
  ultimately show ?case by (simp split: sum.split bool.split)
qed simp

lemma rep_checkAuth: "store_checkAuth (replicated s) sid b = store_checkAuth s sid b"
  by (cases b) (simp_all add: checkAuth_defs rep_node_auth rep_multi_checkAuth)

lemma rep_next_zxid: "next_zxid (replicated s) z b = apfst replicated (next_zxid s z b)"
  by (simp add: next_zxid_def getZXID_def)

lemma rep_trigger: "replicated (fst (trigger_watches s path ev)) = replicated s"
  by (simp add: trigger_watches_def split: prod.splits)

lemma rep_register:
  "replicated (register_data_watch s sid path) = replicated s" "replicated (register_list_watch s sid path) = replicated s"
  by (simp_all add: register_data_watch_def register_list_watch_def)

lemma rep_finish:
  "replicated (fst (finish_request s req r sid time z ign)) = fst (next_zxid (replicated s) z (shouldIncreaseZxid req))
   \<and> snd (snd (finish_request s req r sid time z ign)) = None"
  by (simp add: finish_request_def rep_next_zxid rep_register Let_def split: prod.splits)

lemma rep_set_watches:
  "replicated (fst (set_data_watches s sid rel ps)) = replicated s"
  "replicated (fst (set_exist_watches s sid ps)) = replicated s"
  "replicated (fst (set_list_watches s sid rel ps)) = replicated s"
  by (induction ps arbitrary: s)
     (simp_all add: Let_def split_beta rep_trigger rep_register split: option.splits)

lemma rep_setwatches: "replicated (fst (process_setwatches s req rel dw ew lw sid ign)) = replicated s"
  by (simp add: process_setwatches_def Let_def split_beta rep_set_watches)

lemma rep_other:
  assumes dig: "same_digests E E'" and rep: "replicated t = replicated s"
  shows "replicated (fst (process_other E' t req sid time z acl ign')) = replicated (fst (process_other E s req sid time z acl ign))
    \<and> snd (snd (process_other E' t req sid time z acl ign')) = snd (snd (process_other E s req sid time z acl ign))"
proof -
  obtain s1 r where s1: "store_process E s (zxid s) sid time (req_body req) = (s1, r)" by fastforce
  obtain t1 r' where t1: "store_process E' t (zxid t) sid time (req_body req) = (t1, r')" by fastforce
  have "same_digests E' E'" by (simp add: same_digests_def)
  from rep_process [OF this, of t "zxid s" sid time "req_body req"] rep_process [OF dig, of s "zxid s" sid time "req_body req"]
  have eq: "r' = r" "replicated t1 = replicated s1" using s1 t1 rep replicatedD(6) [OF rep] by simp_all
  have auth: "store_checkAuth t sid (req_body req) = store_checkAuth s sid (req_body req)"
    by (metis rep rep_checkAuth)
  show ?thesis
    using s1 t1 eq rep by (simp add: process_other_def auth rep_finish split: sum.splits bool.splits prod.splits)
qed

section \<open>Closing a session\<close>

text \<open>What closing does to the nodes for one ephemeral path.\<close>

definition close_node :: "string \<Rightarrow> Container \<Rightarrow> Container" where
  "close_node p c =
     (case c (parentPath p) of None \<Rightarrow> c | Some m \<Rightarrow> c(parentPath p \<mapsto> unlink_ephemeral p m))(p := None)"

lemma unlink_commute: "unlink_ephemeral p (unlink_ephemeral q m) = unlink_ephemeral q (unlink_ephemeral p m)"
proof -
  have "children m - {a} - {b} = children m - {b} - {a}" for a b by blast
  then show ?thesis by (simp add: unlink_ephemeral_def)
qed

lemma close_node_commute:
  assumes "p \<noteq> q" "parentPath p \<noteq> q" "parentPath q \<noteq> p"
  shows "close_node p (close_node q c) = close_node q (close_node p c)"
proof (cases "parentPath p = parentPath q")
  case True
  then show ?thesis
    using assms by (auto simp: close_node_def fun_eq_iff unlink_commute split: option.splits)
next
  case False
  then show ?thesis
    using assms by (auto simp: close_node_def fun_eq_iff split: option.splits)
qed

lemma rep_close_ephemerals:
  "replicated (fst (close_ephemerals s ps)) = (replicated s)\<lparr>container := fold close_node ps (container s)\<rparr>"
proof (induction ps arbitrary: s)
  case Nil
  then show ?case by simp
next
  case (Cons p ps)
  have "replicated (fst (close_ephemeral s p)) = (replicated s)\<lparr>container := close_node p (container s)\<rparr>"
    by (simp add: close_ephemeral_def close_node_def rep_trigger Let_def)
  moreover from this have "container (fst (close_ephemeral s p)) = close_node p (container s)"
    by (metis KeeperStore.select_convs(3) KeeperStore.surjective KeeperStore.update_convs(3) replicated_sel(1))
  ultimately show ?case using Cons.IH [of "fst (close_ephemeral s p)"] by (simp add: Let_def split_beta)
qed

lemma close_order:
  assumes inv: "store_tree_inv s" and env: "env_ok E" "env_ok E'"
  shows "fold close_node (path_order E (set_entry (ephemerals s) sid)) (container s)
    = fold close_node (path_order E' (set_entry (ephemerals s) sid)) (container s)"
proof -
  let ?S = "set_entry (ephemerals s) sid"
  have S: "?S = ephemerals_of (container s) sid"
    using store_tree_invD(2) [OF inv] by (simp add: ephemerals_inv_def)
  have tree: "tree_inv (container s)" by (rule store_tree_invD(1) [OF inv])
  have "finite (dom (container s))" by (rule paths_okD(1) [OF tree_invD(1) [OF tree]])
  then have fin: "finite ?S" by (rule finite_subset [rotated]) (auto simp: S ephemerals_of_def)
  have ord: "set (path_order F ?S) = ?S" "distinct (path_order F ?S)" if "env_ok F" for F
    using that fin by (auto simp: env_ok_def enumeratesD)
  have np: "parentPath p \<noteq> q" if "p \<in> ?S" "q \<in> ?S" for p q
  proof -
    from that obtain n m where "container s p = Some n" "is_ephemeral n" "container s q = Some m" "is_ephemeral m"
      by (auto simp: S ephemerals_of_def)
    then show ?thesis using close_ephemeral_tree [OF tree, of p n] by auto
  qed
  have comm: "close_node p \<circ> close_node q = close_node q \<circ> close_node p" if "p \<in> ?S" "q \<in> ?S" for p q
    using close_node_commute [of p q] np that by (cases "p = q") (auto simp: fun_eq_iff)
  have "mset (path_order E ?S) = mset (path_order E' ?S)"
    using ord [OF env(1)] ord [OF env(2)] by (simp add: set_eq_iff_mset_eq_distinct [symmetric])
  then have "fold close_node (path_order E ?S) = fold close_node (path_order E' ?S)"
    using ord(1) [OF env(1)] comm by (intro fold_multiset_equiv) auto
  then show ?thesis by simp
qed

lemma rep_close:
  assumes inv: "session_inv s" and env: "env_ok E"
  shows "replicated (fst (process_close E s req sid z ign)) =
    (fst (next_zxid (replicated s) z True))
      \<lparr>container := fold close_node (path_order E (set_entry (ephemerals s) sid)) (container s),
       ephemerals := (ephemerals s)(sid := None), session_and_timeout := (session_and_timeout s)(sid := None),
       session_and_auth := (session_and_auth s)(sid := None)\<rparr>"
proof -
  have q: "expiry_inv (session_expiry_queue s)" using inv by (simp add: session_inv_def)
  have nil: "path_order E {} = []" using env by (simp add: env_ok_def enumerates_empty)
  have clear: "replicated (clearDeadWatches E t k) = replicated t" for t k
    by (simp add: clearDeadWatches_def split: option.splits)
  have rn: "replicated (fst (next_zxid t z True)) = fst (next_zxid (replicated t) z True)" for t by (simp add: rep_next_zxid)
  have nz: "fst (next_zxid (t\<lparr>container := c\<rparr>) z True) = (fst (next_zxid t z True))\<lparr>container := c\<rparr>"
    "fst (next_zxid (t\<lparr>ephemerals := e\<rparr>) z True) = (fst (next_zxid t z True))\<lparr>ephemerals := e\<rparr>" for t c e
    by (simp_all add: next_zxid_def getZXID_def)
  show ?thesis
    using q by (cases "ephemerals s sid")
      (simp_all add: process_close_def Let_def split_beta close_ephemerals_fields queue_remove_eq clear rn nz
        rep_close_ephemerals set_entry_def nil fun_upd_idem)
qed

section \<open>Replicas agree\<close>

lemma rep_touch:
  assumes "session_inv s" "touch_session E s sid = Inr s1"
  shows "replicated s1 = (replicated s)\<lparr>session_and_timeout := (session_and_timeout s)
    (sid \<mapsto> (case session_and_timeout s sid of None \<Rightarrow> 0 | Some t \<Rightarrow> t))\<rparr>"
  using assms(2) by (auto simp: touch_session_def Let_def split: sum.splits)

lemma rep_body:
  assumes "same_digests E E'" "replicated t = replicated s"
  shows "replicated (fst (process_body E' t req sid time z acl ign')) = replicated (fst (process_body E s req sid time z acl ign))
    \<and> snd (snd (process_body E' t req sid time z acl ign')) = snd (snd (process_body E s req sid time z acl ign))"
  using rep_other [OF assms, of req sid time z acl ign' ign] assms(2)
  by (auto simp: process_body_def rep_setwatches process_heartbeat_def heartbeat_process_def process_setwatches_def Let_def split_beta
      rep_set_watches split: request_body.splits)

lemma replicas_agree_request:
  assumes dig: "same_digests E E'" and env: "env_ok E" "env_ok E'" and rep: "replicated t = replicated s"
    and inv: "store_tree_inv s" "session_inv s" "session_inv t"
  shows "replicated (fst (processRequest E' t req sid time None acl ign')) = replicated (fst (processRequest E s req sid time None acl ign))
    \<and> snd (snd (processRequest E' t req sid time None acl ign')) = snd (snd (processRequest E s req sid time None acl ign))"
proof (cases "getOpNum req = Op_Close")
  case True
  note same = replicatedD [OF rep]
  have "replicated (fst (process_close E' t req sid None ign')) = replicated (fst (process_close E s req sid None ign))"
    by (simp add: rep_close [OF inv(2) env(1)] rep_close [OF inv(3) env(2)] rep same close_order [OF inv(1) env])
  then show ?thesis
    using True process_close_session(2) [OF inv(2)] process_close_session(2) [OF inv(3)]
    by (simp add: processRequest_def process_session_def)
next
  case False
  obtain s1 where s1: "touch_session E s sid = Inr s1" using touch_session_ok [OF inv(2)] by blast
  obtain t1 where t1: "touch_session E' t sid = Inr t1" using touch_session_ok [OF inv(3)] by blast
  have "replicated t1 = replicated s1"
    using rep_touch [OF inv(2) s1] rep_touch [OF inv(3) t1] rep replicatedD(5) [OF rep] by simp
  from rep_body [OF dig this] show ?thesis
    using False s1 t1 replicatedD(5) [OF rep] rep by (simp add: processRequest_def process_session_def)
qed

section \<open>Entries\<close>

lemma read_pod64_bytes [wire_simps]: "read_pod64 (pod_bytes x @ rest) = Inr (x, rest)"
  by (simp add: read_pod64_def wire_simps)

lemma size_ok_positive:
  assumes "size_ok n" "0 < n"
  shows "\<not> (of_nat n :: int32) <=s 0"
  using size_of_nat [OF assms(1)] assms(2) by (auto simp: word_sle_eq)

lemma request_frame:
  "request_write r = write_int32 (of_nat (length (request_payload r))) @ request_payload r"
  by (simp add: request_write_payload write_string_def)

lemma length_request_payload: "8 \<le> length (request_payload r)"
  by (simp add: request_payload_def write_OpNum_def)

lemma log_entry_length: "28 \<le> length (getZooKeeperLogEntry sid time req)"
  using length_request_payload [of req] by (simp add: getZooKeeperLogEntry_def request_frame)

lemma parse_written:
  assumes "body_ok (has_watch req) (req_body req)"
  shows "parseRequest now (getZooKeeperLogEntry sid time req) = Inr (local_request sid req time)"
proof -
  have "write_int64 time \<noteq> []" by (metis length_write(1) list.size(3) zero_neq_numeral)
  then show ?thesis
    using req_io.roundtrip [OF assms, of "write_int64 time"] i64.roundtrip [of time "[]"]
    by (simp add: parseRequest_def getZooKeeperLogEntry_def request_frame read_create_time_def wire_simps)
qed

lemma create_written:
  assumes "body_ok (has_watch req) (req_body req)" and "size_ok (length (request_payload req))"
    and "le_type e = app_log N" "le_buf e = getZooKeeperLogEntry sid time req"
  shows "createRequestSession N now e = Inr (Some (local_request sid req time))"
proof -
  have t: "write_int64 time \<noteq> []" by (metis length_write(1) list.size(3) zero_neq_numeral)
  have "\<not> (of_nat (length (request_payload req)) :: int32) <=s 0"
    using size_ok_positive [OF assms(2)] length_request_payload [of req] by fastforce
  moreover have "write_int32 (of_nat (length (request_payload req))) @ request_payload req @ write_int64 time \<noteq> []" using t by simp
  ultimately show ?thesis
    using req_io.roundtrip [OF assms(1), of "write_int64 time"] i64.roundtrip [of time "[]"] assms(3,4) t
    by (simp add: createRequestSession_def getZooKeeperLogEntry_def request_frame read_create_time_def wire_simps)
qed

end
