(* ===== verification/Replica_Runs.thy ===== *)
theory Replica_Runs
  imports Replica
begin

text \<open>
  Servers that apply the same log. A server applies an entry by replaying it at start or when NuRaft
  commits it; between entries it serves reads of its own clients and hears of the sessions of others.
  Whatever it does between them, its replicated state is a function of the log.
\<close>

section \<open>Steps of a server\<close>

text \<open>The clock and the order of iteration differ from step to step and from server to server.\<close>

definition server_env :: "env \<Rightarrow> env \<Rightarrow> bool" where
  "server_env D E \<longleftrightarrow> env_ok E \<and> same_digests D E"

text \<open>An entry as the servers write it; a request is of a session that the counter has given out.\<close>

definition log_command :: "nuraft \<Rightarrow> KeeperStore \<Rightarrow> log_entry \<Rightarrow> bool" where
  "log_command N s e \<longleftrightarrow> le_type e = app_log N \<and>
     (isNewSessionRequest (le_buf e) \<or> isUpdateSessionRequest (le_buf e)
      \<or> (\<exists>sid req time. le_buf e = getZooKeeperLogEntry sid time req \<and> body_ok (has_watch req) (req_body req)
           \<and> size_ok (length (request_payload req)) \<and> request_ok (req_body req) \<and> \<not> session_id_counter s <s sid))"

inductive entry_step :: "nuraft \<Rightarrow> sm_buffers \<Rightarrow> env \<Rightarrow> KeeperStore \<Rightarrow> log_entry \<Rightarrow> KeeperStore \<Rightarrow> bool" for N R D where
  other: "le_type e \<noteq> app_log N \<Longrightarrow> entry_step N R D s e s"
| replayed: "\<lbrakk>log_command N s e; server_env D E; load_request N (now_ms E) e = Inr r; replay_entry N R E e r s = (s', x)\<rbrakk>
    \<Longrightarrow> entry_step N R D s e s'"
| committed: "\<lbrakk>log_command N (sm_store sm) e; server_env D E; \<not> with_processor sm;
      commit R E sm idx (le_buf e) ign = Some (sm', x)\<rbrakk>
    \<Longrightarrow> entry_step N R D (sm_store sm) e (sm_store sm')"

inductive local_step :: "env \<Rightarrow> KeeperStore \<Rightarrow> KeeperStore \<Rightarrow> bool" for D where
  read: "\<lbrakk>server_env D E; isReadRequest req; getOpNum req \<noteq> Op_GetACL;
      processRequest E s req sid time None True ign = (s', rs, x)\<rbrakk> \<Longrightarrow> local_step D s s'"
| remote: "handleRemoteSession s sid t = Inr s' \<Longrightarrow> local_step D s s'"

inductive replica_run :: "nuraft \<Rightarrow> sm_buffers \<Rightarrow> env \<Rightarrow> KeeperStore \<Rightarrow> log_entry list \<Rightarrow> KeeperStore \<Rightarrow> bool" for N R D s0 where
  start: "replica_run N R D s0 [] s0"
| entry: "\<lbrakk>replica_run N R D s0 es s; entry_step N R D s e s'\<rbrakk> \<Longrightarrow> replica_run N R D s0 (es @ [e]) s'"
| local: "\<lbrakk>replica_run N R D s0 es s; local_step D s s'\<rbrakk> \<Longrightarrow> replica_run N R D s0 es s'"

section \<open>What an entry does\<close>

lemma session_counter_kept:
  "session_id_counter (fst (processRequest E s req sid time None acl ign)) = session_id_counter s"
proof -
  have nz: "session_id_counter (fst (next_zxid t z b)) = session_id_counter t" for t z b
    by (simp add: next_zxid_def getZXID_def)
  have fin: "session_id_counter (fst (finish_request t req r sid time z ign)) = session_id_counter t" for t r z
    by (metis rep_finish nz replicated_sel(7))
  have oth: "session_id_counter (fst (process_other E t req sid time z acl ign)) = session_id_counter t" for t z
  proof -
    obtain t1 r where t1: "store_process E t (zxid t) sid time (req_body req) = (t1, r)" by fastforce
    then have "session_id_counter t1 = session_id_counter t"
      using frameD(7) [OF store_process_frame [of t E "zxid t" sid time "req_body req"]] by simp
    then show ?thesis using t1 by (simp add: process_other_def fin split: sum.splits bool.splits)
  qed
  have set: "session_id_counter (fst (process_setwatches t req rel dw ew lw sid ign)) = session_id_counter t" for t rel dw ew lw
    using rep_setwatches [of t req rel dw ew lw sid ign] by (metis replicatedD(7))
  have body: "session_id_counter (fst (process_body E t req sid time z acl ign)) = session_id_counter t" for t z
    by (simp add: process_body_def oth set split: request_body.splits)
  have touch: "session_id_counter s1 = session_id_counter s" if "touch_session E s sid = Inr s1" for s1
    using that by (auto simp: touch_session_def Let_def split: sum.splits)
  have eph: "session_id_counter (fst (close_ephemerals t ps)) = session_id_counter t" for t ps
    using arg_cong [OF rep_close_ephemerals [of t ps], of session_id_counter] by simp
  have clear: "session_id_counter (clearDeadWatches E t sid) = session_id_counter t" for t
    by (simp add: clearDeadWatches_def split: option.splits)
  have close: "session_id_counter (fst (process_close E s req sid z ign)) = session_id_counter s" for z
    by (simp add: process_close_def Let_def split_beta nz clear eph split: option.splits sum.splits)
  show ?thesis
  proof (cases "touch_session E s sid")
    case (Inr s1)
    then show ?thesis using touch [OF Inr] by (simp add: processRequest_def process_session_def close body)
  qed (simp add: processRequest_def process_session_def close)
qed

lemma commit_new: "isNewSessionRequest b \<Longrightarrow> commit R E sm idx b ign = Some (commit_new_session R E sm idx b)"
  by (simp add: commit_def)

lemma sm_store_simps [simp]:
  "sm_store (set_sm_store s sm) = s" "sm_store (after_commit idx sm) = sm_store sm" "sm_store (notify_session sid sm) = sm_store sm"
  by (simp_all add: set_sm_store_def after_commit_def notify_session_def)

lemma not_session_entry:
  "\<not> isNewSessionRequest (getZooKeeperLogEntry sid time req)" "\<not> isUpdateSessionRequest (getZooKeeperLogEntry sid time req)"
  using log_entry_length [of sid time req] by (auto simp: isNewSessionRequest_def isUpdateSessionRequest_def)

lemma update_session_total:
  assumes "session_inv s"
  shows "\<exists>t b. updateSessionTimeout E s sid = Inr (t, b)"
proof (cases "session_and_timeout s sid")
  case (Some timeout)
  then show ?thesis
    using addNewSessionOrUpdate_ok [of "session_expiry_queue s" "now_ms E" sid timeout] assms
    by (auto simp: updateSessionTimeout_def session_inv_def)
qed (auto simp: updateSessionTimeout_def)

lemma entry_step_cases:
  assumes step: "entry_step N R D s e s'" and R: "sm_buffers_ok R" and inv: "session_inv s"
  obtains (skip) "le_type e \<noteq> app_log N" "s' = s"
  | (new) E k where "le_type e = app_log N" "isNewSessionRequest (le_buf e)" "getSessionID E s (pod_word (take 8 (le_buf e))) = Inr (s', k)"
  | (update) E b where "le_type e = app_log N" "isUpdateSessionRequest (le_buf e)" "updateSessionTimeout E s (pod_word (take 8 (le_buf e))) = Inr (s', b)"
  | (client) E ign sid time req where "le_type e = app_log N" "le_buf e = getZooKeeperLogEntry sid time req" "server_env D E"
      "body_ok (has_watch req) (req_body req)" "request_ok (req_body req)"
      "s' = fst (processRequest E s req sid time None True ign)"
  using step
proof cases
  case other
  then show thesis using skip by blast
next
  case (replayed E r x)
  have app: "le_type e = app_log N" using replayed(1) by (simp add: log_command_def)
  from replayed(1) consider "isNewSessionRequest (le_buf e)"
    | "isUpdateSessionRequest (le_buf e)" "\<not> isNewSessionRequest (le_buf e)"
    | sid req time where "le_buf e = getZooKeeperLogEntry sid time req" "body_ok (has_watch req) (req_body req)"
        "size_ok (length (request_payload req))" "request_ok (req_body req)" "\<not> session_id_counter s <s sid"
    unfolding log_command_def by blast
  then show thesis
  proof cases
    case 1
    then have "8 \<le> length (le_buf e)" by (simp add: isNewSessionRequest_def)
    then have "sm_get_ulong R (le_buf e) = pod_word (take 8 (le_buf e))" using R by (simp add: sm_buffers_ok_def)
    then show thesis
      using new [OF app 1] replayed(4) 1 app getSessionID_ok [OF inv, of E "pod_word (take 8 (le_buf e))"]
      by (auto simp: replay_entry_def)
  next
    case 2
    then have "sm_get_i64 R (le_buf e) 0 = pod_word (take 8 (le_buf e))"
      using R by (simp add: sm_buffers_ok_def isUpdateSessionRequest_def)
    moreover obtain t b where "updateSessionTimeout E s (pod_word (take 8 (le_buf e))) = Inr (t, b)"
      using update_session_total [OF inv] by blast
    ultimately show thesis
      using update [OF app 2(1)] replayed(4) 2 app by (auto simp: replay_entry_def)
  next
    case (3 sid req time)
    note ns = not_session_entry [of sid time req]
    have "r = Some (local_request sid req time)"
      using replayed(3) create_written [OF 3(2,3) app 3(1)] ns 3(1) app by (simp add: load_request_def)
    moreover have "raise_counter sid (fst (processRequest E s req sid time None True True)) = fst (processRequest E s req sid time None True True)"
      using 3(5) session_counter_kept by (simp add: raise_counter_def)
    ultimately have "s' = fst (processRequest E s req sid time None True True)"
      using replayed(4) ns 3(1) app by (auto simp: replay_entry_def local_request_def split: prod.splits option.splits)
    then show thesis using client [OF app 3(1) replayed(2) 3(2,4)] by blast
  qed
next
  case (committed sm E idx ign sm' x)
  have app: "le_type e = app_log N" using committed(3) by (simp add: log_command_def)
  from committed(3) consider "isNewSessionRequest (le_buf e)"
    | "isUpdateSessionRequest (le_buf e)" "\<not> isNewSessionRequest (le_buf e)"
    | sid req time where "le_buf e = getZooKeeperLogEntry sid time req" "body_ok (has_watch req) (req_body req)"
        "size_ok (length (request_payload req))" "request_ok (req_body req)"
    unfolding log_command_def by blast
  then show thesis
  proof cases
    case 1
    then have "8 \<le> length (le_buf e)" by (simp add: isNewSessionRequest_def)
    then have "sm_get_i64 R (le_buf e) 0 = pod_word (take 8 (le_buf e))" using R by (simp add: sm_buffers_ok_def)
    then show thesis
      using new [OF app 1] committed(1,2,6) 1 getSessionID_ok [OF inv, of E "pod_word (take 8 (le_buf e))"]
      by (auto simp: commit_def commit_new_session_def)
  next
    case 2
    then have "sm_get_i64 R (le_buf e) 0 = pod_word (take 8 (le_buf e))"
      using R by (simp add: sm_buffers_ok_def isUpdateSessionRequest_def)
    moreover obtain t b where "updateSessionTimeout E s (pod_word (take 8 (le_buf e))) = Inr (t, b)"
      using update_session_total [OF inv] by blast
    ultimately show thesis
      using update [OF app 2(1)] committed(1,2,6) 2 by (auto simp: commit_def commit_update_session_def Let_def)
  next
    case (3 sid req time)
    have "s' = fst (processRequest E s req sid time None True ign)"
      using committed(1,2,5,6) parse_written [OF 3(2), of "now_ms E" sid time] not_session_entry [of sid time req] 3(1)
      by (auto simp: commit_def commit_request_def local_request_def Let_def split: prod.splits option.splits)
    then show thesis using client [OF app 3(1) committed(4) 3(2,4)] by blast
  qed
qed

section \<open>Agreement\<close>

lemma entry_step_inv:
  assumes "entry_step N R D s e s'" "sm_buffers_ok R" "store_inv s"
  shows "store_inv s'"
  using assms(1,2) store_invD(3) [OF assms(3)]
proof (cases rule: entry_step_cases)
  case skip
  then show ?thesis using assms(3) by simp
next
  case (new E k)
  then show ?thesis
    using getSessionID_ok [OF store_invD(3) [OF assms(3)], of E "pod_word (take 8 (le_buf e))"] assms(3)
    by (auto simp: store_inv_def store_tree_inv_def watch_inv_def)
next
  case (update E b)
  then show ?thesis
    using updateSessionTimeout_ok [OF store_invD(3) [OF assms(3)] update(3)] assms(3)
    by (simp add: store_inv_def store_tree_inv_def watch_inv_def)
next
  case (client E ign sid time req)
  then show ?thesis using store_inv_request [OF assms(3)] by (simp add: server_env_def)
qed

lemma local_step_both:
  assumes "local_step D s s'" "store_inv s"
  shows "replicated s' = replicated s \<and> store_inv s'"
  using assms(1)
proof cases
  case (read E req sid time ign rs x)
  have env: "env_ok E" using read(1) by (simp add: server_env_def)
  have close: "getOpNum req \<noteq> Op_Close" and ok: "request_ok (req_body req)" and inc: "\<not> shouldIncreaseZxid req"
    using read(2,3) by (cases "req_body req"; simp add: isReadRequest_def getOpNum_def request_ok_def shouldIncreaseZxid_def)+
  have inv': "store_inv s'" using store_inv_request [OF assms(2) env ok] read(4) by (metis fst_conv)
  have body: "replicated (fst (process_body E t req sid time None True ign)) = replicated t" for t
  proof -
    have st: "replicated (fst (store_process E t (zxid t) sid time (req_body req))) = replicated t"
      using read(2) by (cases "req_body req")
        (simp_all add: isReadRequest_def heartbeat_process_def setWatches_process_def exists_process_def get_process_def
          list_process_def getACL_process_def split: option.splits sum.splits)
    have oth: "replicated (fst (process_other E t req sid time None True ign)) = replicated t"
    proof -
      obtain t1 r where t1: "store_process E t (zxid t) sid time (req_body req) = (t1, r)" by fastforce
      then show ?thesis
        using st inc by (simp add: process_other_def rep_finish next_zxid_def split: sum.splits bool.splits)
    qed
    show ?thesis by (simp add: process_body_def oth rep_setwatches split: request_body.splits)
  qed
  have "replicated s' = replicated s"
  proof (cases "sid \<in> dom (session_and_timeout s)")
    case True
    obtain s1 where s1: "touch_session E s sid = Inr s1" using touch_session_ok [OF store_invD(3) [OF assms(2)]] by blast
    have "replicated s1 = replicated s"
      using True by (auto simp: rep_touch [OF store_invD(3) [OF assms(2)] s1] fun_upd_idem)
    then show ?thesis
      using read(4) close True s1 body [of s1] by (simp add: processRequest_def process_session_def)
  next
    case False
    then show ?thesis using read(4) close by (simp add: processRequest_def process_session_def)
  qed
  then show ?thesis using inv' by simp
next
  case (remote sid t)
  then have "replicated s' = replicated s"
    by (auto simp: handleRemoteSession_def split: sum.splits)
  then show ?thesis
    using handleRemoteSession_ok [OF store_invD(3) [OF assms(2)] remote] assms(2)
    by (simp add: store_inv_def store_tree_inv_def watch_inv_def)
qed

lemmas local_step_rep = local_step_both [THEN conjunct1] local_step_both [THEN conjunct2]

lemma rep_getSessionID:
  "getSessionID E s t = Inr (s', k) \<Longrightarrow> replicated s' = (replicated s)\<lparr>zxid := zxid s + 1, session_id_counter := session_id_counter s + 1,
     session_and_timeout := timeout_emplace s (session_id_counter s) t\<rparr>"
  by (auto simp: getSessionID_def getZXID_def timeout_emplace_def Let_def split: sum.splits option.splits)

lemma rep_updateSession: "updateSessionTimeout E s sid = Inr (s', b) \<Longrightarrow> replicated s' = replicated s"
  by (auto simp: updateSessionTimeout_def split: option.splits sum.splits)

lemma getZooKeeperLogEntry_inj:
  assumes "getZooKeeperLogEntry sid time req = getZooKeeperLogEntry sid' time' req'"
    and "body_ok (has_watch req) (req_body req)" "body_ok (has_watch req') (req_body req')"
  shows "sid' = sid" "time' = time" "req' = req"
proof -
  have "local_request sid' req' time' = local_request sid req time"
    using parse_written [OF assms(2), of 0 sid time] parse_written [OF assms(3), of 0 sid' time'] assms(1) by simp
  then show "sid' = sid" "time' = time" "req' = req" by (simp_all add: local_request_def)
qed

lemma entry_step_agree:
  assumes s: "entry_step N R D s e s'" "store_inv s" and t: "entry_step N R D t e t'" "store_inv t"
    and R: "sm_buffers_ok R" and rep: "replicated t = replicated s"
  shows "replicated t' = replicated s'"
  using s(1) R store_invD(3) [OF s(2)]
proof (cases rule: entry_step_cases)
  case skip
  have "t' = t" using t(1) R store_invD(3) [OF t(2)] by (cases rule: entry_step_cases) (use skip in simp_all)
  then show ?thesis using skip rep by simp
next
  case (new E k)
  have "\<exists>E' k'. getSessionID E' t (pod_word (take 8 (le_buf e))) = Inr (t', k')"
    using t(1) R store_invD(3) [OF t(2)]
  proof (cases rule: entry_step_cases)
    case (client E' ign sid time req)
    then show ?thesis using new(2) not_session_entry by simp
  qed (use new in \<open>auto simp: isNewSessionRequest_def isUpdateSessionRequest_def\<close>)
  then obtain E' k' where t': "getSessionID E' t (pod_word (take 8 (le_buf e))) = Inr (t', k')" by blast
  have "timeout_emplace t j x = timeout_emplace s j x" for j x
    unfolding timeout_emplace_def replicatedD(5) [OF rep] ..
  then show ?thesis
    using rep_getSessionID [OF new(3)] rep_getSessionID [OF t'] rep replicatedD(6,7) [OF rep] by simp
next
  case (update E b)
  have "\<exists>E' b'. updateSessionTimeout E' t (pod_word (take 8 (le_buf e))) = Inr (t', b')"
    using t(1) R store_invD(3) [OF t(2)]
  proof (cases rule: entry_step_cases)
    case (client E' ign sid time req)
    then show ?thesis using update(2) not_session_entry by simp
  qed (use update in \<open>auto simp: isNewSessionRequest_def isUpdateSessionRequest_def\<close>)
  then show ?thesis using rep_updateSession [OF update(3)] rep_updateSession [of _ t _ t'] rep by auto
next
  case (client E ign sid time req)
  note ns = not_session_entry [of sid time req] and written = client(2,4)
  obtain E' ign' where E': "server_env D E'" "t' = fst (processRequest E' t req sid time None True ign')"
    using t(1) R store_invD(3) [OF t(2)]
  proof (cases rule: entry_step_cases)
    case (client E' ign' sid' time' req')
    note same = getZooKeeperLogEntry_inj [OF trans [OF written(1) [symmetric] client(2)] written(2) client(4)]
    show ?thesis using client(3,6) unfolding same by (rule that)
  qed (use client(1,2) ns in simp_all)
  have "same_digests E E'" "env_ok E" "env_ok E'"
    using client(3) E'(1) by (simp_all add: server_env_def same_digests_def)
  from replicas_agree_request [OF this rep store_invD(1,3) [OF s(2)] store_invD(3) [OF t(2)]] show ?thesis
    using client(6) E'(2) by simp
qed

lemma replica_run_inv:
  assumes "replica_run N R D s0 es s" "sm_buffers_ok R" "store_inv s0"
  shows "store_inv s"
  using assms(1,3) by induction (auto dest: entry_step_inv [OF _ assms(2)] local_step_rep(2))

lemma replica_run_last:
  assumes "replica_run N R D s0 (es @ [e]) s" "sm_buffers_ok R" "store_inv s0"
  shows "\<exists>s1 s2. replica_run N R D s0 es s1 \<and> entry_step N R D s1 e s2 \<and> replicated s = replicated s2"
  using assms(1,3)
proof (induction "es @ [e]" s rule: replica_run.induct)
  case (local s s')
  then show ?case using local_step_rep(1) [OF local(3)] replica_run_inv [OF local(1) assms(2,3)] by metis
qed auto

lemma replica_run_empty:
  assumes "replica_run N R D s0 [] s" "sm_buffers_ok R" "store_inv s0"
  shows "replicated s = replicated s0"
  using assms(1,3)
proof (induction "[] :: log_entry list" s rule: replica_run.induct)
  case (local s s')
  then show ?case using local_step_rep(1) [OF local(3)] replica_run_inv [OF local(1) assms(2,3)] by metis
qed auto

end
