(* ===== verification/Replay_Facts.thy ===== *)
theory Replay_Facts
  imports Replica_Runs Log_Theorems
begin

text \<open>
  The replay of the log at start: the batches that the loading thread reads from the segments and the
  cache, and the constructor that applies them, amount to applying the entries of the log one by one up
  to the index the server then reports as committed.
\<close>

section \<open>Reading a batch\<close>

lemma getVersion_ok:
  assumes ok: "file_log_ok lv N fs fl n es" and i: "n \<le> unat i" "unat i < n + length es"
  shows "\<exists>v. getVersion (seg_store fl) i = Inr v"
proof -
  obtain L where L: "store_ok lv N fs (seg_store fl) L" "entries L = es" "unat (first_log_index (seg_store fl)) = n"
    by (rule file_log_okE [OF ok])
  have "first_log_index (seg_store fl) \<le> i \<and> i \<le> last_log_index (seg_store fl)"
    using i L(3) file_log_last [OF ok] by (simp add: word_le_nat_alt)
  then show ?thesis using getSegment_ok [OF L(1)] by (fastforce simp: getVersion_def)
qed

lemma version_entries_ok:
  assumes N: "buffers_ok N" and io: "open_ok io"
  shows "file_log_ok lv N fs fl n es \<Longrightarrow> n \<le> unat i \<Longrightarrow> unat i \<le> unat j \<Longrightarrow> unat j \<le> n + length es \<Longrightarrow>
    \<exists>st vs. log_entries_version_ext N io fs fl i j 0 sz ret = (fl\<lparr>seg_store := st\<rparr>, Inr (ret @ vs))
      \<and> map vle_entry vs = take (unat j - unat i) (drop (unat i - n) es)
      \<and> file_log_ok lv N fs (fl\<lparr>seg_store := st\<rparr>) n es \<and> last_log_index st = last_log_index (seg_store fl)"
proof (induction "unat j - unat i" arbitrary: fl i ret sz)
  case 0
  then have "\<not> i < j" by (simp add: word_less_nat_alt)
  then show ?case using 0 by (intro exI [of _ "seg_store fl"] exI [of _ "[]"]) (simp add: log_entries_version_ext.simps)
next
  case (Suc d)
  then have less: "i < j" by (simp add: word_less_nat_alt)
  then have "i \<noteq> -1" by (metis word_not_simps(3))
  then have u: "unat (i + 1) = unat i + 1" by (rule unat_Suc)
  let ?e = "es ! (unat i - n)"
  have in_range: "unat i < n + length es" using less Suc.prems(4) by (simp add: word_less_nat_alt)
  then have m: "log_map n es i = Some ?e" using Suc.prems(2) by (simp add: log_map_def)
  obtain st where e: "entry_at N io fs fl i = (fl\<lparr>seg_store := st\<rparr>, Inr (Some ?e))"
    and ok1: "file_log_ok lv N fs (fl\<lparr>seg_store := st\<rparr>) n es" and l1: "last_log_index st = last_log_index (seg_store fl)"
    using entry_at_ok [OF N Suc.prems(1) io, of i] m by auto
  obtain v where v: "getVersion (seg_store (fl\<lparr>seg_store := st\<rparr>)) i = Inr v"
    using getVersion_ok [OF ok1 Suc.prems(2) in_range] by blast
  let ?v = "\<lparr>vle_version = v, vle_entry = ?e\<rparr>"
  have "d = unat j - unat (i + 1)" "n \<le> unat (i + 1)" "unat (i + 1) \<le> unat j"
    using Suc.hyps(2) Suc.prems(2) u less by (simp_all add: word_less_nat_alt)
  then obtain st2 vs where r: "log_entries_version_ext N io fs (fl\<lparr>seg_store := st\<rparr>) (i + 1) j 0 (sz + entry_size ?e) (ret @ [?v])
      = (fl\<lparr>seg_store := st\<rparr>\<lparr>seg_store := st2\<rparr>, Inr ((ret @ [?v]) @ vs))"
    and vs: "map vle_entry vs = take (unat j - unat (i + 1)) (drop (unat (i + 1) - n) es)"
    and ok2: "file_log_ok lv N fs (fl\<lparr>seg_store := st\<rparr>\<lparr>seg_store := st2\<rparr>) n es"
    and l2: "last_log_index st2 = last_log_index st"
    using Suc.hyps(1) [OF _ ok1 _ _ Suc.prems(4)] by fastforce
  have "drop (unat i - n) es = ?e # drop (unat (i + 1) - n) es"
    using in_range Suc.prems(2) u by (simp add: Cons_nth_drop_Suc Suc_diff_le)
  moreover have "unat j - unat i = Suc (unat j - unat (i + 1))" using less u by (simp add: word_less_nat_alt)
  ultimately have "map vle_entry (?v # vs) = take (unat j - unat i) (drop (unat i - n) es)" using vs by simp
  moreover have "log_entries_version_ext N io fs fl i j 0 sz ret = (fl\<lparr>seg_store := st2\<rparr>, Inr (ret @ ?v # vs))"
    using less e v r by (simp add: log_entries_version_ext.simps [of N io fs fl] over_hint_def)
  ultimately show ?case using ok2 l1 l2 by (intro exI [of _ st2] exI [of _ "?v # vs"]) simp
qed

section \<open>Batches one after the other\<close>

lemma load_requests_length: "load_requests N now es = Inr rs \<Longrightarrow> length rs = length es"
  by (induction es arbitrary: rs) (auto split: sum.splits)

lemma load_requests_append:
  "load_requests N now (es @ fs) =
     (case load_requests N now es of Inl e \<Rightarrow> Inl e
      | Inr r1 \<Rightarrow> (case load_requests N now fs of Inl e \<Rightarrow> Inl e | Inr r2 \<Rightarrow> Inr (r1 @ r2)))"
  by (induction es) (simp_all split: sum.split)

lemma replay_batch_append:
  "replay_batch N R E (a @ b) s = (case replay_batch N R E a s of (s1, Some e) \<Rightarrow> (s1, Some e) | (s1, None) \<Rightarrow> replay_batch N R E b s1)"
  by (induction a arbitrary: s) (auto split: prod.splits option.splits)

lemma load_requests_take: "load_requests N now es = Inr rs \<Longrightarrow> load_requests N now (take m es) = Inr (take m rs)"
proof (induction es arbitrary: rs m)
  case (Cons e es)
  then show ?case by (cases m) (auto split: sum.splits)
qed simp

lemma replay_batch_take: "snd (replay_batch N R E b s) = None \<Longrightarrow> snd (replay_batch N R E (take m b) s) = None"
  using replay_batch_append [of N R E "take m b" "drop m b" s] by (auto split: prod.splits option.splits)

lemma batch_end_unat:
  assumes "start < last_idx" and "unat last_idx + 10001 < 2 ^ 64"
  shows "unat (batch_end start last_idx) = min (unat last_idx + 1) (unat start + 10000)"
proof -
  have "unat (last_idx + 1) = unat last_idx + 1" "unat (start + 10000) = unat start + 10000"
    using assms by (simp_all add: unat_word_ariths word_less_nat_alt)
  then show ?thesis by (simp add: batch_end_def word_less_nat_alt)
qed

lemma replay_returns:
  assumes N: "buffers_ok N" and io: "open_ok io" and small: "unat last_idx + 10001 < 2 ^ 64"
    and bound: "unat last_idx < n + length es"
  shows "file_log_ok lv N fs fl n es \<Longrightarrow> n \<le> unat start \<Longrightarrow> unat c + 1 = unat start \<Longrightarrow>
    load_requests N (now_ms E) (take (unat last_idx + 1 - unat start) (drop (unat start - n) es)) = Inr rs \<Longrightarrow>
    snd (replay_batch N R E (zip (take (unat last_idx + 1 - unat start) (drop (unat start - n) es)) rs) s) = None \<Longrightarrow>
    \<exists>st s' c'. replay N R E io fs start last_idx fl s c = Some (fl\<lparr>seg_store := st\<rparr>, s', c', None)
      \<and> last_log_index st = last_log_index (seg_store fl) \<and> unat c \<le> unat c' \<and> unat c' \<le> max (unat c) (unat last_idx) \<and> unat last_idx \<le> unat c' + 1
      \<and> replay_batch N R E (take (unat c' - unat c) (zip (take (unat last_idx + 1 - unat start) (drop (unat start - n) es)) rs)) s = (s', None)"
proof (induction "unat last_idx - unat start" arbitrary: fl start c s rs rule: less_induct)
  case less
  show ?case
  proof (cases "start < last_idx")
    case False
    then have "replay N R E io fs start last_idx fl s c = Some (fl\<lparr>seg_store := seg_store fl\<rparr>, s, c, None)" by (simp add: replay.simps)
    moreover have "unat last_idx \<le> unat c + 1" using False less.prems(3) by (simp add: word_less_nat_alt)
    ultimately show ?thesis by (intro exI [of _ "seg_store fl"] exI [of _ s] exI [of _ c]) simp
  next
    case True
    let ?b = "batch_end start last_idx"
    let ?w = "\<lambda>k. drop (k - n) es"
    note b = batch_end_unat [OF True small]
    have sb: "unat start < unat ?b" "unat ?b \<le> unat last_idx + 1" using True b by (auto simp: word_less_nat_alt)
    let ?all = "take (unat last_idx + 1 - unat start) (?w (unat start))"
    let ?x = "take (unat ?b - unat start) (?w (unat start))"
    let ?y = "take (unat last_idx + 1 - unat ?b) (?w (unat ?b))"
    have "drop (unat ?b - unat start) (?w (unat start)) = ?w (unat ?b)" using sb less.prems(2) by simp
    moreover have "unat last_idx + 1 - unat start = (unat ?b - unat start) + (unat last_idx + 1 - unat ?b)" using sb by simp
    ultimately have split: "?all = ?x @ ?y" by (simp add: take_add)
    have lx: "length ?x = unat ?b - unat start" using sb bound less.prems(2) by simp
    obtain r1 r2 where rs: "load_requests N (now_ms E) ?x = Inr r1" "load_requests N (now_ms E) ?y = Inr r2" "rs = r1 @ r2"
      using less.prems(4) unfolding split load_requests_append by (auto split: sum.splits)
    have l1: "length r1 = length ?x" by (rule load_requests_length [OF rs(1)])
    have zip: "zip ?all rs = zip ?x r1 @ zip ?y r2" unfolding split rs(3) by (rule zip_append) (simp add: l1)
    obtain st vs where v: "log_entries_version_ext N io fs fl start ?b 0 0 [] = (fl\<lparr>seg_store := st\<rparr>, Inr vs)"
      "map vle_entry vs = ?x" and ok1: "file_log_ok lv N fs (fl\<lparr>seg_store := st\<rparr>) n es" and ll: "last_log_index st = last_log_index (seg_store fl)"
      using version_entries_ok [OF N io less.prems(1,2), of ?b 0 "[]"] sb bound by auto
    obtain s1 where s1: "replay_batch N R E (zip ?x r1) s = (s1, None)"
      and s2: "snd (replay_batch N R E (zip ?y r2) s1) = None"
      using less.prems(5) unfolding zip replay_batch_append by (auto split: prod.splits option.splits)
    have c1: "unat (?b - 1) + 1 = unat ?b" using sb by (metis Suc_eq_plus1 Suc_pred' gr_implies_not0 less_nat_zero_code unat_minus_one unsigned_0 word_neq_0_conv not_gr_zero)
    have "unat last_idx - unat ?b < unat last_idx - unat start" using sb True by (simp add: word_less_nat_alt)
    from less.hyps [OF this ok1 _ c1 rs(2) s2] less.prems(2) sb
    obtain st' s' c' where r: "replay N R E io fs ?b last_idx (fl\<lparr>seg_store := st\<rparr>) s1 (?b - 1) = Some (fl\<lparr>seg_store := st\<rparr>\<lparr>seg_store := st'\<rparr>, s', c', None)"
      and ll': "last_log_index st' = last_log_index st" and le: "unat (?b - 1) \<le> unat c'" "unat c' \<le> max (unat (?b - 1)) (unat last_idx)" "unat last_idx \<le> unat c' + 1"
      and s': "replay_batch N R E (take (unat c' - unat (?b - 1)) (zip ?y r2)) s1 = (s', None)" by auto
    have "unat c' - unat c = length (zip ?x r1) + (unat c' - unat (?b - 1))" using c1 le(1) less.prems(3) sb lx l1 by simp
    then have "take (unat c' - unat c) (zip ?all rs) = zip ?x r1 @ take (unat c' - unat (?b - 1)) (zip ?y r2)"
      unfolding zip take_append by (simp only: take_all_iff) simp
    then have fin: "replay_batch N R E (take (unat c' - unat c) (zip ?all rs)) s = (s', None)" using s1 s' by (simp add: replay_batch_append)
    have "replay N R E io fs start last_idx fl s c = Some (fl\<lparr>seg_store := st'\<rparr>, s', c', None)"
      using True v rs(1) s1 r by (simp add: replay.simps [of N R E io fs start])
    moreover have "unat c \<le> unat c'" "unat c' \<le> max (unat c) (unat last_idx)" using le(1,2) c1 sb less.prems(3) by auto
    ultimately show ?thesis using fin ll ll' le(3) by (intro exI [of _ st'] exI [of _ s'] exI [of _ c']) simp
  qed
qed

end
