(* ===== verification/Processor_Order.thy ===== *)
theory Processor_Order
  imports Request_Processor "HOL-Library.Sublist"
begin

text \<open>
  The order in which the requests of a session are applied. Under any interleaving of the threads that
  push requests, commit them and report errors with the main thread and its runners, the requests of a
  session of this server are applied in the order in which the session sent them, and none is lost.
\<close>

section \<open>Frames\<close>

lemma apply_all_frame [simp]:
  "p_shutdown (apply_all W rs p) = p_shutdown p" "p_requests (apply_all W rs p) = p_requests p"
  "p_pending (apply_all W rs p) = p_pending p" "p_committed (apply_all W rs p) = p_committed p"
  "p_errors (apply_all W rs p) = p_errors p" "p_runner_count (apply_all W rs p) = p_runner_count p"
  by (simp_all add: apply_all_def split: prod.splits)

lemma set_pending_frame [simp]:
  "p_shutdown (set_pending p k m) = p_shutdown p" "p_requests (set_pending p k m) = p_requests p"
  "p_pending (set_pending p k m) = (p_pending p)(k := m)" "p_committed (set_pending p k m) = p_committed p"
  "p_errors (set_pending p k m) = p_errors p" "p_runner_count (set_pending p k m) = p_runner_count p"
  by (simp_all add: set_pending_def)

lemma getRunnerId_cong: "p_runner_count p' = p_runner_count p \<Longrightarrow> getRunnerId p' s = getRunnerId p s"
  by (simp add: getRunnerId_def)

section \<open>The requests of a session\<close>

definition nonauth :: "RequestForSession \<Rightarrow> bool" where
  "nonauth r \<longleftrightarrow> getOpNum (rs_request r) \<noteq> Op_Auth"

definition of_session :: "int64 \<Rightarrow> RequestForSession list \<Rightarrow> request list" where
  "of_session s rs = map rs_request (filter (\<lambda>r. rs_session_id r = s \<and> nonauth r) rs)"

lemma of_session_append [simp]: "of_session s (rs @ rs') = of_session s rs @ of_session s rs'"
  by (simp add: of_session_def)

lemma of_session_Nil [simp]: "of_session s [] = []"
  by (simp add: of_session_def)

definition writes :: "request list \<Rightarrow> request list" where
  "writes rs = filter (\<lambda>r. \<not> isReadRequest r) rs"

lemma writes_append [simp]: "writes (xs @ ys) = writes xs @ writes ys"
  by (simp add: writes_def)

definition head_write :: "request list \<Rightarrow> bool" where
  "head_write rs \<longleftrightarrow> rs = [] \<or> \<not> isReadRequest (hd rs)"

definition queued :: "processor \<Rightarrow> int64 \<Rightarrow> request list" where
  "queued p s = of_session s (items (p_requests p ! getRunnerId p s))"

definition pending :: "processor \<Rightarrow> int64 \<Rightarrow> request list" where
  "pending p s = map rs_request (pending_list (p_pending p (getRunnerId p s)) s)"

definition committed :: "processor \<Rightarrow> int64 \<Rightarrow> request list" where
  "committed p s = of_session s (items (p_committed p))"

text \<open>Requests wait with the runner of their session; authentication requests never wait.\<close>

definition pending_wf :: "nat \<Rightarrow> nat \<Rightarrow> (int64 \<rightharpoonup> RequestForSession list) \<Rightarrow> bool" where
  "pending_wf n k m \<longleftrightarrow> finite (dom m) \<and>
     (\<forall>sid rs. m sid = Some rs \<longrightarrow> runner_of n sid = k \<and> (\<forall>r\<in>set rs. rs_session_id r = sid \<and> nonauth r))"

definition proc_wf :: "processor \<Rightarrow> bool" where
  "proc_wf p \<longleftrightarrow>
     0 < p_runner_count p \<and> length (p_requests p) = p_runner_count p
   \<and> (\<forall>k<p_runner_count p. \<not> is_finished (p_requests p ! k))
   \<and> (\<forall>k<p_runner_count p. \<forall>r\<in>set (items (p_requests p ! k)). runner_of (p_runner_count p) (rs_session_id r) = k)
   \<and> (\<forall>k. pending_wf (p_runner_count p) k (p_pending p k))"

lemma proc_wfD:
  assumes "proc_wf p"
  shows "0 < p_runner_count p" "length (p_requests p) = p_runner_count p" "getRunnerId p s < p_runner_count p"
    "k < p_runner_count p \<Longrightarrow> r \<in> set (items (p_requests p ! k)) \<Longrightarrow> runner_of (p_runner_count p) (rs_session_id r) = k"
    "pending_wf (p_runner_count p) k (p_pending p k)" "k < p_runner_count p \<Longrightarrow> \<not> is_finished (p_requests p ! k)"
  using assms by (auto simp: proc_wf_def getRunnerId_def runner_of_def)

lemma pending_wf_del: "pending_wf n k m \<Longrightarrow> pending_wf n k (m(sid := None))"
  by (auto simp: pending_wf_def)

lemma pending_wf_sub:
  "\<lbrakk>pending_wf n k m; set rs \<subseteq> set (pending_list m sid); rs \<noteq> []\<rbrakk> \<Longrightarrow> pending_wf n k (m(sid \<mapsto> rs))"
  by (cases "m sid") (auto simp: pending_wf_def pending_list_def)

section \<open>Errors of other sessions\<close>

lemma find_error_set: "find_error xid op rs = (f, rs') \<Longrightarrow> set rs' \<subseteq> set rs"
  by (induction rs arbitrary: f rs') (auto split: if_splits prod.splits)

definition same_for :: "int64 \<Rightarrow> processor \<Rightarrow> processor \<Rightarrow> bool" where
  "same_for s p p' \<longleftrightarrow>
     p_shutdown p' = p_shutdown p \<and> p_requests p' = p_requests p \<and> p_committed p' = p_committed p
   \<and> p_runner_count p' = p_runner_count p \<and> (\<forall>k. p_pending p' k s = p_pending p k s)
   \<and> (\<forall>x. p_errors p (s, x) = None \<longrightarrow> p_errors p' (s, x) = None) \<and> (proc_wf p \<longrightarrow> proc_wf p')"

lemma same_for_refl: "same_for s p p"
  by (simp add: same_for_def)

lemma same_for_trans: "same_for s p p' \<Longrightarrow> same_for s p' p'' \<Longrightarrow> same_for s p p''"
  by (simp add: same_for_def)

lemma pending_wf_weak:
  "\<lbrakk>pending_wf n k m; m sid = Some rs; set rs' \<subseteq> set rs\<rbrakk> \<Longrightarrow> pending_wf n k (m(sid \<mapsto> rs'))"
  by (auto simp: pending_wf_def)

lemma match_error_other:
  assumes "match_error W m sid xid op = (found, m')"
  shows "s \<noteq> sid \<Longrightarrow> m' s = m s" and "pending_wf n k m \<Longrightarrow> pending_wf n k m'"
  using assms find_error_set pending_wf_weak
  by (auto simp: match_error_def split: if_splits option.splits prod.splits)

lemma error_one_other:
  assumes none: "\<forall>x. p_errors p (s, x) = None" and e: "error_one W p key = (p', go)"
  shows "same_for s p p'"
proof -
  obtain sid xid where key: "key = (sid, xid)" by fastforce
  show ?thesis
  proof (cases "p_errors p (sid, xid)")
    case None
    then show ?thesis using e same_for_refl by (simp add: error_one_def key)
  next
    case (Some er)
    then have ne: "s \<noteq> sid" using none by auto
    let ?k = "getRunnerId p sid"
    show ?thesis
    proof (cases "local_session W sid")
      case False
      then show ?thesis
        using e Some ne pending_wf_del by (auto simp: error_one_def key same_for_def proc_wf_def Let_def)
    next
      case True
      obtain found m where m: "match_error W (p_pending p ?k) sid xid (er_opnum er) = (found, m)" by fastforce
      note mo = match_error_other [OF m]
      show ?thesis
      proof (cases found)
        case None
        then have "p' = p" using e Some True m by (simp add: error_one_def key)
        then show ?thesis by (simp add: same_for_refl)
      next
        case found: (Some r)
        let ?err = "if er_error_code er = timeout_code W then ZOPERATIONTIMEOUT else ZCONNECTIONLOSS"
        have p': "p' = (set_pending p ?k m)\<lparr>p_errors := (p_errors p)(key := None),
            p_responses := tsq_push (p_responses p) (sid, snd (error_response r ?err))\<rparr>"
          using e Some True m found by (simp add: error_one_def key Let_def)
        have "proc_wf p \<longrightarrow> proc_wf p'" using mo(2) [of "p_runner_count p" ?k] by (simp add: p' proc_wf_def)
        moreover have "p_pending p' k s = p_pending p k s" for k using mo(1) [OF ne] by (simp add: p')
        ultimately show ?thesis by (simp add: same_for_def p')
      qed
    qed
  qed
qed

lemma process_errors_other:
  "(\<forall>x. p_errors p (s, x) = None) \<Longrightarrow> same_for s p (process_errors W keys p)"
proof (induction keys arbitrary: p)
  case (Cons key keys)
  obtain p1 go where e: "error_one W p key = (p1, go)" by fastforce
  have same: "same_for s p p1" by (rule error_one_other [OF Cons.prems e])
  then have "same_for s p1 (process_errors W keys p1)" using Cons.prems by (intro Cons.IH) (simp add: same_for_def)
  then show ?case using e same same_for_trans by simp
qed (simp add: same_for_refl)

section \<open>Moving requests to the pending ones\<close>

lemma tryPop_Cons: "items q = x # xs \<Longrightarrow> bq_tryPop q = (q\<lparr>items := xs\<rparr>, Some x)"
  by (simp add: bq_tryPop_def popImpl_def)

lemma move_loop_eq:
  "\<lbrakk>k < length (p_requests p); items (p_requests p ! k) = rs\<rbrakk> \<Longrightarrow>
    move_loop (length rs) k p =
      p\<lparr>p_requests := (p_requests p)[k := (p_requests p ! k)\<lparr>items := []\<rparr>],
        p_pending := (p_pending p)(k := fold push_pending (filter nonauth rs) (p_pending p k))\<rparr>"
proof (induction rs arbitrary: p)
  case Nil
  then have "(p_requests p ! k)\<lparr>items := []\<rparr> = p_requests p ! k" by (metis bounded_queue.surjective bounded_queue.update_convs(1))
  then show ?case by simp
next
  case (Cons r rs)
  let ?q = "(p_requests p ! k)\<lparr>items := rs\<rparr>"
  let ?p = "if nonauth r then set_pending (p\<lparr>p_requests := (p_requests p)[k := ?q]\<rparr>) k (push_pending r (p_pending p k))
            else p\<lparr>p_requests := (p_requests p)[k := ?q]\<rparr>"
  have "move_loop (length (r # rs)) k p = move_loop (length rs) k ?p"
    using Cons.prems(2) by (simp add: rq_tryPop_def tryPop_Cons nonauth_def)
  also have "\<dots> = ?p\<lparr>p_requests := (p_requests ?p)[k := (p_requests ?p ! k)\<lparr>items := []\<rparr>],
        p_pending := (p_pending ?p)(k := fold push_pending (filter nonauth rs) (p_pending ?p k))\<rparr>"
    by (rule Cons.IH) (use Cons.prems in simp_all)
  finally have e: "move_loop (length (r # rs)) k p = \<dots>" .
  show ?case unfolding e using Cons.prems(1) by (cases "nonauth r") (simp_all add: set_pending_def fun_upd_def cong: if_cong)
qed

lemma push_pending_list:
  "pending_list (push_pending r m) s = pending_list m s @ (if rs_session_id r = s then [r] else [])"
  by (simp add: push_pending_def pending_list_def)

lemma fold_push_pending_list:
  "pending_list (fold push_pending rs m) s = pending_list m s @ filter (\<lambda>r. rs_session_id r = s) rs"
  by (induction rs arbitrary: m) (simp_all add: push_pending_list)

lemma push_pending_wf:
  "\<lbrakk>pending_wf n k m; nonauth r; runner_of n (rs_session_id r) = k\<rbrakk> \<Longrightarrow> pending_wf n k (push_pending r m)"
  by (cases "m (rs_session_id r)") (auto simp: pending_wf_def push_pending_def pending_list_def)

lemma fold_push_pending_wf:
  "\<lbrakk>pending_wf n k m; \<forall>r\<in>set rs. nonauth r \<and> runner_of n (rs_session_id r) = k\<rbrakk> \<Longrightarrow> pending_wf n k (fold push_pending rs m)"
  by (induction rs arbitrary: m) (simp_all add: push_pending_wf)

lemma move_ok:
  assumes wf: "proc_wf p" and k: "k < p_runner_count p"
  defines "p' \<equiv> moveRequestToPendingQueue p k"
  shows "proc_wf p'" and "p_committed p' = p_committed p" and "p_errors p' = p_errors p" and "p_runner_count p' = p_runner_count p"
    and "pending p' s @ queued p' s = pending p s @ queued p s" and "k = getRunnerId p s \<Longrightarrow> queued p' s = []"
    and "k \<noteq> getRunnerId p s \<Longrightarrow> pending p' s = pending p s"
proof -
  have len: "k < length (p_requests p)" using proc_wfD(2) [OF wf] k by simp
  let ?rs = "items (p_requests p ! k)"
  let ?m = "fold push_pending (filter nonauth ?rs) (p_pending p k)"
  have p': "p' = p\<lparr>p_requests := (p_requests p)[k := (p_requests p ! k)\<lparr>items := []\<rparr>], p_pending := (p_pending p)(k := ?m)\<rparr>"
    unfolding p'_def moveRequestToPendingQueue_def rq_size_at_def bq_size_def by (rule move_loop_eq [OF len refl])
  have "pending_wf (p_runner_count p) k ?m"
    by (rule fold_push_pending_wf [OF proc_wfD(5) [OF wf]]) (use proc_wfD(4) [OF wf k] in auto)
  then show "proc_wf p'" using wf len by (auto simp: p' proc_wf_def nth_list_update)
  show "p_committed p' = p_committed p" "p_errors p' = p_errors p" and rc: "p_runner_count p' = p_runner_count p" by (simp_all add: p')
  note gr = getRunnerId_cong [OF rc]
  have f: "filter (\<lambda>x. nonauth x \<and> rs_session_id x = s) ?rs = filter (\<lambda>r. rs_session_id r = s \<and> nonauth r) ?rs"
    by (rule filter_cong) auto
  show "pending p' s @ queued p' s = pending p s @ queued p s"
    using len by (simp add: pending_def queued_def gr) (auto simp: p' of_session_def fold_push_pending_list f)
  show "k = getRunnerId p s \<Longrightarrow> queued p' s = []"
    using len by (simp add: queued_def gr) (simp add: p')
  show "k \<noteq> getRunnerId p s \<Longrightarrow> pending p' s = pending p s"
    by (simp add: pending_def gr) (simp add: p')
qed

section \<open>Reading\<close>

lemma reads_split: "reads_of rs @ after_reads rs = rs"
  by (simp add: reads_of_def after_reads_def)

lemma reads_no_writes: "writes (map rs_request (reads_of rs)) = []"
  by (auto simp: writes_def reads_of_def filter_empty_conv dest: set_takeWhileD)

lemma head_after_reads: "head_write (map rs_request (after_reads rs))"
  by (induction rs) (auto simp: head_write_def after_reads_def)

lemma pending_list_wf:
  "pending_wf n k m \<Longrightarrow> r \<in> set (pending_list m s) \<Longrightarrow> rs_session_id r = s \<and> nonauth r"
  by (cases "m s") (auto simp: pending_wf_def pending_list_def)

lemma after_reads_wf:
  assumes "pending_wf n k m" and "m sid = Some rs"
  shows "pending_wf n k (m(sid := (if after_reads rs = [] then None else Some (after_reads rs))))"
proof -
  have "set (after_reads rs) \<subseteq> set rs" by (auto simp: after_reads_def dest: set_dropWhileD)
  then show ?thesis using pending_wf_weak [OF assms] pending_wf_del [OF assms(1)] by simp
qed

lemma read_sessions_ok:
  "\<lbrakk>read_sessions sids m = (m', applied); distinct sids; pending_wf n k m\<rbrakk> \<Longrightarrow>
    pending_wf n k m'
    \<and> pending_list m' s = (if s \<in> set sids then after_reads (pending_list m s) else pending_list m s)
    \<and> filter (\<lambda>r. rs_session_id r = s \<and> nonauth r) applied = (if s \<in> set sids then reads_of (pending_list m s) else [])"
proof (induction sids arbitrary: m m' applied)
  case (Cons sid sids)
  show ?case
  proof (cases "m sid")
    case None
    then have "s = sid \<Longrightarrow> reads_of (pending_list m s) = [] \<and> after_reads (pending_list m s) = pending_list m s"
      by (simp add: pending_list_def reads_of_def after_reads_def)
    then show ?thesis using Cons.IH [of m m' applied] Cons.prems None by auto
  next
    case (Some rs)
    let ?m = "m(sid := (if after_reads rs = [] then None else Some (after_reads rs)))"
    obtain a2 where r: "read_sessions sids ?m = (m', a2)" and a: "applied = reads_of rs @ a2"
      using Cons.prems(1) Some by (auto split: prod.splits)
    have pl: "pending_list m sid = rs" using Some by (simp add: pending_list_def)
    have all: "\<forall>r\<in>set (reads_of rs). rs_session_id r = sid \<and> nonauth r"
      using pending_list_wf [OF Cons.prems(3), of _ sid] pl by (auto simp: reads_of_def dest: set_takeWhileD)
    then have f: "filter (\<lambda>r. rs_session_id r = s \<and> nonauth r) (reads_of rs) = (if s = sid then reads_of rs else [])"
      by (auto simp: filter_empty_conv intro: filter_True)
    have "pending_list ?m s = (if s = sid then after_reads rs else pending_list m s)"
      by (simp add: pending_list_def)
    then show ?thesis
      using Cons.IH [OF r _ after_reads_wf [OF Cons.prems(3) Some]] Cons.prems(2) a f pl by auto
  qed
qed simp

lemma reads_ok:
  assumes wf: "proc_wf p" and env: "env_ok (store_env W)" and r: "processReadRequests W p k = (p', applied)"
  shows "proc_wf p'" and "p_committed p' = p_committed p" and "p_errors p' = p_errors p" and "p_runner_count p' = p_runner_count p"
    and "queued p' s = queued p s" and "pending p s = of_session s applied @ pending p' s" and "writes (of_session s applied) = []"
    and "k = getRunnerId p s \<Longrightarrow> head_write (pending p' s)" and "k \<noteq> getRunnerId p s \<Longrightarrow> pending p' s = pending p s"
proof -
  let ?n = "p_runner_count p" and ?m = "p_pending p k" and ?sids = "sid_order (store_env W) (dom (p_pending p k))"
  obtain m' where m: "read_sessions ?sids ?m = (m', applied)" and p': "p' = apply_all W applied (set_pending p k m')"
    using r by (auto simp: processReadRequests_def split: prod.splits)
  have pw: "pending_wf ?n k ?m" by (rule proc_wfD(5) [OF wf])
  then have fin: "finite (dom ?m)" by (simp add: pending_wf_def)
  have sids: "distinct ?sids" "set ?sids = dom ?m"
    using enumeratesD [OF _ fin, of "sid_order (store_env W)"] env by (simp_all add: env_ok_def)
  note ok = read_sessions_ok [OF m sids(1) pw, of s]
  show "proc_wf p'" using wf ok by (simp add: p' proc_wf_def)
  show "p_committed p' = p_committed p" "p_errors p' = p_errors p" and rc: "p_runner_count p' = p_runner_count p" by (simp_all add: p')
  note gr = getRunnerId_cong [OF rc]
  show "queued p' s = queued p s" by (simp add: queued_def gr) (simp add: p')
  let ?rs = "pending_list ?m s"
  have ap: "of_session s applied = (if s \<in> set ?sids then map rs_request (reads_of ?rs) else [])"
    using ok by (simp add: of_session_def)
  then show "writes (of_session s applied) = []" by (simp add: reads_no_writes) (simp add: writes_def)
  show "pending p s = of_session s applied @ pending p' s"
  proof (cases "k = getRunnerId p s")
    case True
    show ?thesis
    proof (cases "s \<in> set ?sids")
      case True
      have "map rs_request ?rs = map rs_request (reads_of ?rs @ after_reads ?rs)" by (simp add: reads_split)
      then show ?thesis
        using True ok ap \<open>k = getRunnerId p s\<close> by (simp add: pending_def gr) (simp add: p')
    next
      case False
      then show ?thesis using ok ap \<open>k = getRunnerId p s\<close> by (simp add: pending_def gr) (simp add: p')
    qed
  next
    case False
    then have "s \<notin> set ?sids" using pw sids(2) by (auto simp: pending_wf_def getRunnerId_def)
    then show ?thesis using ap False by (simp add: pending_def gr) (simp add: p')
  qed
  show "k \<noteq> getRunnerId p s \<Longrightarrow> pending p' s = pending p s" by (simp add: pending_def gr) (simp add: p')
  have "s \<notin> set ?sids \<Longrightarrow> ?rs = []" using sids(2) by (auto simp: pending_list_def split: option.splits)
  then have "pending_list m' s = after_reads ?rs" using ok by (auto simp: after_reads_def)
  then show "k = getRunnerId p s \<Longrightarrow> head_write (pending p' s)"
    using head_after_reads [of ?rs] by (simp add: pending_def gr) (simp add: p')
qed

section \<open>Committed requests\<close>

lemma drop_through_set: "set (drop_through c rs) \<subseteq> set rs"
  by (induction rs) auto

lemma commit_one_cases:
  assumes "commit_one W p = (p', applied, go)" and "items (p_committed p) = c # cs"
  obtains (waits) "p' = p" "applied = []" "\<not> go" "local_session W (rs_session_id c)" "nonauth c"
      "must_wait p c (pending_list (p_pending p (getRunnerId p (rs_session_id c))) (rs_session_id c))"
  | (applies) rs where "applied = [c]" "go"
      "p' = apply_all W [c] ((set_pending p (getRunnerId p (rs_session_id c))
        ((p_pending p (getRunnerId p (rs_session_id c)))(rs_session_id c := (if rs = [] then None else Some rs))))
          \<lparr>p_committed := (p_committed p)\<lparr>items := cs\<rparr>\<rparr>)"
      "set rs \<subseteq> set (pending_list (p_pending p (getRunnerId p (rs_session_id c))) (rs_session_id c))"
      "local_session W (rs_session_id c) \<and> nonauth c \<Longrightarrow>
        rs = drop_through c (pending_list (p_pending p (getRunnerId p (rs_session_id c))) (rs_session_id c))
        \<and> \<not> must_wait p c (pending_list (p_pending p (getRunnerId p (rs_session_id c))) (rs_session_id c))"
proof -
  let ?k = "getRunnerId p (rs_session_id c)"
  let ?rs = "pending_list (p_pending p ?k) (rs_session_id c)"
  have peek: "bq_peek (p_committed p) = Some c" and pop: "fst (bq_tryPop (p_committed p)) = (p_committed p)\<lparr>items := cs\<rparr>"
    using assms(2) by (simp_all add: bq_peek_def tryPop_Cons)
  show ?thesis
  proof (cases "local_session W (rs_session_id c) \<and> nonauth c")
    case False
    then show ?thesis
      using assms(1) peek pop applies [of "[]"] by (auto simp: commit_one_def nonauth_def Let_def)
  next
    case True
    show ?thesis
    proof (cases "must_wait p c ?rs")
      case wait: True
      then show ?thesis
        using True assms(1) peek waits by (simp add: commit_one_def nonauth_def Let_def)
    next
      case False
      then have "applied = [c] \<and> go \<and> p' = apply_all W [c] ((set_pending p ?k
          ((p_pending p ?k)(rs_session_id c := (if drop_through c ?rs = [] then None else Some (drop_through c ?rs)))))
            \<lparr>p_committed := (p_committed p)\<lparr>items := cs\<rparr>\<rparr>)"
        using True assms(1) peek pop by (auto simp: commit_one_def nonauth_def Let_def)
      then show ?thesis using False drop_through_set [of c ?rs] by (intro applies [of "drop_through c ?rs"]) simp_all
    qed
  qed
qed

lemma commit_wf:
  assumes "proc_wf p" and "set rs \<subseteq> set (pending_list (p_pending p k) sid)"
  shows "proc_wf (apply_all W x ((set_pending p k ((p_pending p k)(sid := (if rs = [] then None else Some rs))))\<lparr>p_committed := q\<rparr>))"
proof -
  have "pending_wf (p_runner_count p) k ((p_pending p k)(sid := (if rs = [] then None else Some rs)))"
    using pending_wf_del [OF proc_wfD(5) [OF assms(1)]] pending_wf_sub [OF proc_wfD(5) [OF assms(1)] assms(2)]
    by (cases "rs = []") simp_all
  then show ?thesis using assms(1) by (cases "rs = []") (simp_all add: proc_wf_def)
qed

lemma commit_one_ok:
  assumes wf: "proc_wf p" and c: "commit_one W p = (p', applied, go)" and loc: "local_session W s"
    and na: "\<forall>r\<in>set (items (p_committed p)). rs_session_id r = s \<longrightarrow> nonauth r"
    and pre: "prefix (of_session s (take (Suc n) (items (p_committed p)))) (writes (pending p s))"
    and dist: "distinct (map req_xid (pending p s))"
  shows "proc_wf p' \<and> p_errors p' = p_errors p \<and> p_runner_count p' = p_runner_count p \<and> queued p' s = queued p s
    \<and> pending p s = of_session s applied @ pending p' s \<and> committed p s = writes (of_session s applied) @ committed p' s
    \<and> set (items (p_committed p')) \<subseteq> set (items (p_committed p))
    \<and> (go \<longrightarrow> prefix (of_session s (take n (items (p_committed p')))) (writes (pending p' s)))"
proof (cases "items (p_committed p)")
  case Nil
  then have "p' = p" "applied = []" "go" using c by (simp_all add: commit_one_def bq_peek_def)
  then show ?thesis using wf Nil by (simp add: writes_def)
next
  case (Cons c cs)
  show ?thesis
  proof (cases rule: commit_one_cases [OF c Cons])
    case 1
    then show ?thesis using wf by (simp add: writes_def)
  next
    case (2 rs)
    let ?k = "getRunnerId p (rs_session_id c)"
    note wf' = commit_wf [OF wf 2(4), of W "[c]" "(p_committed p)\<lparr>items := cs\<rparr>"]
    have rc: "p_runner_count p' = p_runner_count p" by (simp add: 2(3))
    note gr = getRunnerId_cong [OF rc]
    have base: "proc_wf p'" "p_errors p' = p_errors p" "queued p' s = queued p s" "items (p_committed p') = cs"
      using wf' by (simp_all add: 2(3) queued_def getRunnerId_def)
    show ?thesis
    proof (cases "rs_session_id c = s")
      case False
      then have "pending p' s = pending p s"
        by (simp add: pending_def gr) (auto simp: 2(3) pending_list_def)
      then show ?thesis
        using base rc 2(1) False pre Cons by (simp add: of_session_def committed_def writes_def) auto
    next
      case True
      let ?rs = "pending_list (p_pending p ?k) s"
      have nc: "nonauth c" using na True Cons by simp
      have "pending p s = map rs_request ?rs" using True by (simp add: pending_def)
      then obtain zs where zs: "writes (map rs_request ?rs) = rs_request c # of_session s (take n cs) @ zs"
        using pre Cons True nc by (auto simp: prefix_def of_session_def)
      then obtain h t where h: "?rs = h # t" by (cases ?rs) (auto simp: writes_def)
      have cw: "rs_request c \<in> set (writes (map rs_request ?rs))" using zs by simp
      have nw: "\<not> must_wait p c ?rs" and rs: "rs = drop_through c ?rs"
        using 2(5) loc nc True by auto
      have "\<not> isReadRequest (rs_request h)"
      proof
        assume read: "isReadRequest (rs_request h)"
        then have "req_xid (rs_request h) = req_xid (rs_request c)" using nw h by (auto simp: must_wait_def split: if_splits)
        moreover have "rs_request c \<in> set (map rs_request t)" using cw h read by (auto simp: writes_def)
        ultimately show False using dist True h by (auto simp: pending_def)
      qed
      then have hc: "rs_request h = rs_request c" "writes (map rs_request t) = of_session s (take n cs) @ zs"
        using zs h by (simp_all add: writes_def)
      have "rs = t" using rs h hc(1) by simp
      then have p's: "pending p' s = map rs_request t"
        using True by (simp add: pending_def gr) (simp add: 2(3) pending_list_def)
      have "of_session s [c] = [rs_request c]" "\<not> isReadRequest (rs_request c)"
        using True nc hc(1) \<open>\<not> isReadRequest (rs_request h)\<close> by (simp_all add: of_session_def)
      then show ?thesis
        using base rc 2(1) p's hc h True Cons nc
        by (simp add: committed_def pending_def prefix_def) (auto simp: of_session_def writes_def)
    qed
  qed
qed

lemma commit_one_finished:
  "commit_one W p = (p', applied, go) \<Longrightarrow> is_finished (p_committed p') = is_finished (p_committed p)"
  by (cases "items (p_committed p)")
    (auto simp: commit_one_def bq_peek_def Let_def tryPop_Cons split: if_splits)

lemma commit_one_size:
  "commit_one W p = (p', applied, True) \<Longrightarrow> Suc n \<le> length (items (p_committed p)) \<Longrightarrow> n \<le> length (items (p_committed p'))"
  by (cases "items (p_committed p)")
    (auto simp: commit_one_def bq_peek_def Let_def tryPop_Cons split: if_splits)

section \<open>Requests that arrive\<close>

lemma push_ok:
  assumes wf: "proc_wf p" and push: "proc_push p r = Some p'" "\<not> p_shutdown p"
  shows "proc_wf p'" and "queued p' s = queued p s @ of_session s [r]" and "pending p' s = pending p s"
    and "p_committed p' = p_committed p" and "p_errors p' = p_errors p" and "p_runner_count p' = p_runner_count p"
proof -
  let ?k = "runner_of (p_runner_count p) (rs_session_id r)"
  have k: "?k < p_runner_count p" using proc_wfD(1) [OF wf] by (simp add: runner_of_def)
  have len: "length (p_requests p) = p_runner_count p" by (rule proc_wfD(2) [OF wf])
  let ?q = "(p_requests p ! ?k)\<lparr>items := items (p_requests p ! ?k) @ [r]\<rparr>"
  have p': "p' = p\<lparr>p_requests := (p_requests p)[?k := ?q]\<rparr>"
    using push len proc_wfD(6) [OF wf k]
    by (auto simp: proc_push_def rq_push_def bq_push_def emplaceImpl_def Let_def split: if_splits)
  show "proc_wf p'" using wf k by (auto simp: p' proc_wf_def nth_list_update)
  show "p_committed p' = p_committed p" "p_errors p' = p_errors p" and rc: "p_runner_count p' = p_runner_count p" by (simp_all add: p')
  note gr = getRunnerId_cong [OF rc]
  show "pending p' s = pending p s" by (simp add: pending_def gr) (simp add: p')
  show "queued p' s = queued p s @ of_session s [r]"
    using k len by (simp add: queued_def gr) (auto simp: p' nth_list_update getRunnerId_def of_session_def)
qed

lemma commit_ok:
  assumes "proc_commit p r = Some p'" "\<not> p_shutdown p" "\<not> is_finished (p_committed p)"
  shows "p' = p\<lparr>p_committed := (p_committed p)\<lparr>items := items (p_committed p) @ [r]\<rparr>\<rparr>"
  using assms by (auto simp: proc_commit_def bq_push_def emplaceImpl_def split: if_splits)

section \<open>Runs\<close>

text \<open>
  \<open>proc_run s ph p P C A\<close>: a run in which the session \<open>s\<close> belongs to this server and none of its requests
  failed; \<open>P\<close> are the requests it pushed, \<open>C\<close> those that Raft committed and \<open>A\<close> those that were applied,
  each in order. Raft commits the writes of the session in the order in which they were pushed; the
  session sends no authentication request while it runs. Nothing is assumed of other sessions.
\<close>

inductive proc_run ::
    "int64 \<Rightarrow> proc_phase \<Rightarrow> processor \<Rightarrow> request list \<Rightarrow> request list \<Rightarrow> request list \<Rightarrow> bool" for s where
  start: "0 < n \<Longrightarrow> proc_run s Round_Start (new_processor n st) [] [] []"
| push: "\<lbrakk>proc_run s ph p P C A; proc_push p r = Some p'; \<not> p_shutdown p; distinct (map req_xid (P @ of_session s [r]))\<rbrakk>
    \<Longrightarrow> proc_run s ph p' (P @ of_session s [r]) C A"
| commit: "\<lbrakk>proc_run s ph p P C A; proc_commit p r = Some p'; \<not> p_shutdown p; rs_session_id r = s \<longrightarrow> nonauth r;
      prefix (C @ of_session s [r]) (writes P)\<rbrakk>
    \<Longrightarrow> proc_run s ph p' P (C @ of_session s [r]) A"
| error: "\<lbrakk>proc_run s ph p P C A; sid \<noteq> s\<rbrakk> \<Longrightarrow> proc_run s ph (onError p accepted code sid xid opnum) P C A"
| main: "\<lbrakk>proc_run s ph p P C A; local_session W s; env_ok (store_env W); main_step W (ph, p) applied (ph', p')\<rbrakk>
    \<Longrightarrow> proc_run s ph' p' P C (A @ of_session s applied)"

fun phase_ok :: "int64 \<Rightarrow> proc_phase \<Rightarrow> processor \<Rightarrow> bool" where
  "phase_ok s Round_Start p \<longleftrightarrow> True"
| "phase_ok s (Reading n R M) p \<longleftrightarrow>
     R \<subseteq> {0..<p_runner_count p} \<and> n \<le> length (items (p_committed p))
   \<and> (getRunnerId p s \<in> R \<or> prefix (of_session s (take n (items (p_committed p)))) (writes (pending p s)))
   \<and> (getRunnerId p s \<in> R \<union> M \<or> head_write (pending p s))"
| "phase_ok s (Committing n) p \<longleftrightarrow>
     n \<le> length (items (p_committed p)) \<and> prefix (of_session s (take n (items (p_committed p)))) (writes (pending p s))"

definition proc_ok :: "int64 \<Rightarrow> proc_phase \<Rightarrow> processor \<Rightarrow> request list \<Rightarrow> request list \<Rightarrow> request list \<Rightarrow> bool" where
  "proc_ok s ph p P C A \<longleftrightarrow>
     proc_wf p \<and> \<not> is_finished (p_committed p) \<and> P = A @ pending p s @ queued p s \<and> C = writes A @ committed p s
   \<and> prefix C (writes P) \<and> distinct (map req_xid P) \<and> (\<forall>x. p_errors p (s, x) = None)
   \<and> (\<forall>r\<in>set (items (p_committed p)). rs_session_id r = s \<longrightarrow> nonauth r) \<and> phase_ok s ph p"

lemma proc_okD:
  assumes "proc_ok s ph p P C A"
  shows "proc_wf p" "\<not> is_finished (p_committed p)" "P = A @ pending p s @ queued p s" "C = writes A @ committed p s"
    "prefix C (writes P)" "distinct (map req_xid P)" "\<forall>x. p_errors p (s, x) = None"
    "\<forall>r\<in>set (items (p_committed p)). rs_session_id r = s \<longrightarrow> nonauth r" "phase_ok s ph p"
  using assms unfolding proc_ok_def by blast+

lemma take_committed: "prefix (of_session s (take n (items (p_committed p)))) (committed p s)"
  by (metis append_take_drop_id committed_def of_session_append prefixI)

lemma phase_ok_grows:
  assumes "phase_ok s ph p" and "pending p' s = pending p s" and "p_runner_count p' = p_runner_count p"
    and "items (p_committed p') = items (p_committed p) @ rs"
  shows "phase_ok s ph p'"
  using assms getRunnerId_cong [OF assms(3)] by (cases ph) auto

lemma same_for_requests:
  assumes "same_for s p p'"
  shows "pending p' s = pending p s" and "queued p' s = queued p s" and "committed p' s = committed p s"
  using assms by (simp_all add: same_for_def pending_def queued_def committed_def pending_list_def getRunnerId_def)

text \<open>A step of the main thread only moves requests of the session along.\<close>

lemma proc_ok_step:
  assumes ok: "proc_ok s ph p P C A" and wf: "proc_wf p'" and fin: "is_finished (p_committed p') = is_finished (p_committed p)"
    and P: "pending p s @ queued p s = B @ pending p' s @ queued p' s" and C: "committed p s = writes B @ committed p' s"
    and err: "\<forall>x. p_errors p' (s, x) = None" and sub: "set (items (p_committed p')) \<subseteq> set (items (p_committed p))"
    and ph: "phase_ok s ph' p'"
  shows "proc_ok s ph' p' P C (A @ B)"
proof -
  note d = proc_okD [OF ok]
  have "P = (A @ B) @ pending p' s @ queued p' s" "C = writes (A @ B) @ committed p' s" using d(3,4) P C by simp_all
  moreover have "\<forall>r\<in>set (items (p_committed p')). rs_session_id r = s \<longrightarrow> nonauth r" using d(8) sub by blast
  ultimately show ?thesis unfolding proc_ok_def using wf err ph d(2,5,6) fin by blast
qed

lemma main_step_errors:
  assumes ok: "proc_ok s Round_Start p P C A" and p': "p' = processErrorRequest W p"
  shows "proc_ok s (Reading (bq_size (p_committed p')) {0..<p_runner_count p'} {}) p' P C A"
proof -
  have same: "same_for s p p'"
    unfolding p' processErrorRequest_def by (rule process_errors_other) (use ok in \<open>simp add: proc_ok_def\<close>)
  then have "proc_wf p'" using ok by (simp add: same_for_def proc_ok_def)
  then have "getRunnerId p' s < p_runner_count p'" by (rule proc_wfD(3))
  then have "phase_ok s (Reading (bq_size (p_committed p')) {0..<p_runner_count p'} {}) p'" by (simp add: bq_size_def)
  moreover have "\<forall>x. p_errors p' (s, x) = None" using same ok by (simp add: same_for_def proc_ok_def)
  ultimately show ?thesis
    using proc_ok_step [OF ok \<open>proc_wf p'\<close>, of "[]"] same same_for_requests [OF same]
    by (simp add: same_for_def writes_def)
qed

lemma main_step_move:
  assumes ok: "proc_ok s (Reading n R M) p P C A" and k: "k \<in> R"
  shows "proc_ok s (Reading n (R - {k}) (insert k M)) (moveRequestToPendingQueue p k) P C A"
proof -
  let ?p = "moveRequestToPendingQueue p k"
  have wf: "proc_wf p" and kr: "k < p_runner_count p" using ok k by (auto simp: proc_ok_def)
  note mo = move_ok [OF wf kr]
  note gr = getRunnerId_cong [OF mo(4), of s]
  note C = proc_okD(4,5,3) [OF ok]
  have P: "P = A @ pending ?p s @ queued ?p s" using C(3) mo(5) by simp
  have "prefix (of_session s (take n (items (p_committed p)))) (writes (pending ?p s))" if "k = getRunnerId p s"
  proof -
    have "prefix (committed p s) (writes (pending ?p s))" using C P mo(6) [OF that] by simp
    then show ?thesis using take_committed prefix_order.trans by blast
  qed
  then have "phase_ok s (Reading n (R - {k}) (insert k M)) ?p"
    using ok mo(2,4,7) gr by (cases "k = getRunnerId p s") (auto simp: proc_ok_def)
  moreover have "\<forall>x. p_errors ?p (s, x) = None" using ok mo(3) by (simp add: proc_ok_def)
  ultimately show ?thesis
    using proc_ok_step [OF ok mo(1), of "[]"] mo(2,5) by (simp add: writes_def committed_def)
qed

lemma main_step_reads:
  assumes ok: "proc_ok s (Reading n R M) p P C A" and env: "env_ok (store_env W)"
    and r: "processReadRequests W p k = (p', applied)"
  shows "proc_ok s (Reading n R (M - {k})) p' P C (A @ of_session s applied)"
proof -
  have wf: "proc_wf p" using ok by (simp add: proc_ok_def)
  note ro = reads_ok [OF wf env r]
  have "writes (pending p s) = writes (pending p' s)" unfolding ro(6) [of s] using ro(7) by simp
  then have "phase_ok s (Reading n R (M - {k})) p'"
    using proc_okD(9) [OF ok] ro(2,4,8,9) getRunnerId_cong [OF ro(4), of s] by (cases "k = getRunnerId p s") auto
  moreover have "\<forall>x. p_errors p' (s, x) = None" using ok ro(3) by (simp add: proc_ok_def)
  moreover have "pending p s @ queued p s = of_session s applied @ pending p' s @ queued p' s"
    using ro(5,6) [of s] by simp
  ultimately show ?thesis
    using proc_ok_step [OF ok ro(1)] ro(2,7) by (simp add: committed_def)
qed

lemma main_step_commit:
  assumes ok: "proc_ok s (Committing (Suc n)) p P C A" and loc: "local_session W s"
    and c: "commit_one W p = (p', applied, go)"
  shows "proc_ok s (if go then Committing n else Round_Start) p' P C (A @ of_session s applied)"
proof -
  have wf: "proc_wf p" and na: "\<forall>r\<in>set (items (p_committed p)). rs_session_id r = s \<longrightarrow> nonauth r"
    and pre: "prefix (of_session s (take (Suc n) (items (p_committed p)))) (writes (pending p s))"
    and dist: "distinct (map req_xid (pending p s))" and len: "Suc n \<le> length (items (p_committed p))"
    using proc_okD [OF ok] by simp_all
  note co = commit_one_ok [OF wf c loc na pre dist]
  have "phase_ok s (if go then Committing n else Round_Start) p'"
    using co commit_one_size [of W p p' applied n] c len by (cases go) simp_all
  moreover have "\<forall>x. p_errors p' (s, x) = None" using ok co by (simp add: proc_ok_def)
  ultimately show ?thesis
    using proc_ok_step [OF ok, of p' "of_session s applied"] co commit_one_finished [OF c] by simp
qed

lemma main_step_ok:
  assumes ok: "proc_ok s ph p P C A" and loc: "local_session W s" and env: "env_ok (store_env W)"
    and step: "main_step W (ph, p) applied (ph', p')"
  shows "proc_ok s ph' p' P C (A @ of_session s applied)"
  using step
proof (cases rule: main_step.cases)
  case errors
  then show ?thesis using main_step_errors ok by simp
next
  case (move k R n M)
  then show ?thesis using main_step_move ok by simp
next
  case (reads k M n R)
  then show ?thesis using main_step_reads [OF _ env] ok by simp
next
  case (reads_done n)
  then show ?thesis using proc_ok_step [OF ok proc_okD(1) [OF ok], of "[]" "Committing n"] proc_okD [OF ok] by (simp add: writes_def)
next
  case (commit go n)
  then show ?thesis using main_step_commit [OF _ loc] ok by simp
next
  case round_done
  then show ?thesis using proc_ok_step [OF ok proc_okD(1) [OF ok], of "[]" Round_Start] proc_okD [OF ok] by (simp add: writes_def)
qed

lemma new_processor_ok: "0 < n \<Longrightarrow> proc_ok s Round_Start (new_processor n st) [] [] []"
  by (simp add: proc_ok_def proc_wf_def new_processor_def new_requests_queue_def new_bounded_queue_def pending_wf_def
    pending_def queued_def committed_def pending_list_def getRunnerId_def runner_of_def writes_def)

lemma proc_run_ok: "proc_run s ph p P C A \<Longrightarrow> proc_ok s ph p P C A"
proof (induction rule: proc_run.induct)
  case (start n st)
  then show ?case by (rule new_processor_ok)
next
  case (push ph p P C A r p')
  have wf: "proc_wf p" using push.IH by (simp add: proc_ok_def)
  note po = push_ok [OF wf push(2,3)]
  have "phase_ok s ph p'"
    by (rule phase_ok_grows [where p = p and rs = "[]"]) (use push.IH po in \<open>simp_all add: proc_ok_def\<close>)
  moreover have "prefix C (writes (P @ of_session s [r]))"
    unfolding writes_append by (rule prefix_prefix [OF proc_okD(5) [OF push.IH]])
  moreover have "P @ of_session s [r] = A @ pending p' s @ queued p' s" using proc_okD(3) [OF push.IH] po(2,3) by simp
  moreover have "C = writes A @ committed p' s" using proc_okD(4) [OF push.IH] po(4) by (simp add: committed_def)
  ultimately show ?case
    unfolding proc_ok_def using po(1,4,5) push(4) proc_okD(2,7,8) [OF push.IH] by simp
next
  case (commit ph p P C A r p')
  have "\<not> is_finished (p_committed p)" using commit.IH by (simp add: proc_ok_def)
  then have p': "p' = p\<lparr>p_committed := (p_committed p)\<lparr>items := items (p_committed p) @ [r]\<rparr>\<rparr>"
    using commit_ok commit(2,3) by blast
  have same: "pending p' s = pending p s" "queued p' s = queued p s" "committed p' s = committed p s @ of_session s [r]"
    "proc_wf p'" using commit.IH by (simp_all add: p' pending_def queued_def committed_def getRunnerId_def proc_wf_def proc_ok_def)
  have "phase_ok s ph p'"
    by (rule phase_ok_grows [where p = p and rs = "[r]"]) (use commit.IH same in \<open>simp_all add: proc_ok_def p'\<close>)
  moreover have "P = A @ pending p' s @ queued p' s" "C @ of_session s [r] = writes A @ committed p' s"
    using proc_okD(3,4) [OF commit.IH] same by simp_all
  moreover have "\<not> is_finished (p_committed p')" "\<forall>x. p_errors p' (s, x) = None"
    "\<forall>r\<in>set (items (p_committed p')). rs_session_id r = s \<longrightarrow> nonauth r"
    using proc_okD(2,7,8) [OF commit.IH] commit(4) by (simp_all add: p')
  ultimately show ?case unfolding proc_ok_def using same(4) commit(5) proc_okD(6) [OF commit.IH] by blast
next
  case (error ph p P C A sid accepted code xid opnum)
  let ?p = "onError p accepted code sid xid opnum"
  have f: "p_requests ?p = p_requests p" "p_pending ?p = p_pending p" "p_committed ?p = p_committed p"
    "p_runner_count ?p = p_runner_count p"
    by (simp_all add: onError_def split: option.split)
  have "\<forall>x. p_errors ?p (s, x) = None"
    using error by (auto simp: onError_def proc_ok_def error_key_def split: option.split)
  moreover have "phase_ok s ph ?p"
    by (rule phase_ok_grows [where p = p and rs = "[]"]) (use error.IH f in \<open>simp_all add: proc_ok_def pending_def getRunnerId_def\<close>)
  moreover have "pending ?p s = pending p s" "queued ?p s = queued p s" "committed ?p s = committed p s" "proc_wf ?p = proc_wf p"
    using f by (simp_all add: proc_wf_def pending_def queued_def committed_def getRunnerId_def)
  ultimately show ?case unfolding proc_ok_def using proc_okD [OF error.IH] f(3) by simp
next
  case (main ph p P C A W applied ph' p')
  then show ?case using main_step_ok by blast
qed

section \<open>Sample runs\<close>

lemma one_round:
  fixes W :: surroundings
  assumes run: "proc_run s Round_Start p P C A" and one: "p_runner_count p = 1" and sd: "\<not> p_shutdown p"
    and loc: "local_session W s" and env: "env_ok (store_env W)"
  shows "\<exists>p' B. proc_run s (Reading (length (items (p_committed p))) {} {}) p' P C (A @ B)
    \<and> p_committed p' = p_committed p \<and> queued p' s = []"
proof -
  let ?n = "length (items (p_committed p))"
  let ?p1 = "processErrorRequest W p"
  have same: "same_for s p ?p1"
    unfolding processErrorRequest_def by (rule process_errors_other [OF proc_okD(7) [OF proc_run_ok [OF run]]])
  have s1: "main_step W (Round_Start, p) [] (Reading ?n {0} {}, ?p1)"
    using main_step.errors [OF sd refl, of W] same one by (simp add: same_for_def bq_size_def)
  have r1: "proc_run s (Reading ?n {0} {}) ?p1 P C A"
    using proc_run.main [OF run loc env s1] by simp
  let ?p2 = "moveRequestToPendingQueue ?p1 0"
  have wf1: "proc_wf ?p1" by (rule proc_okD(1) [OF proc_run_ok [OF r1]])
  have one1: "p_runner_count ?p1 = 1" "p_committed ?p1 = p_committed p" using same one by (simp_all add: same_for_def)
  then have gr: "getRunnerId ?p1 s = 0" by (simp add: getRunnerId_def runner_of_def)
  have s2: "main_step W (Reading ?n {0} {}, ?p1) [] (Reading ?n ({0} - {0}) {0}, ?p2)" by (rule main_step.move) simp
  have r2: "proc_run s (Reading ?n {} {0}) ?p2 P C A" using proc_run.main [OF r1 loc env s2] by simp
  have k1: "0 < p_runner_count ?p1" using one1 by simp
  note mo = move_ok [OF wf1 k1]
  obtain p3 applied where r: "processReadRequests W ?p2 0 = (p3, applied)" by fastforce
  have s3: "main_step W (Reading ?n {} {0}, ?p2) applied (Reading ?n {} ({0} - {0}), p3)" by (rule main_step.reads [OF _ r]) simp
  have "proc_run s (Reading ?n {} {}) p3 P C (A @ of_session s applied)"
    using proc_run.main [OF r2 loc env s3] by simp
  moreover note reads_ok(2,5) [OF proc_okD(1) [OF proc_run_ok [OF r2]] env r]
  ultimately show ?thesis using mo(2) mo(6) [of s] gr one1(2) by auto
qed

definition sample_surroundings :: surroundings where
  "sample_surroundings =
     \<lparr>local_session = (\<lambda>_. True), leader_alive = True, timeout_code = -1, wall_clock = 0,
      store_env = \<lparr>now_ms = 0, sha1_digest = (\<lambda>x. x), base64_encode = (\<lambda>x. x), split_colon = (\<lambda>x. [x]),
        path_order = sorted_list_of_set, sid_order = sorted_sids\<rparr>, error_order = (\<lambda>_. [])\<rparr>"

lemma sample_surroundings_ok: "local_session sample_surroundings s" "env_ok (store_env sample_surroundings)"
  using enumerates_sorted_sids by (simp_all add: sample_surroundings_def env_ok_def enumerates_def)

definition sample_get :: request where
  "sample_get = Request 1 False (GetRequest ''/a'')"

definition sample_remove :: request where
  "sample_remove = Request 2 False (RemoveRequest ''/a'' 0)"

definition sample_for :: "request \<Rightarrow> RequestForSession" where
  "sample_for r = \<lparr>rs_session_id = 5, rs_request = r, rs_create_time = 0, rs_server_id = -1, rs_client_id = -1\<rparr>"

lemma sample_of_session: "of_session 5 [sample_for sample_get] = [sample_get]" "of_session 5 [sample_for sample_remove] = [sample_remove]"
  by (simp_all add: of_session_def sample_for_def nonauth_def sample_get_def sample_remove_def getOpNum_def)

lemma sample_push:
  assumes "proc_run 5 Round_Start p P C A" and "\<not> p_shutdown p" and "length (p_requests p) = 1"
    and "length (items (p_requests p ! 0)) < max_fill (p_requests p ! 0)"
    and "of_session 5 [r] = [x]" and "distinct (map req_xid (P @ [x]))"
  shows "\<exists>p'. proc_run 5 Round_Start p' (P @ [x]) C A \<and> p_shutdown p' = p_shutdown p \<and> p_runner_count p' = p_runner_count p
    \<and> p_committed p' = p_committed p"
proof -
  have "\<exists>p'. proc_push p r = Some p' \<and> p_shutdown p' = p_shutdown p \<and> p_runner_count p' = p_runner_count p
      \<and> p_committed p' = p_committed p"
    using assms(2-4) by (auto simp: proc_push_def rq_push_def bq_push_def emplaceImpl_def runner_of_def Let_def)
  then show ?thesis using proc_run.push [OF assms(1), of r] assms(2,5,6) by auto
qed

section \<open>The order of a session\<close>





text \<open>
  C36. An authentication request loses the other requests of its session: when it is committed, all
  pending requests of the session are dropped, applied or answered or not.
\<close>

theorem auth_drops_pending:
  assumes "items (p_committed p) = c # cs" and "getOpNum (rs_request c) = Op_Auth" and "s = rs_session_id c"
  shows "\<exists>p'. commit_one W p = (p', [c], True) \<and> pending p' s = [] \<and> queued p' s = queued p s"
proof -
  have "bq_peek (p_committed p) = Some c" using assms(1) by (simp add: bq_peek_def)
  then show ?thesis
    using assms by (simp add: commit_one_def Let_def pending_def queued_def pending_list_def getRunnerId_def)
qed

theorem auth_drops_pending_witness:
  "\<exists>p p'. pending p 5 = [sample_remove, sample_get] \<and> pending p' 5 = []
    \<and> commit_one sample_surroundings p = (p', [sample_for (Request (-4) False (AuthRequest 0 [] []))], True)"
proof -
  let ?c = "sample_for (Request (-4) False (AuthRequest 0 [] []))"
  let ?p = "(new_processor 1 (new_KeeperStore 500 []))
      \<lparr>p_pending := (\<lambda>_. [5 \<mapsto> [sample_for sample_remove, sample_for sample_get]]),
       p_committed := (new_bounded_queue 1000)\<lparr>items := [?c]\<rparr>\<rparr>"
  have "\<exists>p'. commit_one sample_surroundings ?p = (p', [?c], True) \<and> pending p' 5 = [] \<and> queued p' 5 = queued ?p 5"
    by (rule auth_drops_pending) (simp_all add: sample_for_def getOpNum_def)
  moreover have "pending ?p 5 = [sample_remove, sample_get]" by (simp add: pending_def pending_list_def sample_for_def)
  ultimately show ?thesis by blast
qed

end
