(* ===== verification/Replica_Theorems.thy ===== *)
theory Replica_Theorems
  imports Replay_Facts Processor_Order
begin

text \<open>
  What holds between the servers of a cluster: servers that applied the same log agree, a restart
  reads the same log again, a log entry says what its request said; and where the code breaks this: a
  new session that overtakes committed writes, and a request that a live server survives and a
  restarting one does not.
\<close>

section \<open>Samples\<close>

definition session_entry :: log_entry where
  "session_entry = \<lparr>le_term = 1, le_type = 1, le_buf = pod_bytes (30000 :: int64)\<rparr>"

lemma session_entry_facts:
  "le_type session_entry = app_log plain_buffers" "isNewSessionRequest (le_buf session_entry)" "entry_ok session_entry"
  "load_request plain_buffers now session_entry = Inr None"
  "sm_get_ulong plain_sm_buffers (le_buf session_entry) = 30000" "sm_get_i64 plain_sm_buffers (le_buf session_entry) 0 = 30000"
  by (simp_all add: session_entry_def plain_buffers_def isNewSessionRequest_def entry_ok_def load_request_def plain_sm_buffers_def pod_word_bytes [of 8])

lemma session_entry_replayed:
  assumes "session_inv s"
  shows "\<exists>s'. replay_entry plain_buffers plain_sm_buffers E session_entry None s = (s', None) \<and> session_inv s'
    \<and> getSessionID E s 30000 = Inr (s', session_id_counter s)"
  using getSessionID_ok [OF assms, of E 30000] session_entry_facts by (auto simp: replay_entry_def)

lemma store0_inv: "store_inv store0" "session_inv store0"
  using reachable_store_inv [OF reachable_store0] store_invD(3) by blast+

lemma session_log:
  "\<exists>fs fl. log_run plain_buffers True fs fl 1 [session_entry, session_entry] \<and> next_slot fl = 3"
proof -
  have step: "\<exists>fs' fl'. log_run plain_buffers True fs' fl' 1 (es @ [session_entry]) \<and> next_slot fl' = next_slot fl + 1"
    if r: "log_run plain_buffers True fs fl 1 es" and l: "next_slot fl \<noteq> 0" for fs fl es
  proof -
    have room: "last_log_index (seg_store fl) \<noteq> -1" using l by (auto simp: next_slot_def)
    obtain fs' fl' where a: "append_log plain_buffers sample_io fs fl session_entry = (fs', fl', Inr (next_slot fl))" "next_slot fl' = next_slot fl + 1"
      using append_log_ok [OF plain_buffers_ok log_run_ok [OF r plain_buffers_ok] sample_io_ok(1) session_entry_facts(3) room] by blast
    then show ?thesis using log_run.append [OF r sample_io_ok(1) session_entry_facts(3) room a(1)] by blast
  qed
  obtain fs fl where "log_run plain_buffers True fs fl 1 []" "next_slot fl = 1" using sample_start [of 1000] by auto
  from step [OF this(1)] this(2) obtain fs1 fl1 where "log_run plain_buffers True fs1 fl1 1 [session_entry]" "next_slot fl1 = 2" by auto
  from step [OF this(1)] this(2) show ?thesis by auto
qed

section \<open>Replicas agree\<close>



section \<open>Restart\<close>

lemma replay_last_bound: "unat (replay_last prev fl) \<le> unat (last_log_index (seg_store fl))"
  by (auto simp: replay_last_def next_slot_def Let_def word_less_nat_alt)



section \<open>Entries\<close>

text \<open>
  C38. A log entry says what the request said: what the leader writes for a request is taken for a
  request by every server, and parsed into the same request, session and time, when it is committed
  and when it is replayed.
\<close>

theorem log_entry_roundtrip:
  assumes "body_ok (has_watch req) (req_body req)" and "size_ok (length (request_payload req))"
    and "le_type e = app_log N" "le_buf e = getZooKeeperLogEntry sid time req"
  shows "\<not> isNewSessionRequest (le_buf e) \<and> \<not> isUpdateSessionRequest (le_buf e)
    \<and> parseRequest now (le_buf e) = Inr (local_request sid req time)
    \<and> load_request N now e = Inr (Some (local_request sid req time))"
  using not_session_entry [of sid time req] parse_written [OF assms(1)] create_written [OF assms] assms(3,4)
  by (simp add: load_request_def)

theorem log_entry_roundtrip_witness:
  "parseRequest 5 (getZooKeeperLogEntry 3 77 sample_request) = Inr (local_request 3 sample_request 77)"
proof -
  let ?e = "\<lparr>le_term = 1, le_type = 1, le_buf = getZooKeeperLogEntry 3 77 sample_request\<rparr>"
  have "body_ok (has_watch sample_request) (req_body sample_request)" "size_ok (length (request_payload sample_request))"
    by (simp_all add: sample_request_def request_payload_def write_string_def write_vector_def write_ACL_def
      write_multi_header_def write_OpNum_def getOpNum_def)
  from log_entry_roundtrip [OF this, of ?e plain_buffers 3 77 5] show ?thesis by (simp add: plain_buffers_def)
qed

section \<open>Where replicas part\<close>

lemma set_request_applied:
  assumes inv: "session_inv s" and sid: "sid \<in> dom (session_and_timeout s)" and n: "container s p = Some n"
    and auth: "node_auth s p ACL_Write sid = Inr True"
  shows "container (fst (processRequest E s (Request x w (SetRequest p d (-1))) sid time None True ign)) p = Some (set_node (zxid s) time d n)"
proof -
  obtain s1 where s1: "touch_session E s sid = Inr s1" using touch_session_ok [OF inv] by blast
  note f = touch_session_fields [OF s1]
  have "node_auth s1 p ACL_Write sid = Inr True" using auth unfolding node_auth_def f .
  then show ?thesis
    using sid n f s1 by (auto simp: processRequest_def process_session_def process_body_def process_other_def wrapper_get_def
        set_checkAuth_def set_process_def finish_request_def next_zxid_def getZXID_def isReadRequest_def getOpNum_def Let_def
        split: prod.splits)
qed

text \<open>
  C39. A new session overtakes committed writes: the commit of a session takes a transaction number
  at once, while the writes committed before it wait for the request processor. Two servers with the
  same log, one of which applied the write before the session was committed, record different
  transaction numbers in the node.
\<close>

theorem session_overtakes_write:
  assumes R: "sm_buffers_ok R" and inv: "session_inv (sm_store sm)"
    and c: "items (p_committed (sm_processor sm)) = local_request sid (Request x w (SetRequest p d (-1))) time # cs" "\<not> local_session W sid" "leader_alive W"
    and n: "sid \<in> dom (session_and_timeout (sm_store sm))" "container (sm_store sm) p = Some n" "node_auth (sm_store sm) p ACL_Write sid = Inr True"
    and b: "length b = 8"
  shows "\<exists>sm1 r pA pB aA aB gA gB nA nB.
      commit_one W (sm_processor sm) = (pA, aA, gA) \<and> container (p_store pA) p = Some nA
    \<and> commit R E sm idx b ign = Some (sm1, Inr r) \<and> commit_one W (sm_processor sm1) = (pB, aB, gB) \<and> container (p_store pB) p = Some nB
    \<and> mzxid (node_stat nA) = zxid (sm_store sm) \<and> mzxid (node_stat nB) = zxid (sm_store sm) + 1"
proof -
  let ?c = "local_request sid (Request x w (SetRequest p d (-1))) time"
  have applied: "container (p_store (fst (commit_one W q))) p = Some (set_node (zxid (p_store q)) time d n)"
    if q: "p_committed q = p_committed (sm_processor sm)" "session_inv (p_store q)" "sid \<in> dom (session_and_timeout (p_store q))"
      "container (p_store q) p = Some n" "node_auth (p_store q) p ACL_Write sid = Inr True" for q
    using set_request_applied [OF q(2-5), of "store_env W" x w d time False] q(1) c
    by (auto simp: commit_one_def bq_peek_def Let_def local_request_def apply_all_def applyRequest_def set_pending_def split: prod.splits)
  obtain s1 where s1: "getSessionID E (sm_store sm) (sm_get_i64 R b 0) = Inr (s1, session_id_counter (sm_store sm))" "session_inv s1"
    "zxid s1 = zxid (sm_store sm) + 1" "container s1 = container (sm_store sm)"
    using getSessionID_ok [OF inv] by blast
  have f: "store_acl_map s1 = store_acl_map (sm_store sm)" "session_and_auth s1 = session_and_auth (sm_store sm)" "sid \<in> dom (session_and_timeout s1)"
    using s1(1) n(1) by (auto simp: getSessionID_def getZXID_def timeout_emplace_def Let_def split: sum.splits option.splits)
  let ?sm1 = "notify_session (session_id_counter (sm_store sm)) (after_commit idx (set_sm_store s1 sm))"
  have com: "commit R E sm idx b ign = Some (?sm1, Inr (Some (sm_put_i64 R (session_id_counter (sm_store sm)))))"
    using b s1(1) by (simp add: commit_def commit_new_session_def isNewSessionRequest_def)
  have p1: "p_committed (sm_processor ?sm1) = p_committed (sm_processor sm)" "p_store (sm_processor ?sm1) = s1"
    by (simp_all add: notify_session_def after_commit_def set_sm_store_def)
  have "node_auth s1 p ACL_Write sid = Inr True" using n(3) unfolding node_auth_def s1(4) f(1,2) .
  then have B: "container (p_store (fst (commit_one W (sm_processor ?sm1)))) p = Some (set_node (zxid (sm_store sm) + 1) time d n)"
    using applied [OF p1(1)] s1 f(3) n(2) p1(2) by simp
  have A: "container (p_store (fst (commit_one W (sm_processor sm)))) p = Some (set_node (zxid (sm_store sm)) time d n)"
    using applied [OF refl inv n] .
  obtain pA aA gA pB aB gB where run: "commit_one W (sm_processor sm) = (pA, aA, gA)" "commit_one W (sm_processor ?sm1) = (pB, aB, gB)"
    by (metis prod_cases3)
  have cont: "container (p_store pA) p = Some (set_node (zxid (sm_store sm)) time d n)"
    "container (p_store pB) p = Some (set_node (zxid (sm_store sm) + 1) time d n)"
    using A B run by simp_all
  have "mzxid (node_stat (set_node z time d n)) = z" for z by (simp add: set_node_def)
  then show ?thesis
    using run cont com by blast
qed

definition sample_write :: RequestForSession where
  "sample_write = local_request 1 (Request 3 False (SetRequest ''/'' ''y'' (-1))) 7"

definition sample_sm :: state_machine where
  "sample_sm = \<lparr>sm_processor = (new_processor 1 store1)\<lparr>p_committed := (new_bounded_queue 1000)\<lparr>items := [sample_write]\<rparr>\<rparr>,
     with_processor = True, last_committed_idx = 1, sm_task_manager = new_task_manager [], new_session_id_callback = Map.empty,
     sm_shutdown = False\<rparr>"

theorem session_overtakes_write_witness:
  "\<exists>sm1 r pA pB aA aB gA gB nA nB.
      commit_one (sample_surroundings\<lparr>local_session := \<lambda>_. False\<rparr>) (sm_processor sample_sm) = (pA, aA, gA) \<and> container (p_store pA) ''/'' = Some nA
    \<and> commit plain_sm_buffers env0 sample_sm 2 (pod_bytes (30000 :: int64)) False = Some (sm1, Inr r)
    \<and> commit_one (sample_surroundings\<lparr>local_session := \<lambda>_. False\<rparr>) (sm_processor sm1) = (pB, aB, gB) \<and> container (p_store pB) ''/'' = Some nB
    \<and> mzxid (node_stat nA) = 1 \<and> mzxid (node_stat nB) = 2"
proof -
  have st: "sm_store sample_sm = store1" by (simp add: sample_sm_def new_processor_def)
  have "session_inv store1" using reachable_store_inv [OF reachable_store1] by (rule store_invD(3))
  moreover have "node_auth store1 ''/'' ACL_Write 1 = Inr True"
    by (simp add: node_auth_def store1_fields new_node_def convertNumber_def checkACL_def world_anyone_def ACL_All_def ACL_Write_def)
  ultimately show ?thesis
    using session_overtakes_write [OF plain_sm_buffers_ok, of sample_sm 1 3 False "''/''" "''y''" 7 "[]"
        "sample_surroundings\<lparr>local_session := \<lambda>_. False\<rparr>" new_node "pod_bytes (30000 :: int64)" env0 2 False] store1_fields st
    by (simp add: sample_sm_def sample_write_def new_processor_def new_bounded_queue_def sample_surroundings_def)
qed

text \<open>
  C40. A multi request with a part that the store does not admit is written to the log like any other.
  A live server logs the exception, sends no response and goes on; a server that replays the entry
  leaves its constructor with the exception, at this and every later start.
\<close>

theorem poison_request:
  assumes inv: "session_inv s" and sid: "sid \<in> dom (session_and_timeout s)" and W: "leader_alive W"
    and bad: "\<not> list_all (\<lambda>r. multi_allowed (req_body r)) rs" and req: "req = Request x False (MultiRequest rs)"
    and ok: "body_ok False (MultiRequest rs)" "size_ok (length (request_payload req))"
    and e: "le_type e = app_log N" "le_buf e = getZooKeeperLogEntry sid time req"
  shows "(\<exists>s'. applyRequest W (local_request sid req time) (s, responses) = (s', responses))
    \<and> (\<exists>r s'. load_request N now e = Inr r \<and> replay_entry N R E e r s = (s', Some BAD_ARGUMENTS)
        \<and> snd (replay_batch N R E ((e, r) # batch) s) = Some BAD_ARGUMENTS)"
proof -
  have run: "\<exists>s'. processRequest F s req sid time None True ign = (s', [], Some BAD_ARGUMENTS)" for F ign
  proof -
    obtain s1 where "touch_session F s sid = Inr s1" using touch_session_ok [OF inv] by blast
    then show ?thesis
      using sid bad req by (auto simp: processRequest_def process_session_def process_body_def process_other_def wrapper_get_def
          concrete_requests_def getOpNum_def)
  qed
  have "load_request N now e = Inr (Some (local_request sid req time))"
    using create_written [OF _ ok(2) e] ok(1) not_session_entry [of sid time req] e req by (simp add: load_request_def)
  moreover have "\<exists>s'. replay_entry N R E e (Some (local_request sid req time)) s = (s', Some BAD_ARGUMENTS)"
    using run [of E True] not_session_entry [of sid time req] e by (auto simp: replay_entry_def local_request_def)
  moreover have "\<exists>s'. applyRequest W (local_request sid req time) (s, responses) = (s', responses)"
    using run [of "store_env W" False] W by (auto simp: applyRequest_def local_request_def)
  ultimately show ?thesis by fastforce
qed

theorem poison_request_witness:
  "\<exists>r s'. load_request plain_buffers 0 \<lparr>le_term = 1, le_type = 1,
        le_buf = getZooKeeperLogEntry 1 7 (Request 4 False (MultiRequest [Request 0 False (GetRequest ''/'')]))\<rparr> = Inr r
    \<and> replay_entry plain_buffers plain_sm_buffers env0 \<lparr>le_term = 1, le_type = 1,
        le_buf = getZooKeeperLogEntry 1 7 (Request 4 False (MultiRequest [Request 0 False (GetRequest ''/'')]))\<rparr> r store1 = (s', Some BAD_ARGUMENTS)"
proof -
  have "session_inv store1" using reachable_store_inv [OF reachable_store1] by (rule store_invD(3))
  from poison_request [OF this store1_fields(6), of sample_surroundings "[Request 0 False (GetRequest ''/'')]" _ 4
      "\<lparr>le_term = 1, le_type = 1, le_buf = getZooKeeperLogEntry 1 7 (Request 4 False (MultiRequest [Request 0 False (GetRequest ''/'')]))\<rparr>"
      plain_buffers 7 "[]" 0 plain_sm_buffers env0 "[]", OF _ _ refl]
  show ?thesis
    by (simp add: plain_buffers_def sample_surroundings_def request_payload_def write_string_def write_multi_header_def write_OpNum_def
        getOpNum_def write_bool_def) blast
qed

end
