(* ===== verification/Snapshot_Format.thy ===== *)
theory Snapshot_Format
  imports Log_Files Store_Process
begin

text \<open>
  The files of a snapshot (\<open>src/src/Service/NuRaftLogSnapshot.{h,cpp}\<close>): the batches and their
  checksums, the serialisers of access lists, sessions, counters and nodes, and the parser of one
  file. The messages of \<open>proto/Log.proto\<close> are encoded by code that protobuf generates and the parser
  fills buffers of NuRaft: both are parameters of the model. A writer returns the bytes it appends
  to its file. The parser of a file touches the store only in critical sections, one lock at a time;
  the model of the parser returns the list of these sections, so that the threads that parse the
  files of a snapshot can be interleaved.
\<close>

section \<open>Messages\<close>

datatype SnapshotTypePB =
    SNAPSHOT_TYPE_DATA | SNAPSHOT_TYPE_DATA_EPHEMERAL | SNAPSHOT_TYPE_CONFIG | SNAPSHOT_TYPE_SERVER
  | SNAPSHOT_TYPE_SESSION | SNAPSHOT_TYPE_STRINGMAP | SNAPSHOT_TYPE_UINTMAP | SNAPSHOT_TYPE_ACLMAP

record SnapshotBatchPB =
  batch_type :: SnapshotTypePB
  batch_data :: "string list"

definition new_batch :: SnapshotBatchPB where
  "new_batch = \<lparr>batch_type = SNAPSHOT_TYPE_DATA, batch_data = []\<rparr>"

definition add_data :: "SnapshotBatchPB \<Rightarrow> string \<Rightarrow> SnapshotBatchPB" where
  "add_data b item = b\<lparr>batch_data := batch_data b @ [item]\<rparr>"

text \<open>
  \<open>SerializeToString\<close> and \<open>ParseFromString\<close> of a batch, and the content of a buffer of one byte more
  than a string after \<open>buffer::put\<close> of the string.
\<close>

record snap_lib =
  pb_serialize :: "SnapshotBatchPB \<Rightarrow> string"
  pb_parse :: "string \<Rightarrow> SnapshotBatchPB"
  put_string :: "string \<Rightarrow> string"

text \<open>
  The documented behaviour: a message below the size limit of two gigabytes is parsed into what was
  serialised, and a string is stored with a terminating zero.
\<close>

definition snap_lib_ok :: "snap_lib \<Rightarrow> bool" where
  "snap_lib_ok L \<longleftrightarrow>
     (\<forall>b. length (pb_serialize L b) < 2 ^ 31 \<longrightarrow> pb_parse L (pb_serialize L b) = b)
   \<and> (\<forall>d. put_string L d = d @ [CHR 0x00])"

section \<open>Batches and checksums\<close>

definition MAGIC_SNAPSHOT_HEAD :: string where "MAGIC_SNAPSHOT_HEAD = ''SnapHead''"
definition MAGIC_SNAPSHOT_TAIL :: string where "MAGIC_SNAPSHOT_TAIL = ''SnapTail''"

definition V0 :: int8 where "V0 = 0"
definition V1 :: int8 where "V1 = 1"
definition VNone :: int8 where "VNone = 255"

definition isFileHeader :: "uint64 \<Rightarrow> bool" where
  "isFileHeader magic \<longleftrightarrow> magic = pod_word ''SnapHead''"

definition isFileTail :: "uint64 \<Rightarrow> bool" where
  "isFileTail magic \<longleftrightarrow> magic = pod_word ''SnapTail''"

definition write_header :: "int8 \<Rightarrow> string" where
  "write_header ver = MAGIC_SNAPSHOT_HEAD @ pod_bytes ver"

definition write_tail :: "uint32 \<Rightarrow> string" where
  "write_tail checksum = MAGIC_SNAPSHOT_TAIL @ pod_bytes checksum"

definition saveBatch :: "snap_lib \<Rightarrow> SnapshotBatchPB option \<Rightarrow> string \<times> uint64 \<times> uint32" where
  "saveBatch L batch =
     (let str_buf = pb_serialize L (case batch of None \<Rightarrow> new_batch | Some b \<Rightarrow> b);
          data_length = of_nat (length str_buf) :: uint32;
          data_crc = getCRC32 str_buf
      in (pod_bytes data_length @ pod_bytes data_crc @ take (unat data_length) str_buf, 8 + ucast data_length, data_crc))"

definition updateCheckSum :: "uint32 \<Rightarrow> uint32 \<Rightarrow> uint32" where
  "updateCheckSum checksum data_crc = getCRC32 (pod_bytes checksum @ pod_bytes data_crc)"

definition saveBatchAndUpdateCheckSum ::
    "snap_lib \<Rightarrow> SnapshotBatchPB option \<Rightarrow> uint32 \<Rightarrow> string \<times> SnapshotBatchPB \<times> uint64 \<times> uint32" where
  "saveBatchAndUpdateCheckSum L batch checksum =
     (case saveBatch L batch of (bytes, save_size, data_crc) \<Rightarrow>
        (bytes, new_batch, save_size, updateCheckSum checksum data_crc))"

section \<open>Writing\<close>

text \<open>
  The loop that \<open>serializeAcls\<close>, \<open>serializeSessions\<close> and \<open>serializeMap\<close> have in common: a batch is
  flushed and a new one begun at every multiple of the batch size.
\<close>

fun save_loop ::
    "snap_lib \<Rightarrow> SnapshotTypePB \<Rightarrow> uint32 \<Rightarrow> string list \<Rightarrow> uint64 \<Rightarrow> SnapshotBatchPB option \<Rightarrow> uint32
      \<Rightarrow> string \<times> SnapshotBatchPB option \<times> uint32" where
  "save_loop L ty sz [] index batch checksum = ([], batch, checksum)"
| "save_loop L ty sz (item # items) index batch checksum =
     (let (bytes, checksum1) =
            (if index mod ucast sz = 0 \<and> index \<noteq> 0
             then (case saveBatchAndUpdateCheckSum L batch checksum of (bytes, _, _, c) \<Rightarrow> (bytes, c)) else ([], checksum));
          batch1 = (if index mod ucast sz = 0 then new_batch\<lparr>batch_type := ty\<rparr>
                    else (case batch of None \<Rightarrow> new_batch | Some b \<Rightarrow> b));
          (bytes2, batch2, checksum2) = save_loop L ty sz items (index + 1) (Some (add_data batch1 item)) checksum1
      in (bytes @ bytes2, batch2, checksum2))"

definition save_object :: "snap_lib \<Rightarrow> SnapshotTypePB \<Rightarrow> uint32 \<Rightarrow> int8 \<Rightarrow> string list \<Rightarrow> string" where
  "save_object L ty sz ver items =
     (case save_loop L ty sz items 0 None 0 of (bytes, batch, checksum) \<Rightarrow>
      (case saveBatchAndUpdateCheckSum L batch checksum of (last_bytes, _, _, checksum1) \<Rightarrow>
         write_header ver @ bytes @ last_bytes @ write_tail checksum1))"

definition acl_item :: "uint64 \<Rightarrow> ACLs \<Rightarrow> string" where
  "acl_item acl_id acls = write_int64 acl_id @ write_vector write_ACL acls"

definition serializeAcls :: "snap_lib \<Rightarrow> env \<Rightarrow> acl_map \<Rightarrow> uint32 \<Rightarrow> int8 \<Rightarrow> string" where
  "serializeAcls L E m save_batch_size ver =
     save_object L SNAPSHOT_TYPE_ACLMAP save_batch_size ver
       (map (\<lambda>acl_id. acl_item acl_id (list_entry (num_to_acl m) acl_id)) (sid_order E (dom (num_to_acl m))))"

definition session_item :: "int64 \<Rightarrow> int64 \<Rightarrow> AuthIDs \<Rightarrow> string" where
  "session_item session_id timeout ids = write_int64 session_id @ write_int64 timeout @ write_vector write_AuthID ids"

definition session_items :: "env \<Rightarrow> KeeperStore \<Rightarrow> string list" where
  "session_items E s =
     map (\<lambda>sid. session_item sid (the (session_and_timeout s sid)) (list_entry (session_and_auth s) sid))
       (sid_order E (dom (session_and_timeout s)))"

definition serializeSessions :: "snap_lib \<Rightarrow> env \<Rightarrow> KeeperStore \<Rightarrow> uint32 \<Rightarrow> int8 \<Rightarrow> string \<times> int64" where
  "serializeSessions L E s save_batch_size ver =
     (save_object L SNAPSHOT_TYPE_SESSION save_batch_size ver (session_items E s), session_id_counter s)"

definition int_item :: "string \<Rightarrow> int64 \<Rightarrow> string" where
  "int_item key value = write_string key @ write_int64 value"

definition serializeMap :: "snap_lib \<Rightarrow> env \<Rightarrow> (string \<rightharpoonup> int64) \<Rightarrow> uint32 \<Rightarrow> int8 \<Rightarrow> string" where
  "serializeMap L E int_map save_batch_size ver =
     save_object L SNAPSHOT_TYPE_UINTMAP save_batch_size ver
       (map (\<lambda>key. int_item key (the (int_map key))) (path_order E (dom int_map)))"

definition node_item :: "string \<Rightarrow> KeeperNode \<Rightarrow> string" where
  "node_item path n =
     write_string path @ write_string (node_data n) @ write_int64 (node_acl_id n) @ write_bool (is_ephemeral n)
     @ write_bool (is_sequental n) @ write_Stat (node_stat n)"

definition appendNodeToBatch :: "SnapshotBatchPB \<Rightarrow> string \<Rightarrow> KeeperNode \<Rightarrow> SnapshotBatchPB" where
  "appendNodeToBatch batch path n = add_data batch (node_item path n)"

section \<open>Parsing\<close>

text \<open>
  The critical sections of the parser. A node of a file of the first version brings its access list
  itself: the list is numbered and counted, and when the rest of the node has been read the node is
  stored with that number.
\<close>

datatype snap_action =
    UseAcl uint64
  | ConvertAcls ACLs
  | PutNode string KeeperNode
  | PutNodeV0 string ACLs KeeperNode
  | PutEphemeral int64 string
  | SetAuth int64 AuthIDs
  | AddSession int64 int64
  | MapAcls uint64 ACLs
  | SetZxid int64
  | SetCounter int64

datatype snap_exc =
    CANNOT_CREATE_DIRECTORY
  | CHECKSUM_DOESNT_MATCH
  | CORRUPTED_DATA
  | SNAP_NULL_POINTER
  | STD_EXCEPTION
  | STORE_EXC exc

text \<open>
  How the parser leaves an item: with the next one, out of the loop after an exception of the
  protocol that is logged, or with any other exception.
\<close>

datatype item_end = Next | Break | Raise exc

fun item_exc :: "exc \<Rightarrow> item_end" where
  "item_exc (KEEPER_EXCEPTION e) = Break"
| "item_exc e = Raise e"

definition read_node_end :: "string \<Rightarrow> KeeperNode reader" where
  "read_node_end dat =
     rbind read_bool (\<lambda>eph. rbind read_bool (\<lambda>sequential. rbind read_Stat (\<lambda>stat.
       rreturn \<lparr>node_data = dat, node_acl_id = 0, is_ephemeral = eph, is_sequental = sequential, node_stat = stat, children = {}\<rparr>)))"

definition put_ephemeral :: "string \<Rightarrow> KeeperNode \<Rightarrow> snap_action list" where
  "put_ephemeral path n =
     (if ephemeralOwner (node_stat n) \<noteq> 0 then [PutEphemeral (ephemeralOwner (node_stat n)) path] else [])"

definition parse_node :: "int8 \<Rightarrow> string \<Rightarrow> snap_action list \<times> item_end" where
  "parse_node ver item =
     (case rbind read_string (\<lambda>key. rbind read_string (\<lambda>dat. rreturn (key, dat))) item of
        Inl e \<Rightarrow> ([], item_exc e)
      | Inr ((key, dat), rest) \<Rightarrow>
          if ver \<ge> V1 then
            (case read_int64 rest of
               Inl e \<Rightarrow> ([], item_exc e)
             | Inr (raw_id, rest1) \<Rightarrow>
                 let acl_id = (if raw_id = -1 then 0 else raw_id) in
                 (case read_node_end dat rest1 of
                    Inl e \<Rightarrow> ([UseAcl acl_id], item_exc e)
                  | Inr (n, _) \<Rightarrow> ([UseAcl acl_id, PutNode key (n\<lparr>node_acl_id := acl_id\<rparr>)] @ put_ephemeral key n, Next)))
          else
            (case read_vector read_ACL rest of
               Inl e \<Rightarrow> ([], item_exc e)
             | Inr (acls, rest1) \<Rightarrow>
                 (case read_node_end dat rest1 of
                    Inl e \<Rightarrow> ([ConvertAcls acls], item_exc e)
                  | Inr (n, _) \<Rightarrow> ([ConvertAcls acls, PutNodeV0 key acls n] @ put_ephemeral key n, Next))))"

definition parse_session :: "int8 \<Rightarrow> string \<Rightarrow> snap_action list \<times> item_end" where
  "parse_session ver item =
     (case rbind read_int64 (\<lambda>session_id. rbind read_int64 (\<lambda>timeout.
             rbind (if ver \<ge> V1 then read_vector read_AuthID else rreturn []) (\<lambda>ids.
               rreturn (session_id, timeout, ids)))) item of
        Inl e \<Rightarrow> ([], item_exc e)
      | Inr ((session_id, timeout, ids), _) \<Rightarrow>
          ((if ids \<noteq> [] then [SetAuth session_id ids] else []) @ [AddSession session_id timeout], Next))"

definition parse_acls :: "string \<Rightarrow> snap_action list \<times> item_end" where
  "parse_acls item =
     (case rbind read_int64 (\<lambda>acl_id. rbind (read_vector read_ACL) (\<lambda>acls. rreturn (acl_id, acls))) item of
        Inl e \<Rightarrow> ([], Raise e)
      | Inr ((acl_id, acls), _) \<Rightarrow> ([MapAcls acl_id acls], Next))"

fun parse_items :: "snap_lib \<Rightarrow> (string \<Rightarrow> snap_action list \<times> item_end) \<Rightarrow> string list \<Rightarrow> snap_action list \<times> exc option" where
  "parse_items L f [] = ([], None)"
| "parse_items L f (item # items) =
     (case f (put_string L item) of
        (acts, Next) \<Rightarrow> (case parse_items L f items of (acts', e) \<Rightarrow> (acts @ acts', e))
      | (acts, Break) \<Rightarrow> (acts, None)
      | (acts, Raise e) \<Rightarrow> (acts, Some e))"

fun parse_ints :: "snap_lib \<Rightarrow> string list \<Rightarrow> (string \<rightharpoonup> int64) \<Rightarrow> (string \<rightharpoonup> int64) \<times> exc option" where
  "parse_ints L [] int_map = (int_map, None)"
| "parse_ints L (item # items) int_map =
     (case rbind read_string (\<lambda>key. rbind read_int64 (\<lambda>value. rreturn (key, value))) (put_string L item) of
        Inl e \<Rightarrow> (int_map, (case item_exc e of Raise e' \<Rightarrow> Some e' | _ \<Rightarrow> None))
      | Inr ((key, value), _) \<Rightarrow> parse_ints L items (int_map(key \<mapsto> value)))"

definition parse_int_map :: "snap_lib \<Rightarrow> string list \<Rightarrow> snap_action list \<times> exc option" where
  "parse_int_map L items =
     (case parse_ints L items Map.empty of
        (_, Some e) \<Rightarrow> ([], Some e)
      | (int_map, None) \<Rightarrow>
          ((case int_map ''ZXID'' of None \<Rightarrow> [] | Some v \<Rightarrow> [SetZxid v])
           @ (case int_map ''SESSIONID'' of None \<Rightarrow> [] | Some v \<Rightarrow> [SetCounter v]), None))"

definition parse_batch :: "snap_lib \<Rightarrow> int8 \<Rightarrow> SnapshotBatchPB \<Rightarrow> snap_action list \<times> exc option" where
  "parse_batch L ver batch =
     (case batch_type batch of
        SNAPSHOT_TYPE_DATA \<Rightarrow> parse_items L (parse_node ver) (batch_data batch)
      | SNAPSHOT_TYPE_SESSION \<Rightarrow> parse_items L (parse_session ver) (batch_data batch)
      | SNAPSHOT_TYPE_ACLMAP \<Rightarrow> if ver \<ge> V1 then parse_items L parse_acls (batch_data batch) else ([], None)
      | SNAPSHOT_TYPE_UINTMAP \<Rightarrow> parse_int_map L (batch_data batch)
      | _ \<Rightarrow> ([], None))"

text \<open>
  The loop over the stream, of which the argument is the part not yet read. A read beyond the end
  fails the stream, and the next \<open>loadHeader\<close> throws; a checksum that is cut off is left in part
  uninitialised and is taken to differ.
\<close>

function parseOneObject_loop :: "snap_lib \<Rightarrow> int8 \<Rightarrow> uint32 \<Rightarrow> string \<Rightarrow> snap_action list \<times> (snap_exc + bool)" where
  "parseOneObject_loop L ver checksum rest =
     (if length rest < 8 then ([], Inl CORRUPTED_DATA)
      else
        let magic = pod_word (take 8 rest) :: uint64
        in if \<not> isFileHeader magic \<and> isFileTail magic then
             (if length rest < 12 \<or> pod_word (take 4 (drop 8 rest)) \<noteq> checksum then ([], Inl CHECKSUM_DOESNT_MATCH) else ([], Inr True))
           else
             let (ver1, rest1) =
                   (if isFileHeader magic then (case drop 8 rest of [] \<Rightarrow> (ver, []) | c # cs \<Rightarrow> (of_char c, cs))
                    else (if ver = VNone then V0 else ver, rest))
             in if length rest1 < 8 then ([], Inl CORRUPTED_DATA)
                else
                  let data_length = pod_word (take 4 rest1) :: uint32;
                      data_crc = pod_word (take 4 (drop 4 rest1));
                      body = take (unat data_length) (drop 8 rest1)
                  in if length body < unat data_length then ([], Inr False)
                     else if \<not> verifyCRC32 body data_crc then ([], Inr False)
                     else
                       (case parse_batch L ver1 (pb_parse L body) of
                          (acts, Some e) \<Rightarrow> (acts, Inl (STORE_EXC e))
                        | (acts, None) \<Rightarrow>
                            (case parseOneObject_loop L ver1 (updateCheckSum checksum data_crc) (drop (8 + unat data_length) rest1) of
                               (acts', r) \<Rightarrow> (acts @ acts', r))))"
  by pat_completeness auto
termination
  by (relation "measure (\<lambda>(L, ver, checksum, rest). length rest)") (auto split: if_splits list.splits dest!: arg_cong [where f = length])

declare parseOneObject_loop.simps [simp del]

definition parseOneObject :: "snap_lib \<Rightarrow> (string \<rightharpoonup> string) \<Rightarrow> string \<Rightarrow> snap_action list \<times> (snap_exc + bool)" where
  "parseOneObject L files obj_path =
     (case files obj_path of None \<Rightarrow> ([], Inr False) | Some bytes \<Rightarrow> parseOneObject_loop L VNone 0 bytes)"

section \<open>The critical sections\<close>

definition apply_action :: "env \<Rightarrow> snap_action \<Rightarrow> KeeperStore \<Rightarrow> exc + KeeperStore" where
  "apply_action E a s =
     (case a of
        UseAcl acl_id \<Rightarrow> Inr (s\<lparr>store_acl_map := addUsage (store_acl_map s) acl_id 1\<rparr>)
      | ConvertAcls acls \<Rightarrow>
          (case convertACLs (store_acl_map s) acls of (m, acl_id) \<Rightarrow> Inr (s\<lparr>store_acl_map := addUsage m acl_id 1\<rparr>))
      | PutNode path n \<Rightarrow> Inr (s\<lparr>container := (container s)(path \<mapsto> n)\<rparr>)
      | PutNodeV0 path acls n \<Rightarrow>
          Inr (s\<lparr>container := (container s)(path \<mapsto> n\<lparr>node_acl_id := snd (convertACLs (store_acl_map s) acls)\<rparr>)\<rparr>)
      | PutEphemeral owner path \<Rightarrow> Inr (s\<lparr>ephemerals := entry_insert (ephemerals s) owner path\<rparr>)
      | SetAuth session_id ids \<Rightarrow> Inr (s\<lparr>session_and_auth := (session_and_auth s)(session_id \<mapsto> ids)\<rparr>)
      | AddSession session_id timeout \<Rightarrow> addSessionID E s session_id timeout
      | MapAcls acl_id acls \<Rightarrow> Inr (s\<lparr>store_acl_map := addMapping (store_acl_map s) acl_id acls\<rparr>)
      | SetZxid v \<Rightarrow> Inr (s\<lparr>zxid := v\<rparr>)
      | SetCounter v \<Rightarrow> Inr (s\<lparr>session_id_counter := v\<rparr>))"

end
