(* ===== verification/Snapshot_Store.thy ===== *)
theory Snapshot_Store
  imports Snapshot_Format State_Machine
begin

text \<open>
  \<open>KeeperSnapshotStore\<close> and \<open>KeeperSnapshotManager\<close> of \<open>src/src/Service/NuRaftLogSnapshot.cpp\<close>, and
  the snapshot operations of \<open>NuRaftStateMachine\<close>. The snapshot directory is a map from file names to
  contents; a file that is written is open under its name until its tail is written. Failures of the
  file system while a snapshot is written are not modelled, but a cut-off file is a directory like
  any other. The files of a snapshot are parsed by eight threads, a step relation.
\<close>

section \<open>One snapshot\<close>

type_synonym snap_files = "string \<rightharpoonup> string"

record snapshot_store =
  curr_time :: string
  sn_last_log_index :: uint64
  sn_last_log_term :: uint64
  snap_size :: uint64
  max_object_node_size :: uint32
  save_batch_size :: uint32
  objects_path :: "uint64 \<rightharpoonup> string"

definition MAX_OBJECT_NODE_SIZE :: uint32 where "MAX_OBJECT_NODE_SIZE = 1000000"
definition SAVE_BATCH_SIZE :: uint32 where "SAVE_BATCH_SIZE = 10000"

text \<open>The constructor and \<open>init\<close>, for the index, the term and the size of the snapshot of NuRaft.\<close>

definition new_snapshot_store :: "uint64 \<Rightarrow> uint64 \<Rightarrow> uint64 \<Rightarrow> uint32 \<Rightarrow> string \<Rightarrow> snapshot_store" where
  "new_snapshot_store idx trm sz object_node_size time =
     \<lparr>curr_time = time, sn_last_log_index = idx, sn_last_log_term = trm, snap_size = sz,
      max_object_node_size = (if object_node_size = 0 then MAX_OBJECT_NODE_SIZE else object_node_size),
      save_batch_size = SAVE_BATCH_SIZE, objects_path = Map.empty\<rparr>"

definition getObjectPath :: "snapshot_store \<Rightarrow> uint64 \<Rightarrow> string" where
  "getObjectPath st object_id =
     take 1023 (''snapshot_'' @ curr_time st @ ''_'' @ nat_to_string (unat (sn_last_log_index st)) @ ''_'' @ nat_to_string (unat object_id))"

text \<open>\<open>find_last_of('_')\<close>, and \<open>std::stoi\<close> of what follows: no digits and values out of range throw.\<close>

definition getObjectIdx :: "string \<Rightarrow> snap_exc + uint64" where
  "getObjectIdx fname =
     (case scan_ulong (rev (takeWhile (\<lambda>c. c \<noteq> CHR ''_'') (rev fname))) of
        None \<Rightarrow> Inl STD_EXCEPTION
      | Some (v, _) \<Rightarrow> if v < 2 ^ 31 then Inr v else Inl STD_EXCEPTION)"

definition addObjectPath :: "snapshot_store \<Rightarrow> uint64 \<Rightarrow> string \<Rightarrow> snapshot_store" where
  "addObjectPath st obj_id path = st\<lparr>objects_path := (objects_path st)(obj_id \<mapsto> path)\<rparr>"

section \<open>Writing the nodes\<close>

record snap_writer =
  wr_files :: snap_files
  wr_out :: "string option"
  wr_batch :: "SnapshotBatchPB option"
  wr_processed :: uint64
  wr_checksum :: uint32

definition wr_append :: "string \<Rightarrow> snap_writer \<Rightarrow> snap_writer" where
  "wr_append bytes w =
     (case wr_out w of
        None \<Rightarrow> w
      | Some name \<Rightarrow> w\<lparr>wr_files := (wr_files w)(name \<mapsto> (case wr_files w name of None \<Rightarrow> [] | Some c \<Rightarrow> c) @ bytes)\<rparr>)"

definition wr_flush :: "snap_lib \<Rightarrow> snap_writer \<Rightarrow> snap_writer" where
  "wr_flush L w =
     (case saveBatchAndUpdateCheckSum L (wr_batch w) (wr_checksum w) of
        (bytes, batch, _, checksum) \<Rightarrow> (wr_append bytes w)\<lparr>wr_batch := Some batch, wr_checksum := checksum\<rparr>)"

definition wr_close :: "snap_writer \<Rightarrow> snap_writer" where
  "wr_close w = wr_append (write_tail (wr_checksum w)) w"

definition wr_open :: "string \<Rightarrow> snap_writer \<Rightarrow> snap_writer" where
  "wr_open name w = wr_append (write_header V1) (w\<lparr>wr_files := (wr_files w)(name \<mapsto> []), wr_out := Some name\<rparr>)"

text \<open>What \<open>serializeNode\<close> does for the node itself: a new object, a new batch, the node.\<close>

definition begin_object :: "snap_lib \<Rightarrow> snapshot_store \<Rightarrow> snap_writer \<Rightarrow> snap_writer" where
  "begin_object L st w =
     (if wr_processed w mod ucast (max_object_node_size st) = 0 then
        let obj_id = wr_processed w div ucast (max_object_node_size st);
            w1 = (if obj_id \<noteq> 0 then (wr_close (wr_flush L w))\<lparr>wr_checksum := 0\<rparr> else w)
        in wr_open (getObjectPath st (obj_id + 4)) w1
      else w)"

definition begin_batch :: "snap_lib \<Rightarrow> snapshot_store \<Rightarrow> snap_writer \<Rightarrow> snap_writer" where
  "begin_batch L st w =
     (if wr_processed w mod ucast (save_batch_size st) = 0 then
        if wr_processed w \<noteq> 0 then wr_flush L w
        else w\<lparr>wr_batch := Some (case wr_batch w of None \<Rightarrow> new_batch | Some b \<Rightarrow> b)\<rparr>
      else w)"

definition append_node :: "string \<Rightarrow> KeeperNode \<Rightarrow> snap_writer \<Rightarrow> snap_writer" where
  "append_node path n w =
     w\<lparr>wr_batch := Some (appendNodeToBatch (case wr_batch w of None \<Rightarrow> new_batch | Some b \<Rightarrow> b) path n),
       wr_processed := wr_processed w + 1\<rparr>"

definition serialize_one :: "snap_lib \<Rightarrow> snapshot_store \<Rightarrow> string \<Rightarrow> KeeperNode \<Rightarrow> snap_writer \<Rightarrow> snap_writer" where
  "serialize_one L st path n w = append_node path n (begin_batch L st (begin_object L st w))"

text \<open>The recursion over the children, with the paths still to be visited as an explicit stack.\<close>

partial_function (option) serializeNode ::
    "snap_lib \<Rightarrow> env \<Rightarrow> snapshot_store \<Rightarrow> KeeperStore \<Rightarrow> string list \<Rightarrow> snap_writer \<Rightarrow> snap_writer option" where
  "serializeNode L E st s todo w =
     (case todo of
        [] \<Rightarrow> Some w
      | path # rest \<Rightarrow>
          (case container s path of
             None \<Rightarrow> serializeNode L E st s rest w
           | Some n \<Rightarrow>
               serializeNode L E st s (map (child_path path) (path_order E (children n)) @ rest) (serialize_one L st path n w)))"

definition serializeDataTree ::
    "snap_lib \<Rightarrow> env \<Rightarrow> snapshot_store \<Rightarrow> KeeperStore \<Rightarrow> snap_files \<Rightarrow> (snap_files \<times> (snap_exc + uint64)) option" where
  "serializeDataTree L E st s files =
     (case serializeNode L E st s [''/'']
             \<lparr>wr_files = files, wr_out = None, wr_batch = None, wr_processed = 0, wr_checksum = 0\<rparr> of
        None \<Rightarrow> None
      | Some w \<Rightarrow>
          (case wr_out w of
             None \<Rightarrow> Some (wr_files w, Inl SNAP_NULL_POINTER)
           | Some name \<Rightarrow> Some (wr_files (wr_close (wr_flush L w)), getObjectIdx name)))"

fun add_paths :: "snapshot_store \<Rightarrow> nat list \<Rightarrow> snapshot_store" where
  "add_paths st [] = st"
| "add_paths st (i # is) = add_paths (addObjectPath st (of_nat i) (getObjectPath st (of_nat i))) is"

definition createObjects ::
    "snap_lib \<Rightarrow> env \<Rightarrow> io \<Rightarrow> snap_files \<Rightarrow> snapshot_store \<Rightarrow> KeeperStore \<Rightarrow> int64 \<Rightarrow> int64
      \<Rightarrow> (snap_files \<times> snapshot_store \<times> (snap_exc + uint64)) option" where
  "createObjects L E io files st s nzxid nsession =
     (if snap_size st = 0 then Some (files, st, Inr 0)
      else if \<not> mkdir_ok io then Some (files, st, Inl CANNOT_CREATE_DIRECTORY)
      else
        let int_map = [''ZXID'' \<mapsto> nzxid, ''SESSIONID'' \<mapsto> nsession];
            files1 = files(getObjectPath st 1 \<mapsto> serializeMap L E int_map (save_batch_size st) V1);
            files2 = files1(getObjectPath st 2 \<mapsto> fst (serializeSessions L E s (save_batch_size st) V1));
            files3 = files2(getObjectPath st 3 \<mapsto> serializeAcls L E (store_acl_map s) (save_batch_size st) V1)
        in case serializeDataTree L E st s files3 of
             None \<Rightarrow> None
           | Some (files4, Inl e) \<Rightarrow> Some (files4, st, Inl e)
           | Some (files4, Inr total_obj_count) \<Rightarrow>
               Some (files4, add_paths st [1..<unat total_obj_count + 1], Inr total_obj_count))"

section \<open>Loading\<close>

text \<open>The objects in the order of their numbers, and the share of each thread.\<close>

definition sorted_ids :: "(uint64 \<rightharpoonup> 'a) \<Rightarrow> uint64 list" where
  "sorted_ids m = map of_nat (sorted_list_of_set (unat ` dom m))"

definition SNAPSHOT_THREAD_NUM :: nat where "SNAPSHOT_THREAD_NUM = 8"

definition object_actions :: "snap_lib \<Rightarrow> snap_files \<Rightarrow> snapshot_store \<Rightarrow> snap_action list list" where
  "object_actions L files st = map (\<lambda>obj_id. fst (parseOneObject L files (the (objects_path st obj_id)))) (sorted_ids (objects_path st))"

definition thread_share :: "'a list \<Rightarrow> nat \<Rightarrow> 'a list" where
  "thread_share objects thread_idx = map snd (filter (\<lambda>(obj_idx, _). obj_idx mod SNAPSHOT_THREAD_NUM = thread_idx) (enumerate 0 objects))"

definition load_threads :: "snap_lib \<Rightarrow> snap_files \<Rightarrow> snapshot_store \<Rightarrow> snap_action list list list" where
  "load_threads L files st = map (thread_share (object_actions L files st)) [0..<SNAPSHOT_THREAD_NUM]"

text \<open>
  A thread enters the next critical section of its object; an exception in it ends the object and is
  logged. The clock is read in each section.
\<close>

inductive load_step :: "env \<Rightarrow> snap_action list list list \<times> KeeperStore \<Rightarrow> snap_action list list list \<times> KeeperStore \<Rightarrow> bool" for E where
  act: "t < length ths \<Longrightarrow> ths ! t = (a # acts) # objs \<Longrightarrow> apply_action (E\<lparr>now_ms := now\<rparr>) a s = Inr s'
    \<Longrightarrow> load_step E (ths, s) (ths[t := acts # objs], s')"
| raise: "t < length ths \<Longrightarrow> ths ! t = (a # acts) # objs \<Longrightarrow> apply_action (E\<lparr>now_ms := now\<rparr>) a s = Inl e
    \<Longrightarrow> load_step E (ths, s) (ths[t := objs], s)"
| object_done: "t < length ths \<Longrightarrow> ths ! t = [] # objs \<Longrightarrow> load_step E (ths, s) (ths[t := objs], s)"

definition threads_done :: "snap_action list list list \<Rightarrow> bool" where
  "threads_done ths \<longleftrightarrow> list_all (\<lambda>objs. objs = []) ths"

inductive parseObject :: "snap_lib \<Rightarrow> env \<Rightarrow> snap_files \<Rightarrow> snapshot_store \<Rightarrow> KeeperStore \<Rightarrow> KeeperStore \<Rightarrow> exc option \<Rightarrow> bool"
  for L E files st s where
  loaded: "(load_step E)\<^sup>*\<^sup>* (load_threads L files st, s) (ths, s1) \<Longrightarrow> threads_done ths
    \<Longrightarrow> buildPathChildren E s1 False = (s2, e) \<Longrightarrow> parseObject L E files st s s2 e"

definition existObject :: "snapshot_store \<Rightarrow> uint64 \<Rightarrow> bool" where
  "existObject st obj_id \<longleftrightarrow> obj_id \<in> dom (objects_path st)"

text \<open>\<open>None\<close> leaves the buffer of the caller unset.\<close>

definition loadObject :: "snap_files \<Rightarrow> snapshot_store \<Rightarrow> uint64 \<Rightarrow> string option" where
  "loadObject files st obj_id = (if \<not> existObject st obj_id then None else files (the (objects_path st obj_id)))"

text \<open>The file is opened without truncation and written from its start.\<close>

definition saveObject :: "io \<Rightarrow> snap_files \<Rightarrow> snapshot_store \<Rightarrow> uint64 \<Rightarrow> string \<Rightarrow> snap_files \<times> snapshot_store" where
  "saveObject io files st obj_id buffer =
     (if \<not> mkdir_ok io \<or> \<not> open_ok io then (files, st)
      else
        let path = getObjectPath st obj_id;
            old = (case files path of None \<Rightarrow> [] | Some c \<Rightarrow> c)
        in (files(path \<mapsto> overwrite old 0 buffer), addObjectPath st obj_id path))"

section \<open>The manager\<close>

record snapshot_manager =
  keep_max_snapshot_count :: uint32
  object_node_size :: uint32
  snapshots :: "uint64 \<rightharpoonup> snapshot_store"

definition createSnapshot ::
    "snap_lib \<Rightarrow> env \<Rightarrow> io \<Rightarrow> snap_files \<Rightarrow> snapshot_manager \<Rightarrow> uint64 \<Rightarrow> uint64 \<Rightarrow> KeeperStore \<Rightarrow> int64 \<Rightarrow> int64
      \<Rightarrow> (snap_files \<times> snapshot_manager \<times> (snap_exc + uint64)) option" where
  "createSnapshot L E io files mgr idx trm s nzxid nsession =
     (let store_size = of_nat (card (dom (container s)) + card (dom (ephemerals s)));
          st = new_snapshot_store idx trm store_size (object_node_size mgr) (clock io)
      in case createObjects L E io files st s nzxid nsession of
           None \<Rightarrow> None
         | Some (files1, st1, Inl e) \<Rightarrow> Some (files1, mgr, Inl e)
         | Some (files1, st1, Inr obj_size) \<Rightarrow> Some (files1, mgr\<lparr>snapshots := (snapshots mgr)(idx \<mapsto> st1)\<rparr>, Inr obj_size))"

definition receiveSnapshot :: "io \<Rightarrow> snapshot_manager \<Rightarrow> uint64 \<Rightarrow> uint64 \<Rightarrow> uint64 \<Rightarrow> snapshot_manager" where
  "receiveSnapshot io mgr idx trm sz =
     mgr\<lparr>snapshots := (snapshots mgr)(idx \<mapsto> new_snapshot_store idx trm sz (object_node_size mgr) (clock io))\<rparr>"

definition existSnapshot :: "snapshot_manager \<Rightarrow> uint64 \<Rightarrow> bool" where
  "existSnapshot mgr idx \<longleftrightarrow> idx \<in> dom (snapshots mgr)"

definition existSnapshotObject :: "snapshot_manager \<Rightarrow> uint64 \<Rightarrow> uint64 \<Rightarrow> bool" where
  "existSnapshotObject mgr idx obj_id = (case snapshots mgr idx of None \<Rightarrow> False | Some st \<Rightarrow> existObject st obj_id)"

definition loadSnapshotObject :: "snap_files \<Rightarrow> snapshot_manager \<Rightarrow> uint64 \<Rightarrow> uint64 \<Rightarrow> bool \<times> string option" where
  "loadSnapshotObject files mgr idx obj_id =
     (case snapshots mgr idx of None \<Rightarrow> (False, None) | Some st \<Rightarrow> (True, loadObject files st obj_id))"

definition saveSnapshotObject ::
    "io \<Rightarrow> snap_files \<Rightarrow> snapshot_manager \<Rightarrow> uint64 \<Rightarrow> uint64 \<Rightarrow> uint64 \<Rightarrow> string \<Rightarrow> snap_files \<times> snapshot_manager \<times> bool" where
  "saveSnapshotObject io files mgr idx trm obj_id buffer =
     (let st = (case snapshots mgr idx of None \<Rightarrow> new_snapshot_store idx trm 0 MAX_OBJECT_NODE_SIZE (clock io) | Some st \<Rightarrow> st);
          (files1, st1) = saveObject io files st obj_id buffer
      in (files1, mgr\<lparr>snapshots := (snapshots mgr)(idx \<mapsto> st1)\<rparr>, True))"

inductive parseSnapshot ::
    "snap_lib \<Rightarrow> env \<Rightarrow> snap_files \<Rightarrow> snapshot_manager \<Rightarrow> uint64 \<Rightarrow> KeeperStore \<Rightarrow> KeeperStore \<Rightarrow> exc + bool \<Rightarrow> bool"
  for L E files mgr idx s where
  absent: "snapshots mgr idx = None \<Longrightarrow> parseSnapshot L E files mgr idx s s (Inr False)"
| parsed: "snapshots mgr idx = Some st \<Longrightarrow> parseObject L E files st s s' None \<Longrightarrow> parseSnapshot L E files mgr idx s s' (Inr True)"
| thrown: "snapshots mgr idx = Some st \<Longrightarrow> parseObject L E files st s s' (Some e) \<Longrightarrow> parseSnapshot L E files mgr idx s s' (Inl e)"

text \<open>
  \<open>sscanf(file, "snapshot_%[^_]_%lu_%lu", ...)\<close>: what a failed conversion and those behind it leave as
  it was before, that is from the previous file.
\<close>

type_synonym scan_state = "string \<times> uint64 \<times> uint64"

definition scan_snapshot_name :: "string \<Rightarrow> scan_state \<Rightarrow> scan_state" where
  "scan_snapshot_name file st =
     (case st of (time_str, log_last_index, object_id) \<Rightarrow>
      case scan_literal ''snapshot_'' file of None \<Rightarrow> st | Some s1 \<Rightarrow>
      let time1 = takeWhile (\<lambda>c. c \<noteq> CHR ''_'') s1
      in if time1 = [] then st
         else case scan_literal ''_'' (dropWhile (\<lambda>c. c \<noteq> CHR ''_'') s1) of None \<Rightarrow> (time1, log_last_index, object_id) | Some s2 \<Rightarrow>
         (case scan_ulong s2 of None \<Rightarrow> (time1, log_last_index, object_id) | Some (idx1, s3) \<Rightarrow>
          (case scan_literal ''_'' s3 of None \<Rightarrow> (time1, idx1, object_id) | Some s4 \<Rightarrow>
           (case scan_ulong s4 of None \<Rightarrow> (time1, idx1, object_id) | Some (obj1, _) \<Rightarrow> (time1, idx1, obj1)))))"

fun find_substring :: "string \<Rightarrow> string \<Rightarrow> bool" where
  "find_substring pat [] \<longleftrightarrow> pat = []"
| "find_substring pat (c # cs) \<longleftrightarrow> take (length pat) (c # cs) = pat \<or> find_substring pat cs"

fun load_metas :: "string list \<Rightarrow> scan_state \<Rightarrow> snapshot_manager \<Rightarrow> snapshot_manager" where
  "load_metas [] scan mgr = mgr"
| "load_metas (file # fs) scan mgr =
     (if \<not> find_substring ''snapshot_'' file then load_metas fs scan mgr
      else
        case scan_snapshot_name file scan of (time_str, log_last_index, object_id) \<Rightarrow>
          let st = (case snapshots mgr log_last_index of
                      None \<Rightarrow> new_snapshot_store log_last_index 1 0 (object_node_size mgr) time_str
                    | Some st \<Rightarrow> st)
          in load_metas fs (time_str, log_last_index, object_id)
               (mgr\<lparr>snapshots := (snapshots mgr)(log_last_index \<mapsto> addObjectPath st object_id file)\<rparr>))"

definition loadSnapshotMetas :: "env \<Rightarrow> scan_state \<Rightarrow> snap_files \<Rightarrow> snapshot_manager \<Rightarrow> snapshot_manager \<times> uint64" where
  "loadSnapshotMetas E garbage_scan files mgr =
     (let mgr1 = load_metas (path_order E (dom files)) garbage_scan mgr in (mgr1, of_nat (card (dom (snapshots mgr1)))))"

definition lastSnapshot :: "snapshot_manager \<Rightarrow> snapshot_store option" where
  "lastSnapshot mgr =
     (case rev (sorted_ids (snapshots mgr)) of [] \<Rightarrow> None | idx # _ \<Rightarrow> snapshots mgr idx)"

definition getLastCreateTime :: "(string \<Rightarrow> int64) \<Rightarrow> snapshot_manager \<Rightarrow> int64" where
  "getLastCreateTime parseTime mgr = (case lastSnapshot mgr of None \<Rightarrow> 0 | Some st \<Rightarrow> parseTime (curr_time st))"

fun remove_files :: "uint64 \<Rightarrow> string list \<Rightarrow> scan_state \<Rightarrow> snap_files \<Rightarrow> snapshot_manager \<Rightarrow> snap_files \<times> snapshot_manager \<times> scan_state" where
  "remove_files idx [] scan files mgr = (files, mgr, scan)"
| "remove_files idx (file # fs) scan files mgr =
     (if \<not> find_substring ''snapshot_'' file then remove_files idx fs scan files mgr
      else
        case scan_snapshot_name file scan of (time_str, log_last_index, object_id) \<Rightarrow>
          if idx = log_last_index
          then remove_files idx fs (time_str, log_last_index, object_id) (files(file := None)) (mgr\<lparr>snapshots := (snapshots mgr)(idx := None)\<rparr>)
          else remove_files idx fs (time_str, log_last_index, object_id) files mgr)"

fun remove_loop :: "env \<Rightarrow> nat \<Rightarrow> scan_state \<Rightarrow> snap_files \<Rightarrow> snapshot_manager \<Rightarrow> snap_files \<times> snapshot_manager" where
  "remove_loop E 0 scan files mgr = (files, mgr)"
| "remove_loop E (Suc remove_count) scan files mgr =
     (case sorted_ids (snapshots mgr) of
        [] \<Rightarrow> (files, mgr)
      | idx # _ \<Rightarrow>
          (case remove_files idx (path_order E (dom files)) scan files mgr of
             (files1, mgr1, scan1) \<Rightarrow> remove_loop E remove_count scan1 files1 mgr1))"

definition removeSnapshots :: "env \<Rightarrow> scan_state \<Rightarrow> snap_files \<Rightarrow> snapshot_manager \<Rightarrow> snap_files \<times> snapshot_manager \<times> uint64" where
  "removeSnapshots E garbage_scan files mgr =
     (case remove_loop E (card (dom (snapshots mgr)) - unat (keep_max_snapshot_count mgr)) garbage_scan files mgr of
        (files1, mgr1) \<Rightarrow> (files1, mgr1, of_nat (card (dom (snapshots mgr1)))))"

section \<open>The state machine\<close>

text \<open>
  The snapshot of NuRaft is given by its last index, its last term and its size. The lock of the
  snapshots makes each operation atomic on the manager.
\<close>

definition create_snapshot ::
    "snap_lib \<Rightarrow> env \<Rightarrow> io \<Rightarrow> scan_state \<Rightarrow> snap_files \<Rightarrow> snapshot_manager \<Rightarrow> uint64 \<Rightarrow> uint64 \<Rightarrow> KeeperStore \<Rightarrow> int64 \<Rightarrow> int64
      \<Rightarrow> (snap_files \<times> snapshot_manager \<times> snap_exc option) option" where
  "create_snapshot L E io garbage_scan files mgr idx trm s nzxid nsession =
     (case createSnapshot L E io files mgr idx trm s nzxid nsession of
        None \<Rightarrow> None
      | Some (files1, mgr1, Inl e) \<Rightarrow> Some (files1, mgr1, Some e)
      | Some (files1, mgr1, Inr _) \<Rightarrow>
          (case removeSnapshots E garbage_scan files1 mgr1 of (files2, mgr2, _) \<Rightarrow> Some (files2, mgr2, None)))"

definition read_logical_snp_obj :: "snap_files \<Rightarrow> snapshot_manager \<Rightarrow> uint64 \<Rightarrow> uint64 \<Rightarrow> string option \<times> bool" where
  "read_logical_snp_obj files mgr idx obj_id =
     (if \<not> existSnapshot mgr idx then (None, True)
      else if obj_id = 0 then (Some (pod_bytes (0 :: int32)), False)
      else (snd (loadSnapshotObject files mgr idx obj_id), \<not> existSnapshotObject mgr idx (obj_id + 1)))"

definition save_logical_snp_obj ::
    "io \<Rightarrow> snap_files \<Rightarrow> snapshot_manager \<Rightarrow> uint64 \<Rightarrow> uint64 \<Rightarrow> uint64 \<Rightarrow> uint64 \<Rightarrow> string \<Rightarrow> snap_files \<times> snapshot_manager \<times> uint64" where
  "save_logical_snp_obj io files mgr idx trm sz obj_id buffer =
     (if obj_id = 0 then (files, receiveSnapshot io mgr idx trm sz, obj_id + 1)
      else case saveSnapshotObject io files mgr idx trm obj_id buffer of (files1, mgr1, _) \<Rightarrow> (files1, mgr1, obj_id + 1))"

definition exist_snapshot_object :: "snapshot_manager \<Rightarrow> uint64 \<Rightarrow> uint64 \<Rightarrow> bool" where
  "exist_snapshot_object mgr idx obj_id = existSnapshotObject mgr idx obj_id"

definition apply_snapshot ::
    "snap_lib \<Rightarrow> env \<Rightarrow> snap_files \<Rightarrow> snapshot_manager \<Rightarrow> uint64 \<Rightarrow> KeeperStore \<Rightarrow> KeeperStore \<Rightarrow> exc + bool \<Rightarrow> bool" where
  "apply_snapshot L E files mgr idx s s' r \<longleftrightarrow> parseSnapshot L E files mgr idx s s' r"

end
