(* ===== verification/Snapshot_Format_Facts.thy ===== *)
theory Snapshot_Format_Facts
  imports Snapshot_Store
begin

text \<open>
  What a snapshot file says: the bytes written for a list of batches are parsed into the critical
  sections of exactly these batches, and the loop that writes the its of an object cuts them into
  batches of at most the batch size without losing or reordering any.
\<close>

section \<open>Files as lists of batches\<close>

definition batch_bytes :: "snap_lib \<Rightarrow> SnapshotBatchPB \<Rightarrow> string" where
  "batch_bytes L b = fst (saveBatch L (Some b))"

definition batch_crc :: "snap_lib \<Rightarrow> SnapshotBatchPB \<Rightarrow> uint32" where
  "batch_crc L b = getCRC32 (pb_serialize L b)"

definition add_crcs :: "snap_lib \<Rightarrow> uint32 \<Rightarrow> SnapshotBatchPB list \<Rightarrow> uint32" where
  "add_crcs L c bs = foldl (\<lambda>c b. updateCheckSum c (batch_crc L b)) c bs"

definition file_of :: "snap_lib \<Rightarrow> SnapshotBatchPB list \<Rightarrow> string" where
  "file_of L bs = write_header V1 @ concat (map (batch_bytes L) bs) @ write_tail (add_crcs L 0 bs)"

definition batch_small :: "snap_lib \<Rightarrow> SnapshotBatchPB \<Rightarrow> bool" where
  "batch_small L b \<longleftrightarrow> length (pb_serialize L b) < 2 ^ 30"

lemma add_crcs_simps [simp]:
  "add_crcs L c [] = c" "add_crcs L c (b # bs) = add_crcs L (updateCheckSum c (batch_crc L b)) bs"
  "add_crcs L c (bs @ [b]) = updateCheckSum (add_crcs L c bs) (batch_crc L b)"
  by (simp_all add: add_crcs_def)

lemma saveBatchAndUpdateCheckSum_eq:
  "saveBatchAndUpdateCheckSum L (Some b) c =
     (batch_bytes L b, new_batch, fst (snd (saveBatch L (Some b))), updateCheckSum c (batch_crc L b))"
  "saveBatchAndUpdateCheckSum L None c = saveBatchAndUpdateCheckSum L (Some new_batch) c"
  by (simp_all add: saveBatchAndUpdateCheckSum_def batch_bytes_def batch_crc_def saveBatch_def Let_def)

lemma unat_data_length: "batch_small L b \<Longrightarrow> unat (of_nat (length (pb_serialize L b)) :: uint32) = length (pb_serialize L b)"
  by (simp add: batch_small_def unat_of_nat)

lemma batch_bytes_eq:
  assumes "batch_small L b"
  shows "batch_bytes L b = pod_bytes (of_nat (length (pb_serialize L b)) :: uint32) @ pod_bytes (batch_crc L b) @ pb_serialize L b"
  using assms by (simp add: batch_bytes_def batch_crc_def saveBatch_def Let_def unat_data_length)

lemma pod_word8_inj:
  assumes "length a = 8" "length b = 8" "(pod_word a :: uint64) = pod_word b"
  shows "a = b"
proof -
  have "a = pod_bytes (pod_word a :: uint64)" by (rule pod_bytes_word [symmetric]) (simp add: assms)
  also have "\<dots> = pod_bytes (pod_word b :: uint64)" unfolding assms(3) ..
  also have "\<dots> = b" by (rule pod_bytes_word) (simp add: assms)
  finally show ?thesis .
qed

lemma Snap_length: "unat (pod_word ''Snap'' :: uint32) \<ge> 2 ^ 30"
  by (simp add: pod_word_def)

lemma batch_no_magic:
  assumes "batch_small L b"
  shows "\<not> isFileHeader (pod_word (take 8 (batch_bytes L b @ rest)))" "\<not> isFileTail (pod_word (take 8 (batch_bytes L b @ rest)))"
proof -
  let ?len = "of_nat (length (pb_serialize L b)) :: uint32"
  have t: "take 8 (batch_bytes L b @ rest) = pod_bytes ?len @ pod_bytes (batch_crc L b)"
    by (simp add: batch_bytes_eq [OF assms])
  have ne: "pod_bytes ?len \<noteq> ''Snap''"
  proof
    assume "pod_bytes ?len = ''Snap''"
    then have "?len = pod_word ''Snap''" using pod_word_bytes [where n = 4 and x = ?len] by simp
    then have "unat ?len \<ge> 2 ^ 30" using Snap_length by (simp only:)
    then show False using assms unat_data_length [OF assms] by (simp add: batch_small_def)
  qed
  have "pod_bytes ?len @ pod_bytes (batch_crc L b) \<noteq> m" if "take 4 m = ''Snap''" for m
  proof
    assume "pod_bytes ?len @ pod_bytes (batch_crc L b) = m"
    then have "take 4 m = pod_bytes ?len" by auto
    then show False using ne that by simp
  qed
  then show "\<not> isFileHeader (pod_word (take 8 (batch_bytes L b @ rest)))" "\<not> isFileTail (pod_word (take 8 (batch_bytes L b @ rest)))"
    unfolding isFileHeader_def isFileTail_def t
    using pod_word8_inj [of "pod_bytes ?len @ pod_bytes (batch_crc L b)" "''SnapHead''"]
      pod_word8_inj [of "pod_bytes ?len @ pod_bytes (batch_crc L b)" "''SnapTail''"]
    by auto
qed

lemma head_no_tail: "isFileHeader (pod_word ''SnapHead'')" "\<not> isFileHeader (pod_word ''SnapTail'')" "isFileTail (pod_word ''SnapTail'')"
  using pod_word8_inj [of "''SnapTail''" "''SnapHead''"] by (auto simp: isFileHeader_def isFileTail_def)

lemma pod_take4 [simp]: "pod_word (take 4 (pod_bytes (x :: uint32) @ r)) = x"
  using pod_word_bytes [where n = 4 and x = x] by simp

section \<open>Parsing what was written\<close>

lemma parse_step:
  assumes "\<not> length X < 8" "\<not> isFileHeader (pod_word (take 8 X))" "\<not> isFileTail (pod_word (take 8 X))" "ver \<noteq> VNone"
    and "pod_word (take 4 X) = (len :: uint32)" "pod_word (take 4 (drop 4 X)) = crc" "take (unat len) (drop 8 X) = body" "\<not> length (take (unat len) (drop 8 X)) < unat len"
    and "verifyCRC32 body crc" "parse_batch L ver (pb_parse L body) = (acts, None)"
  shows "parseOneObject_loop L ver c X =
    (case parseOneObject_loop L ver (updateCheckSum c crc) (drop (8 + unat len) X) of (acts', r) \<Rightarrow> (acts @ acts', r))"
  using assms(8) by (subst parseOneObject_loop.simps) (simp add: assms Let_def del: length_take)

lemma parse_one_batch:
  assumes L: "snap_lib_ok L" and b: "batch_small L b" and ver: "ver \<noteq> VNone" and p: "parse_batch L ver b = (acts, None)"
  shows "parseOneObject_loop L ver c (batch_bytes L b @ rest) =
    (case parseOneObject_loop L ver (updateCheckSum c (batch_crc L b)) rest of (acts', r) \<Rightarrow> (acts @ acts', r))"
proof -
  let ?s = "pb_serialize L b"
  let ?X = "batch_bytes L b @ rest"
  have eq: "?X = pod_bytes (of_nat (length ?s) :: uint32) @ pod_bytes (batch_crc L b) @ ?s @ rest"
    by (simp add: batch_bytes_eq [OF b])
  note u = unat_data_length [OF b]
  have parsed: "parse_batch L ver (pb_parse L ?s) = (acts, None)" using L b p by (simp add: snap_lib_ok_def batch_small_def)
  have crc: "verifyCRC32 ?s (batch_crc L b)" by (simp add: batch_crc_def verifyCRC32_def)
  have f: "\<not> length ?X < 8" "pod_word (take 4 ?X) = (of_nat (length ?s) :: uint32)" "pod_word (take 4 (drop 4 ?X)) = batch_crc L b"
    "take (unat (of_nat (length ?s) :: uint32)) (drop 8 ?X) = ?s"
    "\<not> length (take (unat (of_nat (length ?s) :: uint32)) (drop 8 ?X)) < unat (of_nat (length ?s) :: uint32)" "drop (8 + unat (of_nat (length ?s) :: uint32)) ?X = rest"
    unfolding eq u by simp_all
  from parse_step [OF f(1) batch_no_magic [OF b] ver f(2,3,4,5) crc parsed, of c] show ?thesis
    by (simp only: f(6))
qed

lemma parse_batches:
  assumes L: "snap_lib_ok L" and ver: "ver \<noteq> VNone"
    and ok: "\<And>b. b \<in> set bs \<Longrightarrow> batch_small L b \<and> snd (parse_batch L ver b) = None"
  shows "parseOneObject_loop L ver c (concat (map (batch_bytes L) bs) @ write_tail (add_crcs L c bs)) =
    (concat (map (\<lambda>b. fst (parse_batch L ver b)) bs), Inr True)"
  using ok
proof (induction bs arbitrary: c)
  case Nil
  show ?case
    by (subst parseOneObject_loop.simps) (simp add: write_tail_def MAGIC_SNAPSHOT_TAIL_def head_no_tail Let_def)
next
  case (Cons b bs)
  obtain acts where p: "parse_batch L ver b = (acts, None)" using Cons.prems [of b] by (cases "parse_batch L ver b") auto
  have "batch_small L b" using Cons.prems by simp
  from parse_one_batch [OF L this ver p, of c "concat (map (batch_bytes L) bs) @ write_tail (add_crcs L c (b # bs))"]
  show ?case using Cons.IH [of "updateCheckSum c (batch_crc L b)"] Cons.prems p by simp
qed

lemma parse_file:
  assumes L: "snap_lib_ok L" and ne: "bs \<noteq> []"
    and ok: "\<And>b. b \<in> set bs \<Longrightarrow> batch_small L b \<and> snd (parse_batch L V1 b) = None"
  shows "parseOneObject_loop L VNone 0 (file_of L bs) = (concat (map (\<lambda>b. fst (parse_batch L V1 b)) bs), Inr True)"
proof -
  let ?rest = "concat (map (batch_bytes L) bs) @ write_tail (add_crcs L 0 bs)"
  obtain b bs' where bs: "bs = b # bs'" using ne by (cases bs) auto
  have b: "batch_small L b" using ok bs by simp
  have v: "(of_char (char_of (unat V1)) :: 8 word) = V1" by (rule byte_of_char)
  have fv: "file_of L bs = ''SnapHead'' @ char_of (unat V1) # ?rest"
    by (simp add: file_of_def write_header_def MAGIC_SNAPSHOT_HEAD_def V1_def pod_bytes_def)
  have "V1 \<noteq> VNone" "V1 \<noteq> V0" by (simp_all add: V1_def VNone_def V0_def)
  have len: "\<not> length ?rest < 8" by (simp add: write_tail_def MAGIC_SNAPSHOT_TAIL_def)
  have "parseOneObject_loop L VNone 0 (file_of L bs) = parseOneObject_loop L V1 0 ?rest"
  proof -
    note m = batch_no_magic [OF b, of "concat (map (batch_bytes L) bs') @ write_tail (add_crcs L 0 bs)"]
    have r: "?rest = batch_bytes L b @ concat (map (batch_bytes L) bs') @ write_tail (add_crcs L 0 bs)" by (simp add: bs)
    show ?thesis
      unfolding fv
      using len m \<open>V1 \<noteq> VNone\<close>
      by (subst (1 2) parseOneObject_loop.simps)
         (simp only: Let_def r [symmetric] v head_no_tail append_Cons append_Nil drop_Suc_Cons take_Suc_Cons eval_nat_numeral drop_0 take_0, simp add: v head_no_tail)
  qed
  then show ?thesis using parse_batches [OF L \<open>V1 \<noteq> VNone\<close> ok, where c = 0] by simp
qed

section \<open>Cutting its into batches\<close>

lemma unat_ucast_32_64 [simp]: "unat (ucast (x :: uint32) :: uint64) = unat x"
  using unat_bound [of x] by (simp add: unsigned_ucast_eq take_bit_nat_eq_self)

lemma index_mod:
  assumes "k < 2 ^ 64"
  shows "(of_nat k :: uint64) mod ucast (sz :: uint32) = 0 \<longleftrightarrow> k mod unat sz = 0"
proof -
  have "unat ((of_nat k :: uint64) mod ucast sz) = k mod unat sz" using assms by (simp add: unat_mod unat_of_nat)
  then show ?thesis by (metis unat_eq_zero)
qed

lemma batch_length_next:
  assumes "k mod n \<noteq> 0"
  shows "Suc ((k - 1) mod n + 1) = k mod n + (1 :: nat)"
proof -
  obtain j where k: "k = Suc j" using assms by (cases k) auto
  then show ?thesis using assms by (simp add: mod_Suc split: if_splits)
qed

definition batch_cut :: "SnapshotTypePB \<Rightarrow> uint32 \<Rightarrow> SnapshotBatchPB \<Rightarrow> bool" where
  "batch_cut ty sz b \<longleftrightarrow> batch_type b = ty \<and> length (batch_data b) \<le> unat sz"

lemma save_loop_batches:
  assumes "0 < k" "k + length its < 2 ^ 64" "sz \<noteq> 0" "batch_type b = ty" "length (batch_data b) = (k - 1) mod unat sz + 1"
  shows "\<exists>bs last. save_loop L ty sz its (of_nat k) (Some b) c = (concat (map (batch_bytes L) bs), Some last, add_crcs L c bs)
    \<and> concat (map batch_data (bs @ [last])) = batch_data b @ its \<and> (\<forall>x \<in> set (bs @ [last]). batch_cut ty sz x)"
  using assms
proof (induction its arbitrary: k b c)
  case Nil
  have "(k - 1) mod unat sz < unat sz" using Nil.prems(3) by (intro mod_less_divisor) (simp add: unat_gt_0)
  then have "batch_cut ty sz b" using Nil.prems by (simp add: batch_cut_def)
  then show ?case by (intro exI [of _ "[]"] exI [of _ b]) simp
next
  case (Cons item its)
  have k: "k < 2 ^ 64" "Suc k + length its < 2 ^ 64" using Cons.prems(2) by simp_all
  have ne: "(of_nat k :: uint64) \<noteq> 0" using Cons.prems(1) k(1) by (simp add: word_of_nat_eq_0_iff mod_eq_0_iff_dvd nat_dvd_not_less)
  have suc: "(of_nat k :: uint64) + 1 = of_nat (Suc k)" by simp
  show ?case
  proof (cases "k mod unat sz = 0")
    case True
    let ?b = "add_data (new_batch\<lparr>batch_type := ty\<rparr>) item"
    have b: "batch_type ?b = ty" "length (batch_data ?b) = (Suc k - 1) mod unat sz + 1" "batch_data ?b = [item]"
      using True by (simp_all add: add_data_def new_batch_def)
    obtain bs last where r: "save_loop L ty sz its (of_nat (Suc k)) (Some ?b) (updateCheckSum c (batch_crc L b)) =
        (concat (map (batch_bytes L) bs), Some last, add_crcs L (updateCheckSum c (batch_crc L b)) bs)"
      "concat (map batch_data (bs @ [last])) = batch_data ?b @ its" "\<forall>x \<in> set (bs @ [last]). batch_cut ty sz x"
      using Cons.IH [OF _ k(2) Cons.prems(3) b(1,2)] by blast
    have "(k - 1) mod unat sz < unat sz" using Cons.prems(3) by (intro mod_less_divisor) (simp add: unat_gt_0)
    then have "batch_cut ty sz b" using Cons.prems by (simp add: batch_cut_def)
    moreover have "save_loop L ty sz (item # its) (of_nat k) (Some b) c = (concat (map (batch_bytes L) (b # bs)), Some last, add_crcs L c (b # bs))"
      using True ne r(1) suc by (simp add: index_mod [OF k(1)] saveBatchAndUpdateCheckSum_eq(1) del: of_nat_Suc)
    ultimately show ?thesis using r(2,3) b(3) by (intro exI [of _ "b # bs"] exI [of _ last]) simp
  next
    case False
    let ?b = "add_data b item"
    have b: "batch_type ?b = ty" "length (batch_data ?b) = (Suc k - 1) mod unat sz + 1"
      using Cons.prems(4,5) batch_length_next [OF False] by (simp_all add: add_data_def)
    obtain bs last where r: "save_loop L ty sz its (of_nat (Suc k)) (Some ?b) c = (concat (map (batch_bytes L) bs), Some last, add_crcs L c bs)"
      "concat (map batch_data (bs @ [last])) = batch_data ?b @ its" "\<forall>x \<in> set (bs @ [last]). batch_cut ty sz x"
      using Cons.IH [OF _ k(2) Cons.prems(3) b] by blast
    moreover have "save_loop L ty sz (item # its) (of_nat k) (Some b) c = (concat (map (batch_bytes L) bs), Some last, add_crcs L c bs)"
      using False r(1) suc by (simp add: index_mod [OF k(1)] del: of_nat_Suc)
    ultimately show ?thesis by (intro exI [of _ bs] exI [of _ last]) (simp add: add_data_def)
  qed
qed

lemma save_object_batches:
  assumes sz: "sz \<noteq> 0" and n: "length its < 2 ^ 64 - 1"
  shows "\<exists>bs. save_object L ty sz V1 its = file_of L bs \<and> bs \<noteq> [] \<and> concat (map batch_data bs) = its
    \<and> (\<forall>b \<in> set bs. batch_cut ty sz b \<or> b = new_batch)"
proof (cases its)
  case Nil
  then show ?thesis
    by (intro exI [of _ "[new_batch]"]) (simp add: save_object_def file_of_def saveBatchAndUpdateCheckSum_eq new_batch_def)
next
  case (Cons item rest)
  let ?b = "add_data (new_batch\<lparr>batch_type := ty\<rparr>) item"
  have b: "batch_type ?b = ty" "length (batch_data ?b) = (1 - 1) mod unat sz + 1" "batch_data ?b = [item]"
    by (simp_all add: add_data_def new_batch_def)
  obtain bs last where r: "save_loop L ty sz rest (of_nat 1) (Some ?b) 0 = (concat (map (batch_bytes L) bs), Some last, add_crcs L 0 bs)"
    "concat (map batch_data (bs @ [last])) = batch_data ?b @ rest" "\<forall>x \<in> set (bs @ [last]). batch_cut ty sz x"
    using save_loop_batches [of 1 rest, OF _ _ sz b(1,2), of L 0] n Cons by force
  have "save_object L ty sz V1 its = file_of L (bs @ [last])"
    using r(1) Cons by (simp add: save_object_def file_of_def saveBatchAndUpdateCheckSum_eq)
  then show ?thesis using r(2,3) b(3) Cons by (intro exI [of _ "bs @ [last]"]) auto
qed

end
