(* ===== verification/Snapshot_Tree_Facts.thy ===== *)
theory Snapshot_Tree_Facts
  imports Snapshot_Format_Facts Store_Invariant
begin

text \<open>
  What the traversal of the nodes writes: the recursion over the children ends, visits every node of
  a tree exactly once, and leaves the nodes in the objects from the fourth on, cut into batches.
\<close>

section \<open>The traversal\<close>

definition kid_paths :: "string set \<Rightarrow> string \<Rightarrow> string set" where
  "kid_paths D p = {q \<in> D. q \<noteq> ''/'' \<and> parentPath q = p}"

lemma kid_paths_kids:
  assumes "paths_ok D" "p \<noteq> []"
  shows "child_path p ` kids D p = kid_paths D p"
proof (intro equalityI subsetI)
  fix q assume "q \<in> child_path p ` kids D p"
  then obtain b where b: "b \<noteq> []" "CHR ''/'' \<notin> set b" "q \<in> D" "q = child_path p b" by (auto simp: kids_def)
  then have "parentPath q = p" using assms(2) by simp
  moreover have "q \<noteq> ''/''" using b(1,4) assms(2) by (cases p) (auto simp: child_path_def split: if_splits)
  ultimately show "q \<in> kid_paths D p" using b(3) by (simp add: kid_paths_def)
next
  fix q assume "q \<in> kid_paths D p"
  then have q: "q \<in> D" "q \<noteq> ''/''" "parentPath q = p" by (auto simp: kid_paths_def)
  have c: "canonical q" by (rule paths_okD(3) [OF assms(1) q(1,2)])
  then show "q \<in> child_path p ` kids D p"
    using kidsI [OF c q(1)] canonicalD(1) [OF c] q(3) by (intro image_eqI [of _ _ "getBaseName q"]) auto
qed

lemma kid_paths_distinct:
  assumes "distinct bs" "set bs \<subseteq> kids D p" "p \<noteq> []"
  shows "distinct (map (child_path p) bs)"
proof -
  have "inj_on (child_path p) (kids D p)"
    using assms(3) by (intro inj_on_inverseI [where g = getBaseName]) (auto simp: kids_def)
  then show ?thesis using assms(1,2) by (auto simp: distinct_map intro: inj_on_subset)
qed

text \<open>The nodes visited and the stack: what is visited is closed under children up to the stack.\<close>

definition visiting :: "string set \<Rightarrow> string set \<Rightarrow> string list \<Rightarrow> bool" where
  "visiting D V todo \<longleftrightarrow> V \<subseteq> D \<and> set todo \<subseteq> D \<and> distinct todo \<and> V \<inter> set todo = {} \<and> ''/'' \<in> V \<union> set todo
     \<and> (\<forall>q \<in> V \<union> set todo. q = ''/'' \<or> parentPath q \<in> V) \<and> (\<forall>q \<in> D. q \<noteq> ''/'' \<and> parentPath q \<in> V \<longrightarrow> q \<in> V \<union> set todo)"

lemma visiting_end:
  assumes ok: "paths_ok D" and v: "visiting D V []"
  shows "D = V"
proof -
  have "q \<in> V" if "q \<in> D" for q
    using that
  proof (induction q rule: measure_induct_rule [of length])
    case (less q)
    show ?case
    proof (cases "q = ''/''")
      case True
      then show ?thesis using v by (simp add: visiting_def)
    next
      case False
      have "parentPath q \<in> V"
        using less.IH [OF length_parentPath [OF paths_okD(3) [OF ok less.prems False]]] paths_okD(4) [OF ok less.prems] by simp
      then show ?thesis using v False less.prems by (auto simp: visiting_def)
    qed
  qed
  then show ?thesis using v by (auto simp: visiting_def)
qed

lemma visiting_step:
  assumes ok: "paths_ok D" and v: "visiting D V (p # rest)" and bs: "set bs = kids D p" "distinct bs"
  shows "visiting D (insert p V) (map (child_path p) bs @ rest)"
proof -
  have p: "p \<in> D" "p \<notin> V" "p \<notin> set rest" using v by (auto simp: visiting_def)
  then have ne: "p \<noteq> []" using paths_okD(5) [OF ok] by auto
  let ?new = "map (child_path p) bs"
  have new: "set ?new = kid_paths D p" using kid_paths_kids [OF ok ne] bs(1) by simp
  have dist: "distinct ?new" using kid_paths_distinct [OF bs(2) _ ne, of D] bs(1) by simp
  have fresh: "q \<notin> insert p V \<union> set rest" if "q \<in> kid_paths D p" for q
  proof
    assume "q \<in> insert p V \<union> set rest"
    then have "q = ''/'' \<or> parentPath q \<in> V" using v by (auto simp: visiting_def)
    then show False using that p(2) by (auto simp: kid_paths_def)
  qed
  have sub: "kid_paths D p \<subseteq> D" "\<And>q. q \<in> kid_paths D p \<Longrightarrow> parentPath q = p" by (auto simp: kid_paths_def)
  have closed: "q \<in> insert p V \<union> set (?new @ rest)" if "q \<in> D" "q \<noteq> ''/''" "parentPath q \<in> insert p V" for q
    using that v new by (auto simp: visiting_def kid_paths_def)
  show ?thesis
    unfolding visiting_def using v new dist fresh sub closed p
    by (auto simp: visiting_def)
qed

lemma serializeNode_visits:
  assumes tree: "tree_inv (container s)" and E: "enumerates (path_order E)" and v: "visiting (dom (container s)) V todo"
  shows "\<exists>order. serializeNode L E st s todo w = Some (fold (\<lambda>p. serialize_one L st p (the (container s p))) order w)
    \<and> set order = dom (container s) - V \<and> distinct order"
  using v
proof (induction "card (dom (container s) - V)" arbitrary: V todo w rule: less_induct)
  case less
  let ?D = "dom (container s)"
  note ok = tree_invD(1) [OF tree]
  have fin: "finite ?D" by (rule paths_okD(1) [OF ok])
  show ?case
  proof (cases todo)
    case Nil
    then have "?D = V" using visiting_end [OF ok] less.prems by simp
    then show ?thesis using Nil by (intro exI [of _ "[]"]) (simp add: serializeNode.simps)
  next
    case (Cons p rest)
    have p: "p \<in> ?D" "p \<notin> V" using less.prems Cons by (auto simp: visiting_def)
    then obtain n where n: "container s p = Some n" by auto
    let ?bs = "path_order E (children n)"
    have kids: "children n = kids ?D p" "finite (children n)" using tree_inv_children(1,2) [OF tree n] .
    then have bs: "set ?bs = kids ?D p" "distinct ?bs" using enumeratesD [OF E kids(2)] by simp_all
    have card: "card (?D - insert p V) < card (?D - V)" using p fin by (intro psubset_card_mono) auto
    obtain order where o: "serializeNode L E st s (map (child_path p) ?bs @ rest) (serialize_one L st p n w) =
        Some (fold (\<lambda>p. serialize_one L st p (the (container s p))) order (serialize_one L st p n w))"
      "set order = ?D - insert p V" "distinct order"
      using less.hyps [OF card visiting_step [OF ok less.prems [unfolded Cons] bs]] by blast
    have "serializeNode L E st s todo w = Some (fold (\<lambda>p. serialize_one L st p (the (container s p))) (p # order) w)"
      using o(1) n Cons by (subst serializeNode.simps) simp
    moreover have "set (p # order) = ?D - V" "distinct (p # order)" using o(2,3) p by auto
    ultimately show ?thesis by blast
  qed
qed

lemma serializeNode_all:
  assumes tree: "tree_inv (container s)" and E: "enumerates (path_order E)"
  obtains order where "serializeNode L E st s [''/''] w = Some (fold (\<lambda>p. serialize_one L st p (the (container s p))) order w)"
    "set order = dom (container s)" "distinct order"
proof -
  have "visiting (dom (container s)) {} [''/'']"
    using paths_okD(2) [OF tree_invD(1) [OF tree]] by (auto simp: visiting_def)
  from serializeNode_visits [OF tree E this, of L st w] that show ?thesis by auto
qed

section \<open>The writer\<close>

text \<open>The directory with the objects from the fourth on.\<close>

definition obj_files :: "snapshot_store \<Rightarrow> snap_files \<Rightarrow> string list \<Rightarrow> snap_files" where
  "obj_files st files cs = foldl (\<lambda>f (i, c). f(getObjectPath st (of_nat i) \<mapsto> c)) files (enumerate 4 cs)"

lemma obj_files_snoc: "obj_files st files (cs @ [c]) = (obj_files st files cs)(getObjectPath st (of_nat (4 + length cs)) \<mapsto> c)"
  by (simp add: obj_files_def enumerate_append_eq)

lemma obj_files_update:
  "(obj_files st files (cs @ [c]))(getObjectPath st (of_nat (4 + length cs)) \<mapsto> d) = obj_files st files (cs @ [d])"
  by (simp add: obj_files_snoc)

text \<open>The closed objects, the batches in the open one and the batch that is being filled.\<close>

definition wr_at :: "snap_lib \<Rightarrow> snapshot_store \<Rightarrow> snap_files \<Rightarrow> snap_writer \<Rightarrow> SnapshotBatchPB list list \<Rightarrow> SnapshotBatchPB list \<Rightarrow> SnapshotBatchPB \<Rightarrow> bool" where
  "wr_at L st files w objs cur b \<longleftrightarrow>
     wr_out w = Some (getObjectPath st (of_nat (4 + length objs))) \<and> wr_batch w = Some b \<and> wr_checksum w = add_crcs L 0 cur
   \<and> wr_files w = obj_files st files (map (file_of L) objs @ [write_header V1 @ concat (map (batch_bytes L) cur)])"

lemma wr_append_files:
  assumes "wr_out w = Some (getObjectPath st (of_nat (4 + length objs)))" "wr_files w = obj_files st files (map (file_of L) objs @ [c])"
  shows "wr_append bytes w = w\<lparr>wr_files := obj_files st files (map (file_of L) objs @ [c @ bytes])\<rparr>"
  using assms obj_files_snoc [of st files "map (file_of L) objs" c] obj_files_update [of st files "map (file_of L) objs" c "c @ bytes"]
  by (simp add: wr_append_def)

lemma wr_flush_at:
  assumes "wr_at L st files w objs cur b"
  shows "wr_at L st files (wr_flush L w) objs (cur @ [b]) new_batch" "wr_processed (wr_flush L w) = wr_processed w"
  using assms wr_append_files [of w st objs files L] by (simp_all add: wr_at_def wr_flush_def saveBatchAndUpdateCheckSum_eq)

lemma wr_close_at:
  assumes "wr_at L st files w objs cur b"
  shows "wr_close w = w\<lparr>wr_files := obj_files st files (map (file_of L) (objs @ [cur]))\<rparr>"
  using assms wr_append_files [of w st objs files L] by (simp add: wr_at_def wr_close_def file_of_def)

lemma wr_open_at:
  assumes "wr_at L st files w objs cur b"
  shows "wr_at L st files (wr_open (getObjectPath st (of_nat (4 + length (objs @ [cur])))) ((wr_close w)\<lparr>wr_checksum := 0\<rparr>)) (objs @ [cur]) [] b"
    "wr_processed (wr_open name ((wr_close w)\<lparr>wr_checksum := 0\<rparr>)) = wr_processed w"
proof -
  let ?name = "getObjectPath st (of_nat (4 + length (objs @ [cur])))"
  let ?w = "(w\<lparr>wr_files := obj_files st files (map (file_of L) (objs @ [cur])), wr_checksum := 0\<rparr>)
    \<lparr>wr_files := (obj_files st files (map (file_of L) (objs @ [cur])))(?name \<mapsto> []), wr_out := Some ?name\<rparr>"
  have f: "wr_files ?w = obj_files st files (map (file_of L) (objs @ [cur]) @ [[]])"
    unfolding obj_files_snoc by simp
  show "wr_at L st files (wr_open ?name ((wr_close w)\<lparr>wr_checksum := 0\<rparr>)) (objs @ [cur]) [] b"
    using assms wr_append_files [of ?w st "objs @ [cur]" files L "[]"] f wr_close_at [OF assms]
    by (simp add: wr_at_def wr_open_def)
  show "wr_processed (wr_open name ((wr_close w)\<lparr>wr_checksum := 0\<rparr>)) = wr_processed w"
    by (simp add: wr_open_def wr_close_def wr_append_def split: option.splits)
qed

text \<open>The invariant of the traversal after the nodes \<open>vis\<close>.\<close>

definition wr_inv :: "snap_lib \<Rightarrow> snapshot_store \<Rightarrow> snap_files \<Rightarrow> snap_writer \<Rightarrow> string list \<Rightarrow> bool" where
  "wr_inv L st files w vis \<longleftrightarrow>
     wr_processed w = of_nat (length vis)
   \<and> (if vis = [] then wr_files w = files \<and> wr_batch w = None \<and> wr_out w = None \<and> wr_checksum w = 0
      else \<exists>objs cur b. wr_at L st files w objs cur b
        \<and> concat (map batch_data (concat objs @ cur @ [b])) = vis
        \<and> (\<forall>x \<in> set (concat objs @ cur @ [b]). batch_cut SNAPSHOT_TYPE_DATA (save_batch_size st) x)
        \<and> [] \<notin> set objs \<and> length objs = (length vis - 1) div unat (max_object_node_size st)
        \<and> length (batch_data b) \<le> (length vis - 1) mod unat (save_batch_size st) + 1)"

lemma new_batch_cut [simp]: "batch_cut SNAPSHOT_TYPE_DATA sz new_batch" "batch_data new_batch = []"
  by (simp_all add: batch_cut_def new_batch_def)

lemma begin_object_next:
  assumes w: "wr_at L st files w objs cur b" "wr_processed w = of_nat k" and k: "0 < k" "k < 2 ^ 64"
    and m: "k mod unat (max_object_node_size st) = 0" "max_object_node_size st \<noteq> 0" and len: "length objs = (k - 1) div unat (max_object_node_size st)"
  shows "wr_at L st files (begin_object L st w) (objs @ [cur @ [b]]) [] new_batch \<and> wr_processed (begin_object L st w) = of_nat k
    \<and> length (objs @ [cur @ [b]]) = k div unat (max_object_node_size st)"
proof -
  let ?M = "unat (max_object_node_size st)"
  have M: "0 < ?M" using m(2) by (simp add: unat_gt_0)
  obtain q where q: "k = q * ?M" using m(1) by (auto simp: mod_eq_0_iff_dvd dvd_def mult.commute)
  then obtain q' where q': "q = Suc q'" using k(1) by (cases q) auto
  have "(k - 1) div ?M = q'"
  proof (rule div_nat_eqI)
    show "?M * q' \<le> k - 1" "k - 1 < ?M * Suc q'" using M q q' by (simp_all add: mult.commute)
  qed
  then have lenq: "length (objs @ [cur @ [b]]) = k div ?M" using len q q' M by simp
  have "unat ((of_nat k :: uint64) div ucast (max_object_node_size st)) = k div ?M"
    using k(2) by (simp add: unat_div unat_of_nat)
  then have d: "(of_nat k :: uint64) div ucast (max_object_node_size st) = of_nat (k div ?M)" by (metis of_nat_unat ucast_id)
  have "k div ?M < 2 ^ 64" using k(2) by (meson div_le_dividend le_less_trans)
  moreover have "0 < k div ?M" using q q' M by simp
  ultimately have ne: "(of_nat (k div ?M) :: uint64) \<noteq> 0"
    by (simp add: word_of_nat_eq_0_iff mod_eq_0_iff_dvd nat_dvd_not_less del: div_mult_self1 div_mult_self2)
  have name: "(of_nat (k div ?M) :: uint64) + 4 = of_nat (4 + length (objs @ [cur @ [b]]))" using lenq by simp
  note fl = wr_flush_at [OF w(1)]
  have "begin_object L st w = wr_open (getObjectPath st (of_nat (4 + length (objs @ [cur @ [b]])))) ((wr_close (wr_flush L w))\<lparr>wr_checksum := 0\<rparr>)"
    using w(2) m(1) ne name by (simp add: begin_object_def index_mod [OF k(2)] d)
  then show ?thesis
    using wr_open_at(1) [OF fl(1)] wr_open_at(2) [OF fl(1)] fl(2) w(2) lenq by simp
qed

definition wr_holds :: "snap_lib \<Rightarrow> snapshot_store \<Rightarrow> snap_files \<Rightarrow> snap_writer \<Rightarrow> string list \<Rightarrow> nat \<Rightarrow> nat \<Rightarrow> bool" where
  "wr_holds L st files w vis n m \<longleftrightarrow> (\<exists>objs cur b. wr_at L st files w objs cur b
     \<and> concat (map batch_data (concat objs @ cur @ [b])) = vis
     \<and> (\<forall>x \<in> set (concat objs @ cur @ [b]). batch_cut SNAPSHOT_TYPE_DATA (save_batch_size st) x)
     \<and> [] \<notin> set objs \<and> length objs = n \<and> length (batch_data b) \<le> m)"

lemma wr_inv_eq:
  "wr_inv L st files w vis \<longleftrightarrow> wr_processed w = of_nat (length vis)
     \<and> (if vis = [] then wr_files w = files \<and> wr_batch w = None \<and> wr_out w = None \<and> wr_checksum w = 0
        else wr_holds L st files w vis ((length vis - 1) div unat (max_object_node_size st)) ((length vis - 1) mod unat (save_batch_size st) + 1))"
  by (simp add: wr_inv_def wr_holds_def)

lemma div_pred: "k mod M \<noteq> 0 \<Longrightarrow> (k - 1) div M = k div (M :: nat)"
  by (cases k) (auto simp: div_Suc)

lemma begin_object_holds:
  assumes h: "wr_holds L st files w vis ((k - 1) div unat (max_object_node_size st)) m" and p: "wr_processed w = of_nat k"
    and k: "0 < k" "k < 2 ^ 64" and M: "max_object_node_size st \<noteq> 0"
  shows "wr_holds L st files (begin_object L st w) vis (k div unat (max_object_node_size st)) m \<and> wr_processed (begin_object L st w) = of_nat k"
proof (cases "k mod unat (max_object_node_size st) = 0")
  case False
  then have "begin_object L st w = w" by (simp add: begin_object_def p index_mod [OF k(2)])
  then show ?thesis using h p div_pred [OF False] by simp
next
  case True
  obtain objs cur b where a: "wr_at L st files w objs cur b" "concat (map batch_data (concat objs @ cur @ [b])) = vis"
    "\<forall>x \<in> set (concat objs @ cur @ [b]). batch_cut SNAPSHOT_TYPE_DATA (save_batch_size st) x" "[] \<notin> set objs"
    "length objs = (k - 1) div unat (max_object_node_size st)"
    using h by (auto simp: wr_holds_def)
  from begin_object_next [OF a(1) p k True M a(5)] show ?thesis
    unfolding wr_holds_def using a(2-4)
    by (intro conjI exI [of _ "objs @ [cur @ [b]]"] exI [of _ "[]"] exI [of _ new_batch]) auto
qed

lemma begin_batch_holds:
  assumes h: "wr_holds L st files w vis n ((k - 1) mod unat (save_batch_size st) + 1)" and p: "wr_processed w = of_nat k"
    and k: "0 < k" "k < 2 ^ 64"
  shows "wr_holds L st files (begin_batch L st w) vis n (k mod unat (save_batch_size st)) \<and> wr_processed (begin_batch L st w) = of_nat k"
proof (cases "k mod unat (save_batch_size st) = 0")
  case False
  then have "begin_batch L st w = w" by (simp add: begin_batch_def p index_mod [OF k(2)])
  moreover have "(k - 1) mod unat (save_batch_size st) + 1 = k mod unat (save_batch_size st)"
    using batch_length_next [OF False] by simp
  ultimately show ?thesis using h p by simp
next
  case True
  have ne: "(of_nat k :: uint64) \<noteq> 0" using k by (simp add: word_of_nat_eq_0_iff mod_eq_0_iff_dvd nat_dvd_not_less)
  have eq: "begin_batch L st w = wr_flush L w" using True ne by (simp add: begin_batch_def p index_mod [OF k(2)])
  obtain objs cur b where a: "wr_at L st files w objs cur b" "concat (map batch_data (concat objs @ cur @ [b])) = vis"
    "\<forall>x \<in> set (concat objs @ cur @ [b]). batch_cut SNAPSHOT_TYPE_DATA (save_batch_size st) x" "[] \<notin> set objs" "length objs = n"
    using h by (auto simp: wr_holds_def)
  show ?thesis
    unfolding wr_holds_def eq using a(2-5) wr_flush_at [OF a(1)] p
    by (intro conjI exI [of _ objs] exI [of _ "cur @ [b]"] exI [of _ new_batch]) auto
qed

lemma append_node_holds:
  assumes h: "wr_holds L st files w vis n (k mod unat (save_batch_size st))" and p: "wr_processed w = of_nat k" and Z: "save_batch_size st \<noteq> 0"
  shows "wr_holds L st files (append_node q x w) (vis @ [node_item q x]) n (k mod unat (save_batch_size st) + 1)
    \<and> wr_processed (append_node q x w) = of_nat (Suc k)"
proof -
  obtain objs cur b where a: "wr_at L st files w objs cur b" "concat (map batch_data (concat objs @ cur @ [b])) = vis"
    "\<forall>x \<in> set (concat objs @ cur @ [b]). batch_cut SNAPSHOT_TYPE_DATA (save_batch_size st) x" "[] \<notin> set objs" "length objs = n"
    "length (batch_data b) \<le> k mod unat (save_batch_size st)"
    using h by (auto simp: wr_holds_def)
  let ?b = "appendNodeToBatch b q x"
  have "k mod unat (save_batch_size st) < unat (save_batch_size st)" using Z by (intro mod_less_divisor) (simp add: unat_gt_0)
  then have "batch_cut SNAPSHOT_TYPE_DATA (save_batch_size st) ?b"
    using a(3,6) by (simp add: batch_cut_def appendNodeToBatch_def add_data_def)
  moreover have "wr_at L st files (append_node q x w) objs cur ?b" using a(1) by (simp add: wr_at_def append_node_def)
  moreover have "concat (map batch_data (concat objs @ cur @ [?b])) = vis @ [node_item q x]" "length (batch_data ?b) \<le> k mod unat (save_batch_size st) + 1"
    using a(2,6) by (auto simp: appendNodeToBatch_def add_data_def)
  moreover have "wr_processed (append_node q x w) = of_nat (Suc k)" using p by (simp add: append_node_def)
  ultimately show ?thesis unfolding wr_holds_def using a(3-5) by (intro conjI exI [of _ objs] exI [of _ cur] exI [of _ ?b]) auto
qed

lemma first_object:
  assumes "wr_inv L st files w []" "max_object_node_size st \<noteq> 0" "save_batch_size st \<noteq> 0"
  shows "wr_holds L st files (begin_batch L st (begin_object L st w)) [] 0 0 \<and> wr_processed (begin_batch L st (begin_object L st w)) = of_nat 0"
proof -
  let ?w = "w\<lparr>wr_files := files(getObjectPath st 4 \<mapsto> []), wr_out := Some (getObjectPath st 4)\<rparr>"
  have i: "wr_processed w = 0" "wr_files w = files" "wr_batch w = None" "wr_checksum w = 0"
    using assms(1) by (simp_all add: wr_inv_def)
  have f: "wr_files ?w = obj_files st files (map (file_of L) [] @ [[]])" by (simp add: obj_files_def)
  have "begin_object L st w = wr_open (getObjectPath st 4) w" using i(1) by (simp add: begin_object_def)
  also have "\<dots> = ?w\<lparr>wr_files := obj_files st files [write_header V1]\<rparr>"
    using wr_append_files [OF _ f, of "write_header V1"] i(2) by (simp add: wr_open_def)
  finally have o: "begin_object L st w = ?w\<lparr>wr_files := obj_files st files [write_header V1]\<rparr>" .
  then have "wr_at L st files (begin_batch L st (begin_object L st w)) [] [] new_batch"
    "wr_processed (begin_batch L st (begin_object L st w)) = of_nat 0"
    using i by (simp_all add: wr_at_def begin_batch_def)
  then show ?thesis unfolding wr_holds_def by (intro conjI exI [of _ "[]"] exI [of _ new_batch]) auto
qed

lemma wr_inv_step:
  assumes inv: "wr_inv L st files w vis" and n: "Suc (length vis) < 2 ^ 64" and st: "max_object_node_size st \<noteq> 0" "save_batch_size st \<noteq> 0"
  shows "wr_inv L st files (serialize_one L st p x w) (vis @ [node_item p x])"
proof (cases "vis = []")
  case True
  note f = first_object [OF inv [unfolded True] st]
  have "wr_holds L st files (begin_batch L st (begin_object L st w)) [] 0 (0 mod unat (save_batch_size st))" using f by simp
  from append_node_holds [OF this conjunct2 [OF f] st(2), of p x] show ?thesis
    using True by (simp add: wr_inv_eq serialize_one_def)
next
  case False
  let ?k = "length vis"
  have k: "0 < ?k" "?k < 2 ^ 64" using False n by auto
  have w: "wr_processed w = of_nat ?k" "wr_holds L st files w vis ((?k - 1) div unat (max_object_node_size st)) ((?k - 1) mod unat (save_batch_size st) + 1)"
    using inv False by (simp_all add: wr_inv_eq)
  note o = begin_object_holds [OF w(2,1) k st(1)]
  note b = begin_batch_holds [OF conjunct1 [OF o] conjunct2 [OF o] k]
  from append_node_holds [OF conjunct1 [OF b] conjunct2 [OF b] st(2), of p x] show ?thesis
    by (simp add: wr_inv_eq serialize_one_def)
qed

lemma wr_inv_fold:
  assumes "wr_inv L st files w vis" "length vis + length order < 2 ^ 64" "max_object_node_size st \<noteq> 0" "save_batch_size st \<noteq> 0"
  shows "wr_inv L st files (fold (\<lambda>p. serialize_one L st p (f p)) order w) (vis @ map (\<lambda>p. node_item p (f p)) order)"
  using assms
proof (induction order arbitrary: w vis)
  case (Cons p order)
  have "wr_inv L st files (serialize_one L st p (f p) w) (vis @ [node_item p (f p)])"
    by (rule wr_inv_step) (use Cons.prems in auto)
  from Cons.IH [OF this] Cons.prems show ?case by simp
qed simp

section \<open>Names of objects\<close>

definition snap_time_ok :: "string \<Rightarrow> bool" where
  "snap_time_ok t \<longleftrightarrow> t \<noteq> [] \<and> CHR ''_'' \<notin> set t \<and> length t < 128"

lemma getObjectPath_eq:
  assumes "snap_time_ok (curr_time st)"
  shows "getObjectPath st i = ''snapshot_'' @ curr_time st @ ''_'' @ nat_to_string (unat (sn_last_log_index st)) @ ''_'' @ nat_to_string (unat i)"
  unfolding getObjectPath_def using assms index_digits [of i] index_digits [of "sn_last_log_index st"]
  by (intro take_all) (simp add: snap_time_ok_def)

lemma underscore_not_digits: "CHR ''_'' \<notin> set (nat_to_string n)"
  using nat_to_string_digits [of "CHR ''_''" n] by (auto simp: is_digit_def)

lemma getObjectIdx_path:
  assumes t: "snap_time_ok (curr_time st)" and i: "i < 2 ^ 31"
  shows "getObjectIdx (getObjectPath st i) = Inr i"
proof -
  let ?d = "nat_to_string (unat i)"
  have "takeWhile (\<lambda>c. c \<noteq> CHR ''_'') (rev ?d @ CHR ''_'' # r) = rev ?d" for r
    using underscore_not_digits [of "unat i"] by (subst takeWhile_append2) auto
  then have "rev (takeWhile (\<lambda>c. c \<noteq> CHR ''_'') (rev (getObjectPath st i))) = ?d"
    by (simp add: getObjectPath_eq [OF t])
  then show ?thesis using i scan_ulong_print [of "[]" i] by (simp add: getObjectIdx_def)
qed

lemma getObjectPath_inj:
  assumes t: "snap_time_ok (curr_time st)" and eq: "getObjectPath st i = getObjectPath st j"
  shows "i = j"
proof -
  have "nat_to_string (unat i) = nat_to_string (unat j)" using eq by (simp add: getObjectPath_eq [OF t])
  then have "digits_val (nat_to_string (unat i)) = digits_val (nat_to_string (unat j))" by simp
  then show ?thesis by (simp add: digits_val_nat_to_string word_unat_eq_iff)
qed

lemma obj_files_lookup:
  assumes t: "snap_time_ok (curr_time st)" and n: "4 + length cs < 2 ^ 64"
  shows "j < length cs \<Longrightarrow> obj_files st files cs (getObjectPath st (of_nat (4 + j))) = Some (cs ! j)"
    and "i < 4 \<Longrightarrow> obj_files st files cs (getObjectPath st (of_nat i)) = files (getObjectPath st (of_nat i))"
proof -
  have inj: "getObjectPath st (of_nat a) = getObjectPath st (of_nat b) \<longleftrightarrow> a = b" if "a < 2 ^ 64" "b < 2 ^ 64" for a b
  proof
    assume "getObjectPath st (of_nat a) = getObjectPath st (of_nat b)"
    then have "unat (of_nat a :: uint64) = unat (of_nat b :: uint64)" using getObjectPath_inj [OF t] by metis
    then show "a = b" using that by (simp add: unat_of_nat)
  qed simp
  show "j < length cs \<Longrightarrow> obj_files st files cs (getObjectPath st (of_nat (4 + j))) = Some (cs ! j)"
    using n
  proof (induction cs rule: rev_induct)
    case (snoc c cs)
    then show ?case using inj [of "4 + j" "4 + length cs"]
      by (cases "j = length cs") (simp_all add: obj_files_snoc nth_append del: of_nat_add)
  qed simp
  show "i < 4 \<Longrightarrow> obj_files st files cs (getObjectPath st (of_nat i)) = files (getObjectPath st (of_nat i))"
    using n
  proof (induction cs rule: rev_induct)
    case (snoc c cs)
    then show ?case using inj [of i "4 + length cs"] by (simp add: obj_files_snoc del: of_nat_add)
  qed (simp add: obj_files_def)
qed

lemma serializeDataTree_files:
  assumes tree: "tree_inv (container s)" and E: "enumerates (path_order E)" and t: "snap_time_ok (curr_time st)"
    and st: "max_object_node_size st \<noteq> 0" "save_batch_size st \<noteq> 0" and n: "card (dom (container s)) + 4 < 2 ^ 31"
  obtains order objs where "serializeDataTree L E st s files = Some (obj_files st files (map (file_of L) objs), Inr (of_nat (3 + length objs)))"
    "set order = dom (container s)" "distinct order"
    "concat (map batch_data (concat objs)) = map (\<lambda>p. node_item p (the (container s p))) order"
    "\<forall>x \<in> set (concat objs). batch_cut SNAPSHOT_TYPE_DATA (save_batch_size st) x" "[] \<notin> set objs" "length objs < 2 ^ 31 - 4" "objs \<noteq> []"
proof -
  let ?w = "\<lparr>wr_files = files, wr_out = None, wr_batch = None, wr_processed = 0, wr_checksum = 0\<rparr>"
  obtain order where o: "serializeNode L E st s [''/''] ?w = Some (fold (\<lambda>p. serialize_one L st p (the (container s p))) order ?w)"
    "set order = dom (container s)" "distinct order"
    using serializeNode_all [OF tree E] by blast
  have len: "length order = card (dom (container s))" using distinct_card [OF o(3)] o(2) by simp
  have ne: "order \<noteq> []" using paths_okD(2) [OF tree_invD(1) [OF tree]] o(2) by auto
  define w where "w = fold (\<lambda>p. serialize_one L st p (the (container s p))) order ?w"
  have "wr_inv L st files ?w []" by (simp add: wr_inv_def)
  moreover have "length [] + length order < 2 ^ 64" using n len by simp
  ultimately have "wr_inv L st files w ([] @ map (\<lambda>p. node_item p (the (container s p))) order)"
    unfolding w_def using st by (rule wr_inv_fold)
  then obtain objs cur b where a: "wr_at L st files w objs cur b"
    "concat (map batch_data (concat objs @ cur @ [b])) = map (\<lambda>p. node_item p (the (container s p))) order"
    "\<forall>x \<in> set (concat objs @ cur @ [b]). batch_cut SNAPSHOT_TYPE_DATA (save_batch_size st) x" "[] \<notin> set objs"
    "length objs = (length order - 1) div unat (max_object_node_size st)"
    using ne by (auto simp: wr_inv_def)
  let ?objs = "objs @ [cur @ [b]]"
  have "length objs \<le> length order - 1" unfolding a(5) by (rule div_le_dividend)
  then have small: "length ?objs < 2 ^ 31 - 4" using n len ne by (cases order) auto
  have name: "wr_out w = Some (getObjectPath st (of_nat (3 + length ?objs)))" using a(1) by (simp add: wr_at_def)
  have "3 + length ?objs < 2 ^ 31" using small by simp
  then have "(of_nat (3 + length ?objs) :: uint64) < 2 ^ 31"
    by (simp add: word_less_nat_alt unat_of_nat del: length_append of_nat_add)
  then have idx: "getObjectIdx (getObjectPath st (of_nat (3 + length ?objs))) = Inr (of_nat (3 + length ?objs))"
    by (rule getObjectIdx_path [OF t])
  have "serializeDataTree L E st s files = Some (obj_files st files (map (file_of L) ?objs), Inr (of_nat (3 + length ?objs)))"
    using o(1) name idx wr_close_at [OF wr_flush_at(1) [OF a(1)]] by (simp add: serializeDataTree_def w_def)
  moreover have "concat (map batch_data (concat ?objs)) = map (\<lambda>p. node_item p (the (container s p))) order" using a(2) by simp
  moreover have "\<forall>x \<in> set (concat ?objs). batch_cut SNAPSHOT_TYPE_DATA (save_batch_size st) x" using a(3) by auto
  moreover have "[] \<notin> set ?objs" "?objs \<noteq> []" using a(4) by auto
  ultimately show ?thesis using that [of ?objs order] o(2,3) small by blast
qed

end
