(* ===== verification/Snapshot_Load_Facts.thy ===== *)
theory Snapshot_Load_Facts
  imports Snapshot_Tree_Facts Store_Properties "HOL-Library.Multiset"
begin

text \<open>
  What loading a snapshot does to the store, whatever the order in which the eight threads enter
  their critical sections: the final store is that of a sequence of all sections, and each of its
  fields depends only on which sections there are.
\<close>

section \<open>Every run is a sequence of all sections\<close>

inductive acts_run :: "env \<Rightarrow> snap_action list \<Rightarrow> KeeperStore \<Rightarrow> KeeperStore \<Rightarrow> bool" for E where
  no_act: "acts_run E [] s s"
| next_act: "apply_action (E\<lparr>now_ms := now\<rparr>) a s = Inr s1 \<Longrightarrow> acts_run E acts s1 s2 \<Longrightarrow> acts_run E (a # acts) s s2"

lemma apply_action_ok:
  assumes "expiry_inv (session_expiry_queue s)"
  obtains s' where "apply_action E a s = Inr s'" "expiry_inv (session_expiry_queue s')"
proof (cases a)
  case (AddSession sid t)
  from addNewSessionOrUpdate_ok [OF assms, of "now_ms E" sid t] obtain q where
    "addNewSessionOrUpdate (now_ms E) (session_expiry_queue s) sid t = Inr q" "expiry_inv q" by blast
  then show ?thesis using that AddSession by (simp add: apply_action_def addSessionID_def Let_def)
next
  case (ConvertAcls acls)
  then show ?thesis using assms that by (cases "convertACLs (store_acl_map s) acls") (simp add: apply_action_def)
qed (use assms that in \<open>simp_all add: apply_action_def\<close>)

lemma mset_update:
  assumes "t < length ths"
  shows "mset (concat (concat (ths[t := x]))) + mset (concat (ths ! t)) = mset (concat (concat ths)) + mset (concat x)"
proof -
  have split: "ths = take t ths @ ths ! t # drop (Suc t) ths" using id_take_nth_drop [OF assms] .
  have "mset (concat (concat ths)) = mset (concat (concat (take t ths))) + mset (concat (ths ! t)) + mset (concat (concat (drop (Suc t) ths)))"
    by (subst split) simp
  moreover have "mset (concat (concat (ths[t := x]))) = mset (concat (concat (take t ths))) + mset (concat x) + mset (concat (concat (drop (Suc t) ths)))"
    using assms by (simp add: upd_conv_take_nth_drop)
  ultimately show ?thesis by simp
qed

lemma load_step_trace:
  assumes "load_step E (ths, s) (ths1, s1)" "expiry_inv (session_expiry_queue s)"
  shows "(ths1, s1) = (ths1, s) \<and> mset (concat (concat ths1)) = mset (concat (concat ths))
    \<or> (\<exists>a now. apply_action (E\<lparr>now_ms := now\<rparr>) a s = Inr s1 \<and> mset (concat (concat ths)) = add_mset a (mset (concat (concat ths1))))"
  using assms(1)
proof cases
  case (act t a acts objs now)
  then show ?thesis using mset_update [of t ths "acts # objs"] by auto
next
  case (raise t a acts objs now e)
  then show ?thesis using apply_action_ok [OF assms(2), of "E\<lparr>now_ms := now\<rparr>" a] by auto
next
  case (object_done t objs)
  then show ?thesis using mset_update [of t ths objs] by auto
qed

lemma load_trace:
  assumes "(load_step E)\<^sup>*\<^sup>* (ths, s) (ths', s')" "threads_done ths'" "expiry_inv (session_expiry_queue s)"
  shows "\<exists>trace. acts_run E trace s s' \<and> mset trace = mset (concat (concat ths))"
  using assms
proof (induction "(ths, s)" arbitrary: ths s rule: converse_rtranclp_induct)
  case base
  then have "concat ths' = []" by (auto simp: threads_done_def list_all_iff concat_eq_Nil_conv)
  then have "concat (concat ths') = []" by (simp only: concat.simps)
  then show ?case by (intro exI [of _ "[]"]) (simp only: acts_run.no_act mset.simps simp_thms)
next
  case (step z)
  obtain ths1 s1 where z: "z = (ths1, s1)" by (cases z)
  from load_step_trace [OF step.hyps(1) [unfolded z] step.prems(2)] show ?case
  proof
    assume idle: "(ths1, s1) = (ths1, s) \<and> mset (concat (concat ths1)) = mset (concat (concat ths))"
    then show ?thesis using step.hyps(3) [OF z] step.prems by auto
  next
    assume "\<exists>a now. apply_action (E\<lparr>now_ms := now\<rparr>) a s = Inr s1 \<and> mset (concat (concat ths)) = add_mset a (mset (concat (concat ths1)))"
    then obtain a now where a: "apply_action (E\<lparr>now_ms := now\<rparr>) a s = Inr s1" "mset (concat (concat ths)) = add_mset a (mset (concat (concat ths1)))"
      by blast
    have "expiry_inv (session_expiry_queue s1)" using apply_action_ok [OF step.prems(2), of "E\<lparr>now_ms := now\<rparr>" a] a(1) by auto
    then obtain trace where "acts_run E trace s1 s'" "mset trace = mset (concat (concat ths1))"
      using step.hyps(3) [OF z step.prems(1)] by blast
    then show ?thesis using acts_run.next_act [OF a(1)] a(2) by (intro exI [of _ "a # trace"]) simp
  qed
qed

text \<open>Every run ends: each step enters a section or leaves an object.\<close>

definition load_work :: "snap_action list list list \<Rightarrow> nat" where
  "load_work ths = (\<Sum>objs \<leftarrow> ths. \<Sum>acts \<leftarrow> objs. Suc (length acts))"

lemma load_work_update:
  assumes "t < length ths"
  shows "load_work (ths[t := x]) + (\<Sum>acts \<leftarrow> ths ! t. Suc (length acts)) = load_work ths + (\<Sum>acts \<leftarrow> x. Suc (length acts))"
proof -
  have split: "ths = take t ths @ ths ! t # drop (Suc t) ths" using id_take_nth_drop [OF assms] .
  have "load_work ths = load_work (take t ths) + (\<Sum>acts \<leftarrow> ths ! t. Suc (length acts)) + load_work (drop (Suc t) ths)"
    unfolding load_work_def by (subst split) simp
  moreover have "load_work (ths[t := x]) = load_work (take t ths) + (\<Sum>acts \<leftarrow> x. Suc (length acts)) + load_work (drop (Suc t) ths)"
    unfolding load_work_def using assms by (simp add: upd_conv_take_nth_drop)
  ultimately show ?thesis by simp
qed

lemma load_step_work:
  assumes "load_step E (ths, s) (ths1, s1)"
  shows "load_work ths1 < load_work ths"
  using assms
proof cases
  case (act t a acts objs now)
  then show ?thesis using load_work_update [of t ths "acts # objs"] by simp
next
  case (raise t a acts objs now e)
  then show ?thesis using load_work_update [of t ths objs] by simp
next
  case (object_done t objs)
  then show ?thesis using load_work_update [of t ths objs] by simp
qed

lemma load_step_exists:
  assumes "\<not> threads_done ths"
  shows "\<exists>ths1 s1. load_step E (ths, s) (ths1, s1)"
proof -
  obtain t where t: "t < length ths" "ths ! t \<noteq> []" using assms by (auto simp: threads_done_def list_all_length)
  then obtain acts objs where o: "ths ! t = acts # objs" by (cases "ths ! t") auto
  show ?thesis
  proof (cases acts)
    case Nil
    then show ?thesis using load_step.object_done [OF t(1)] o by blast
  next
    case (Cons a as)
    then show ?thesis
      using load_step.act [OF t(1), where a = a and now = 0] load_step.raise [OF t(1), where a = a and now = 0] o
      by (cases "apply_action (E\<lparr>now_ms := 0\<rparr>) a s") blast+
  qed
qed

lemma load_ends: "\<exists>ths' s'. (load_step E)\<^sup>*\<^sup>* (ths, s) (ths', s') \<and> threads_done ths'"
proof (induction "load_work ths" arbitrary: ths s rule: less_induct)
  case less
  show ?case
  proof (cases "threads_done ths")
    case False
    then obtain ths1 s1 where st: "load_step E (ths, s) (ths1, s1)" using load_step_exists by blast
    from less.hyps [OF load_step_work [OF st], of s1] show ?thesis
      using converse_rtranclp_into_rtranclp [of "load_step E", OF st] by blast
  qed blast
qed

section \<open>What the sections leave in the store\<close>

text \<open>The sections of the current version; those of the first version number access lists as they come.\<close>

fun v1_act :: "snap_action \<Rightarrow> bool" where
  "v1_act (ConvertAcls acls) = False"
| "v1_act (PutNodeV0 path acls n) = False"
| "v1_act a = True"

text \<open>A table that one kind of section fills: what is put once is there at the end, whatever the order.\<close>

locale loaded_table =
  fixes field :: "KeeperStore \<Rightarrow> 'k \<rightharpoonup> 'v" and put :: "snap_action \<Rightarrow> ('k \<times> 'v) option"
  assumes put: "apply_action E a s = Inr s' \<Longrightarrow> v1_act a \<Longrightarrow>
      field s' = (case put a of None \<Rightarrow> field s | Some (k, v) \<Rightarrow> (field s)(k \<mapsto> v))"
begin

lemma kept:
  assumes "acts_run E trace s s'" "\<And>a. a \<in> set trace \<Longrightarrow> v1_act a" "\<And>a v. a \<in> set trace \<Longrightarrow> put a \<noteq> Some (k, v)"
  shows "field s' k = field s k"
  using assms
proof induction
  case (next_act now a s s1 acts s2)
  have "field s1 k = field s k"
    using put [OF next_act.hyps(1)] next_act.prems by (auto split: option.splits)
  then show ?case using next_act.IH next_act.prems by simp
qed simp

lemma loaded:
  assumes "acts_run E trace s s'" "\<And>a. a \<in> set trace \<Longrightarrow> v1_act a"
    and "\<And>a b v w. a \<in> set trace \<Longrightarrow> b \<in> set trace \<Longrightarrow> put a = Some (k, v) \<Longrightarrow> put b = Some (k, w) \<Longrightarrow> v = w"
    and "x \<in> set trace" "put x = Some (k, v)"
  shows "field s' k = Some v"
  using assms
proof (induction arbitrary: x v)
  case (next_act now a s s1 acts s2)
  show ?case
  proof (cases "\<exists>b \<in> set acts. \<exists>w. put b = Some (k, w)")
    case True
    then obtain b w where b: "b \<in> set acts" "put b = Some (k, w)" by blast
    then have "w = v" using next_act.prems(2) [of b x w v] next_act.prems(3,4) by simp
    moreover have "field s2 k = Some w"
    proof (rule next_act.IH)
      fix a b v w
      assume "a \<in> set acts" "b \<in> set acts" "put a = Some (k, v)" "put b = Some (k, w)"
      then show "v = w" using next_act.prems(2) by (metis list.set_intros(2))
    qed (use next_act.prems(1) b in auto)
    ultimately show ?thesis by simp
  next
    case False
    then have "x = a" using next_act.prems(3,4) by auto
    then have "field s1 k = Some v" using put [OF next_act.hyps(1)] next_act.prems by auto
    moreover have "field s2 k = field s1 k"
      using kept [OF next_act.hyps(2)] next_act.prems(1) False by auto
    ultimately show ?thesis by simp
  qed
qed simp

end

lemmas apply_defs = apply_action_def addSessionID_def addUsage_def addMapping_def Let_def

fun put_node :: "snap_action \<Rightarrow> (string \<times> KeeperNode) option" where
  "put_node (PutNode p n) = Some (p, n)"
| "put_node a = None"

fun put_auth :: "snap_action \<Rightarrow> (int64 \<times> AuthIDs) option" where
  "put_auth (SetAuth sid ids) = Some (sid, ids)"
| "put_auth a = None"

fun put_acls :: "snap_action \<Rightarrow> (uint64 \<times> ACLs) option" where
  "put_acls (MapAcls acl_id acls) = Some (acl_id, acls)"
| "put_acls a = None"

fun put_num :: "snap_action \<Rightarrow> (ACLs \<times> uint64) option" where
  "put_num (MapAcls acl_id acls) = Some (acls, acl_id)"
| "put_num a = None"

fun put_zxid :: "snap_action \<Rightarrow> (unit \<times> int64) option" where
  "put_zxid (SetZxid v) = Some ((), v)"
| "put_zxid a = None"

fun put_counter :: "snap_action \<Rightarrow> (unit \<times> int64) option" where
  "put_counter (SetCounter v) = Some ((), v)"
| "put_counter a = None"

interpretation nodes: loaded_table container put_node
  by unfold_locales (auto simp: apply_defs elim!: put_node.elims split: snap_action.splits sum.splits if_splits)

interpretation auths: loaded_table session_and_auth put_auth
  by unfold_locales (auto simp: apply_defs elim!: put_auth.elims split: snap_action.splits sum.splits if_splits)

interpretation acls: loaded_table "\<lambda>s. num_to_acl (store_acl_map s)" put_acls
  by unfold_locales (auto simp: apply_defs elim!: put_acls.elims split: snap_action.splits sum.splits if_splits)

interpretation nums: loaded_table "\<lambda>s. acl_to_num (store_acl_map s)" put_num
  by unfold_locales (auto simp: apply_defs elim!: put_num.elims split: snap_action.splits sum.splits if_splits)

interpretation zxids: loaded_table "\<lambda>s. [() \<mapsto> zxid s]" put_zxid
  by unfold_locales (auto simp: apply_defs elim!: put_zxid.elims split: snap_action.splits sum.splits if_splits)

interpretation counters: loaded_table "\<lambda>s. [() \<mapsto> session_id_counter s]" put_counter
  by unfold_locales (auto simp: apply_defs elim!: put_counter.elims split: snap_action.splits sum.splits if_splits)

text \<open>Timeouts are inserted without replacing, ephemeral paths and usages accumulate.\<close>

lemma timeout_step:
  assumes "apply_action E a s = Inr s1"
  shows "session_and_timeout s sid = Some t \<Longrightarrow> session_and_timeout s1 sid = Some t"
    and "session_and_timeout s sid = None \<Longrightarrow> a = AddSession sid t \<Longrightarrow> session_and_timeout s1 sid = Some t"
    and "session_and_timeout s sid = None \<Longrightarrow> \<nexists>t. a = AddSession sid t \<Longrightarrow> session_and_timeout s1 sid = None"
  using assms
  by (auto simp: apply_defs timeout_emplace_def split: snap_action.splits sum.splits if_splits prod.splits option.splits)

lemma timeout_kept: "acts_run E trace s s' \<Longrightarrow> session_and_timeout s sid = Some t \<Longrightarrow> session_and_timeout s' sid = Some t"
  by (induction rule: acts_run.induct) (auto dest: timeout_step(1))

lemma timeout_absent:
  "acts_run E trace s s' \<Longrightarrow> session_and_timeout s sid = None \<Longrightarrow> (\<And>t. AddSession sid t \<notin> set trace) \<Longrightarrow> session_and_timeout s' sid = None"
proof (induction rule: acts_run.induct)
  case (next_act now a s s1 acts s2)
  then have "session_and_timeout s1 sid = None" using timeout_step(3) [OF next_act.hyps(1)] by auto
  then show ?case using next_act.IH next_act.prems(2) by simp
qed simp

lemma timeout_loaded:
  "acts_run E trace s s' \<Longrightarrow> session_and_timeout s sid = None \<Longrightarrow> AddSession sid t \<in> set trace \<Longrightarrow>
   (\<And>u. AddSession sid u \<in> set trace \<Longrightarrow> u = t) \<Longrightarrow> session_and_timeout s' sid = Some t"
proof (induction rule: acts_run.induct)
  case (next_act now a s s1 acts s2)
  show ?case
  proof (cases "a = AddSession sid t")
    case True
    then show ?thesis using timeout_kept [OF next_act.hyps(2) timeout_step(2) [OF next_act.hyps(1) next_act.prems(1)]] by simp
  next
    case False
    then have t: "AddSession sid t \<in> set acts" using next_act.prems(2) by auto
    have "\<nexists>u. a = AddSession sid u" using next_act.prems(3) False by auto
    then show ?thesis using next_act.IH [OF timeout_step(3) [OF next_act.hyps(1) next_act.prems(1)] t] next_act.prems(3) by simp
  qed
qed simp

lemma loaded_ephemerals:
  assumes "acts_run E trace s s'"
  shows "set_entry (ephemerals s') sid = set_entry (ephemerals s) sid \<union> {p. PutEphemeral sid p \<in> set trace}"
    "finite (dom (ephemerals s)) \<Longrightarrow> finite (dom (ephemerals s'))"
  using assms
proof induction
  case (next_act now a s s1 acts s2)
  have e: "ephemerals s1 = (case a of PutEphemeral sid p \<Rightarrow> entry_insert (ephemerals s) sid p | _ \<Rightarrow> ephemerals s)"
    using next_act.hyps(1) by (auto simp: apply_defs split: snap_action.splits sum.splits if_splits prod.splits)
  { case 1
    have "set_entry (ephemerals s1) sid = set_entry (ephemerals s) sid \<union> {p. PutEphemeral sid p = a}"
      by (cases a) (auto simp: e entry_insert_def set_entry_def)
    then show ?case using next_act.IH(1) by auto
  next
    case 2
    have "finite (dom (ephemerals s1))" using 2 by (cases a) (simp_all add: e entry_insert_def)
    then show ?case by (rule next_act.IH(2)) }
qed auto

definition usage :: "acl_map \<Rightarrow> uint64 \<Rightarrow> uint64" where
  "usage m acl_id = (case usage_counter m acl_id of None \<Rightarrow> 0 | Some c \<Rightarrow> c)"

lemma loaded_usage:
  assumes "acts_run E trace s s'" "\<And>a. a \<in> set trace \<Longrightarrow> v1_act a" "acl_id \<noteq> 0"
  shows "usage (store_acl_map s') acl_id = usage (store_acl_map s) acl_id + of_nat (count_list trace (UseAcl acl_id))"
  using assms
proof induction
  case (next_act now a s s1 acts s2)
  have "usage (store_acl_map s1) acl_id = usage (store_acl_map s) acl_id + (if a = UseAcl acl_id then 1 else 0)"
    using next_act.hyps(1) next_act.prems(1) [of a] next_act.prems(2)
    by (cases a) (auto simp: apply_defs usage_def split: sum.splits if_splits prod.splits option.splits)
  then show ?case using next_act.IH next_act.prems by auto
qed simp

lemma loaded_sessions:
  assumes "acts_run E trace s s'" "session_inv s"
  shows "session_inv s'"
  using assms
proof induction
  case (next_act now a s s1 acts s2)
  have "session_inv s1"
  proof (cases "\<exists>sid t. a = AddSession sid t")
    case True
    then obtain sid t where a: "a = AddSession sid t" by blast
    then show ?thesis using addSessionID_ok(1) [OF next_act.prems] next_act.hyps(1) by (simp add: apply_action_def)
  next
    case False
    then have "session_expiry_queue s1 = session_expiry_queue s" "session_and_timeout s1 = session_and_timeout s"
      using next_act.hyps(1) by (auto simp: apply_defs split: snap_action.splits if_splits prod.splits)
    then show ?thesis using next_act.prems session_inv_cong by blast
  qed
  then show ?case by (rule next_act.IH)
qed simp

lemma loaded_frame:
  assumes "acts_run E trace s s'"
  shows "watches s' = watches s" "list_watches s' = list_watches s" "sessions_and_watchers s' = sessions_and_watchers s"
    "super_digest s' = super_digest s" "finalized s' = finalized s"
  using assms
  by (induction; auto simp: apply_defs split: snap_action.splits sum.splits if_splits prod.splits)+

section \<open>Children\<close>

lemma build_children_ok:
  assumes "\<And>p. p \<in> set ps \<Longrightarrow> p \<noteq> ''/'' \<Longrightarrow> parentPath p \<in> dom c"
  shows "\<exists>c'. build_children False c ps = (c', None) \<and> dom c' = dom c
    \<and> (\<forall>q n. c q = Some n \<longrightarrow> c' q = Some (n\<lparr>children := children n \<union> getBaseName ` {p \<in> set ps. p \<noteq> ''/'' \<and> parentPath p = q}\<rparr>))"
  using assms
proof (induction ps arbitrary: c)
  case (Cons p ps)
  show ?case
  proof (cases "p = ''/''")
    case True
    have eq: "{x \<in> set (p # ps). x \<noteq> ''/'' \<and> parentPath x = q} = {x \<in> set ps. x \<noteq> ''/'' \<and> parentPath x = q}" for q using True by auto
    show ?thesis unfolding eq using True Cons.IH [of c] Cons.prems by simp
  next
    case False
    then obtain n where n: "c (parentPath p) = Some n" using Cons.prems [of p] by auto
    define c1 where "c1 = c(parentPath p \<mapsto> link_child False (getBaseName p) n)"
    have d: "dom c1 = dom c" using n by (auto simp: c1_def)
    have "parentPath q \<in> dom c1" if "q \<in> set ps" "q \<noteq> ''/''" for q using Cons.prems [of q] that d by simp
    from Cons.IH [OF this] obtain c' where c': "build_children False c1 ps = (c', None)" "dom c' = dom c1"
      "\<forall>q n. c1 q = Some n \<longrightarrow> c' q = Some (n\<lparr>children := children n \<union> getBaseName ` {p \<in> set ps. p \<noteq> ''/'' \<and> parentPath p = q}\<rparr>)"
      by blast
    have "c' q = Some (m\<lparr>children := children m \<union> getBaseName ` {x \<in> set (p # ps). x \<noteq> ''/'' \<and> parentPath x = q}\<rparr>)" if "c q = Some m" for q m
    proof (cases "q = parentPath p")
      case True
      then have "c' q = Some ((link_child False (getBaseName p) m)\<lparr>children := insert (getBaseName p) (children m) \<union> getBaseName ` {x \<in> set ps. x \<noteq> ''/'' \<and> parentPath x = q}\<rparr>)"
        using c'(3) [rule_format, of q "link_child False (getBaseName p) m"] n that by (simp add: link_child_def c1_def)
      moreover have "{x \<in> set (p # ps). x \<noteq> ''/'' \<and> parentPath x = q} = insert p {x \<in> set ps. x \<noteq> ''/'' \<and> parentPath x = q}" using True False by auto
      ultimately show ?thesis by (simp add: link_child_def)
    next
      case False
      then have "{x \<in> set (p # ps). x \<noteq> ''/'' \<and> parentPath x = q} = {x \<in> set ps. x \<noteq> ''/'' \<and> parentPath x = q}" by auto
      then show ?thesis using c'(3) [rule_format, of q m] that False by (simp add: c1_def)
    qed
    then show ?thesis using c'(1,2) d n False by (simp add: c1_def)
  qed
qed auto

lemma base_names_kids:
  assumes "paths_ok D" "p \<in> D"
  shows "getBaseName ` {q \<in> D. q \<noteq> ''/'' \<and> parentPath q = p} = kids D p"
proof -
  have ne: "p \<noteq> []" by (rule paths_okD(5) [OF assms])
  have "getBaseName ` kid_paths D p = getBaseName ` child_path p ` kids D p" using kid_paths_kids [OF assms(1) ne] by simp
  also have "\<dots> = kids D p" using ne by (force simp: kids_def image_iff)
  finally show ?thesis by (simp add: kid_paths_def)
qed

end
