(* ===== verification/Snapshot_Roundtrip.thy ===== *)
theory Snapshot_Roundtrip
  imports Snapshot_Load_Facts
begin

text \<open>
  From a store through the files of a snapshot to a store: which critical sections the objects of a
  snapshot hold, and what a server that starts from them has.
\<close>

section \<open>Items\<close>

interpretation auths_io: codec "write_vector write_AuthID" "read_vector read_AuthID"
    "\<lambda>xs. size_ok (length xs) \<and> (\<forall>a \<in> set xs. size_ok (length (auth_scheme a)) \<and> size_ok (length (auth_ident a)))"
  by (rule vector_codec) (rule auth_io.codec_axioms)

definition auths_fit :: "AuthIDs \<Rightarrow> bool" where
  "auths_fit ids \<longleftrightarrow> size_ok (length ids) \<and> (\<forall>a \<in> set ids. size_ok (length (auth_scheme a)) \<and> size_ok (length (auth_ident a)))"

definition acls_fit :: "ACLs \<Rightarrow> bool" where
  "acls_fit as \<longleftrightarrow> size_ok (length as) \<and> (\<forall>a \<in> set as. size_ok (length (scheme a)) \<and> size_ok (length (ident a)))"

definition node_acts :: "string \<Rightarrow> KeeperNode \<Rightarrow> snap_action list" where
  "node_acts p n = [UseAcl (node_acl_id n), PutNode p (n\<lparr>children := {}\<rparr>)] @ put_ephemeral p n"

definition session_acts :: "int64 \<Rightarrow> int64 \<Rightarrow> AuthIDs \<Rightarrow> snap_action list" where
  "session_acts sid t ids = (if ids \<noteq> [] then [SetAuth sid ids] else []) @ [AddSession sid t]"

lemma parse_node_item:
  assumes "size_ok (length p)" "size_ok (length (node_data n))" "node_acl_id n \<noteq> -1"
  shows "parse_node V1 (node_item p n @ rest) = (node_acts p n, Next)"
proof -
  have "rbind read_string (\<lambda>key. rbind read_string (\<lambda>dat. rreturn (key, dat))) (node_item p n @ rest) =
      Inr ((p, node_data n), write_int64 (node_acl_id n) @ write_bool (is_ephemeral n) @ write_bool (is_sequental n) @ write_Stat (node_stat n) @ rest)"
    using assms(1,2) by (simp add: node_item_def wire_simps)
  moreover have "read_node_end (node_data n) (write_bool (is_ephemeral n) @ write_bool (is_sequental n) @ write_Stat (node_stat n) @ rest) =
      Inr (n\<lparr>node_acl_id := 0, children := {}\<rparr>, rest)"
    by (simp add: read_node_end_def wire_simps bl.roundtrip)
  ultimately show ?thesis
    using assms(3) by (simp add: parse_node_def node_acts_def i64.roundtrip put_ephemeral_def)
qed

lemma parse_session_item:
  assumes "auths_fit ids"
  shows "parse_session V1 (session_item sid t ids @ rest) = (session_acts sid t ids, Next)"
  using assms by (simp add: parse_session_def session_item_def session_acts_def auths_fit_def wire_simps i64.roundtrip auths_io.roundtrip)

lemma parse_acl_item:
  assumes "acls_fit as"
  shows "parse_acls (acl_item acl_id as @ rest) = ([MapAcls acl_id as], Next)"
  using assms by (simp add: parse_acls_def acl_item_def acls_fit_def wire_simps i64.roundtrip)

lemma parse_items_all:
  assumes "\<And>it. it \<in> set its \<Longrightarrow> snd (f (put_string L it)) = Next"
  shows "parse_items L f its = (concat (map (\<lambda>it. fst (f (put_string L it))) its), None)"
  using assms
proof (induction its)
  case (Cons it its)
  obtain acts where "f (put_string L it) = (acts, Next)" using Cons.prems [of it] by (cases "f (put_string L it)") auto
  then show ?case using Cons.IH Cons.prems by simp
qed simp

section \<open>Objects\<close>

lemma object_parsed:
  assumes L: "snap_lib_ok L" and fil: "files path = Some (file_of L bs)" and ne: "bs \<noteq> []"
    and cut: "\<And>b. b \<in> set bs \<Longrightarrow> batch_cut ty sz b \<or> b = new_batch" and small: "\<And>b. b \<in> set bs \<Longrightarrow> batch_small L b"
    and parse: "\<And>b. batch_type b = ty \<Longrightarrow> parse_batch L V1 b = parse_items L f (batch_data b)"
    and its: "\<And>it. it \<in> set (concat (map batch_data bs)) \<Longrightarrow> snd (f (put_string L it)) = Next"
  shows "fst (parseOneObject L files path) = concat (map (\<lambda>it. fst (f (put_string L it))) (concat (map batch_data bs)))"
proof -
  have one: "parse_batch L V1 b = (concat (map (\<lambda>it. fst (f (put_string L it))) (batch_data b)), None)" if "b \<in> set bs" for b
  proof (cases "b = new_batch")
    case True
    then show ?thesis by (simp add: parse_batch_def new_batch_def)
  next
    case False
    then have "batch_type b = ty" using cut [OF that] by (simp add: batch_cut_def)
    then show ?thesis using parse parse_items_all [of "batch_data b" f L] its that by auto
  qed
  have "parseOneObject_loop L VNone 0 (file_of L bs) = (concat (map (\<lambda>b. fst (parse_batch L V1 b)) bs), Inr True)"
    using small one by (intro parse_file [OF L ne]) auto
  moreover have "concat (map (\<lambda>b. fst (parse_batch L V1 b)) bs) = concat (map (\<lambda>it. fst (f (put_string L it))) (concat (map batch_data bs)))"
    using one by (induction bs) auto
  ultimately show ?thesis using fil by (simp add: parseOneObject_def)
qed

definition items_fit :: "snap_lib \<Rightarrow> string set \<Rightarrow> bool" where
  "items_fit L its \<longleftrightarrow> (\<forall>b. length (batch_data b) \<le> unat SAVE_BATCH_SIZE \<and> set (batch_data b) \<subseteq> its \<longrightarrow> batch_small L b)"

lemma items_fit_batches:
  assumes "items_fit L its" "set (concat (map batch_data bs)) \<subseteq> its" "\<And>b. b \<in> set bs \<Longrightarrow> batch_cut ty SAVE_BATCH_SIZE b \<or> b = new_batch" "b \<in> set bs"
  shows "batch_small L b"
  using assms(1,2) assms(3) [of b] assms(4) by (auto simp: items_fit_def batch_cut_def new_batch_def)

lemma saved_object_parsed:
  assumes L: "snap_lib_ok L" and fil: "files path = Some (save_object L ty SAVE_BATCH_SIZE V1 its)" and n: "length its < 2 ^ 64 - 1"
    and fit: "items_fit L (set its)" and parse: "\<And>b. batch_type b = ty \<Longrightarrow> parse_batch L V1 b = parse_items L f (batch_data b)"
    and ok: "\<And>it. it \<in> set its \<Longrightarrow> snd (f (put_string L it)) = Next"
  shows "fst (parseOneObject L files path) = concat (map (\<lambda>it. fst (f (put_string L it))) its)"
proof -
  have "SAVE_BATCH_SIZE \<noteq> 0" by (simp add: SAVE_BATCH_SIZE_def)
  then obtain bs where bs: "save_object L ty SAVE_BATCH_SIZE V1 its = file_of L bs" "bs \<noteq> []" "concat (map batch_data bs) = its"
    "\<And>b. b \<in> set bs \<Longrightarrow> batch_cut ty SAVE_BATCH_SIZE b \<or> b = new_batch"
    using save_object_batches [OF _ n, of SAVE_BATCH_SIZE L ty] by blast
  have small: "batch_small L b" if "b \<in> set bs" for b
    using items_fit_batches [OF fit, of bs ty] bs(3,4) that by auto
  have "fst (parseOneObject L files path) = concat (map (\<lambda>it. fst (f (put_string L it))) (concat (map batch_data bs)))"
    by (rule object_parsed [where files = files and path = path and ty = ty and sz = SAVE_BATCH_SIZE, OF L fil [unfolded bs(1)] bs(2)]) (use bs(3,4) small parse ok in blast)+
  then show ?thesis unfolding bs(3) .
qed

section \<open>The share of the threads\<close>

lemma mset_shares:
  "mset (concat (map (\<lambda>t. filter (\<lambda>(i, _). i mod SNAPSHOT_THREAD_NUM = t) ys) [0..<SNAPSHOT_THREAD_NUM])) = mset ys"
proof -
  let ?S = "{0..<SNAPSHOT_THREAD_NUM}"
  have eq: "mset (concat (map f [0..<SNAPSHOT_THREAD_NUM])) = (\<Sum>t \<in> ?S. mset (f t))" for f :: "nat \<Rightarrow> 'x list"
    by (simp add: mset_concat sum_list_distinct_conv_sum_set comp_def)
  have "(\<Sum>t \<in> ?S. mset (filter (\<lambda>(i, _). i mod SNAPSHOT_THREAD_NUM = t) ys)) = mset ys"
  proof (induction ys)
    case (Cons y ys)
    obtain i x where y: "y = (i, x)" by (cases y)
    have "i mod SNAPSHOT_THREAD_NUM \<in> ?S" by (simp add: SNAPSHOT_THREAD_NUM_def)
    then have "(\<Sum>t \<in> ?S. if i mod SNAPSHOT_THREAD_NUM = t then {#y#} else {#}) = {#y#}" by (simp add: sum.delta)
    moreover have "(\<Sum>t \<in> ?S. mset (filter (\<lambda>(i, _). i mod SNAPSHOT_THREAD_NUM = t) (y # ys))) =
        (\<Sum>t \<in> ?S. (if i mod SNAPSHOT_THREAD_NUM = t then {#y#} else {#}) + mset (filter (\<lambda>(i, _). i mod SNAPSHOT_THREAD_NUM = t) ys))"
      by (rule sum.cong) (simp_all add: y)
    ultimately show ?case using Cons.IH by (simp add: sum.distrib)
  qed simp
  then show ?thesis unfolding eq .
qed

lemma mset_threads: "mset (concat (concat (load_threads L files st))) = mset (concat (object_actions L files st))"
proof -
  let ?o = "object_actions L files st"
  let ?sh = "\<lambda>t. filter (\<lambda>(i, _). i mod SNAPSHOT_THREAD_NUM = t) (enumerate 0 ?o)"
  have "concat (load_threads L files st) = map snd (concat (map ?sh [0..<SNAPSHOT_THREAD_NUM]))"
    by (simp add: load_threads_def thread_share_def [abs_def] map_concat comp_def)
  then have "mset (concat (load_threads L files st)) = image_mset snd (mset (enumerate 0 ?o))"
    using mset_shares [of "enumerate 0 ?o"] by (simp only: mset_map)
  also have "\<dots> = mset (map snd (enumerate 0 ?o))" by (rule mset_map [symmetric])
  also have "\<dots> = mset ?o" by (simp only: enumerate_eq_zip map_snd_zip length_upt diff_add_inverse)
  finally have "mset (concat (load_threads L files st)) = mset ?o" .
  then have "mset (map mset (concat (load_threads L files st))) = mset (map mset ?o)" by (simp only: mset_map)
  then have "sum_mset (mset (map mset (concat (load_threads L files st)))) = sum_mset (mset (map mset ?o))" by (rule arg_cong)
  then show ?thesis by (simp only: mset_concat sum_mset_sum_list)
qed

section \<open>The objects of a snapshot\<close>

lemma add_paths_fields:
  "curr_time (add_paths st is) = curr_time st" "sn_last_log_index (add_paths st is) = sn_last_log_index st"
  "getObjectPath (add_paths st is) = getObjectPath st"
  by (induction st "is" rule: add_paths.induct) (simp_all add: addObjectPath_def getObjectPath_def fun_eq_iff)

lemma add_paths_objects:
  assumes "n < 2 ^ 64"
  shows "objects_path (add_paths st [1..<n + 1]) = (\<lambda>i. if 1 \<le> unat i \<and> unat i \<le> n then Some (getObjectPath st i) else objects_path st i)"
  using assms
proof (induction n)
  case 0
  show ?case by (auto simp: fun_eq_iff)
next
  case (Suc n)
  have app: "add_paths st (xs @ ys) = add_paths (add_paths st xs) ys" for xs ys st
    by (induction st xs rule: add_paths.induct) simp_all
  have un: "unat (of_nat (Suc n) :: uint64) = Suc n" using Suc.prems by (simp add: unat_of_nat del: of_nat_Suc)
  then have u: "unat i = Suc n \<longleftrightarrow> i = of_nat (Suc n)" for i :: uint64 by (metis of_nat_unat ucast_id)
  have "add_paths st [1..<Suc n + 1] = addObjectPath (add_paths st [1..<n + 1]) (of_nat (Suc n)) (getObjectPath st (of_nat (Suc n)))"
    using app [of st "[1..<n + 1]" "[Suc n]"] add_paths_fields(3) [of st "[1..<n + 1]"] by simp
  then have eq: "objects_path (add_paths st [1..<Suc n + 1]) = (objects_path (add_paths st [1..<n + 1]))(of_nat (Suc n) \<mapsto> getObjectPath st (of_nat (Suc n)))"
    by (simp add: addObjectPath_def)
  have n: "n < 2 ^ 64" using Suc.prems by simp
  show ?case
  proof (rule ext)
    fix i
    show "objects_path (add_paths st [1..<Suc n + 1]) i = (if 1 \<le> unat i \<and> unat i \<le> Suc n then Some (getObjectPath st i) else objects_path st i)"
      unfolding eq Suc.IH [OF n] using un u [of i] by (cases "i = of_nat (Suc n)") (auto simp: le_Suc_eq simp del: of_nat_Suc)
  qed
qed

lemma sorted_ids_upto:
  assumes "n < 2 ^ 64" "dom m = {i. 1 \<le> unat i \<and> unat i \<le> n}"
  shows "sorted_ids m = map of_nat [1..<n + 1]"
proof -
  have "unat ` dom m = {1..<n + 1}"
  proof (intro equalityI subsetI)
    fix k assume "k \<in> {1..<n + 1}"
    then have "unat (of_nat k :: uint64) = k" using assms(1) by (simp add: unat_of_nat)
    then show "k \<in> unat ` dom m" using \<open>k \<in> {1..<n + 1}\<close> by (intro image_eqI [of _ _ "of_nat k"]) (auto simp: assms(2))
  qed (auto simp: assms(2))
  then show ?thesis by (simp only: sorted_ids_def sorted_list_of_set_range)
qed

text \<open>What fits into a snapshot: strings within the limits of the protocol, and batches within those of the file.\<close>

definition store_fits :: "KeeperStore \<Rightarrow> bool" where
  "store_fits s \<longleftrightarrow>
     (\<forall>p n. container s p = Some n \<longrightarrow> size_ok (length p) \<and> size_ok (length (node_data n)) \<and> node_acl_id n \<noteq> -1)
   \<and> (\<forall>sid. auths_fit (list_entry (session_and_auth s) sid))
   \<and> (\<forall>i as. num_to_acl (store_acl_map s) i = Some as \<longrightarrow> acls_fit as)
   \<and> finite (dom (num_to_acl (store_acl_map s))) \<and> finite (dom (session_and_timeout s))
   \<and> card (dom (container s)) + 4 < 2 ^ 31 \<and> card (dom (session_and_timeout s)) < 2 ^ 31
   \<and> card (dom (num_to_acl (store_acl_map s))) < 2 ^ 31 \<and> card (dom (ephemerals s)) < 2 ^ 31"

definition snapshot_items :: "KeeperStore \<Rightarrow> int64 \<Rightarrow> int64 \<Rightarrow> string set" where
  "snapshot_items s nz ns =
     (\<lambda>p. node_item p (the (container s p))) ` dom (container s)
   \<union> (\<lambda>sid. session_item sid (the (session_and_timeout s sid)) (list_entry (session_and_auth s) sid)) ` dom (session_and_timeout s)
   \<union> (\<lambda>i. acl_item i (list_entry (num_to_acl (store_acl_map s)) i)) ` dom (num_to_acl (store_acl_map s))
   \<union> {int_item ''ZXID'' nz, int_item ''SESSIONID'' ns}"

lemma items_fit_mono: "items_fit L A \<Longrightarrow> B \<subseteq> A \<Longrightarrow> items_fit L B"
  by (auto simp: items_fit_def)

definition session_of :: "KeeperStore \<Rightarrow> int64 \<Rightarrow> snap_action list" where
  "session_of s sid = session_acts sid (the (session_and_timeout s sid)) (list_entry (session_and_auth s) sid)"

definition acl_of :: "KeeperStore \<Rightarrow> uint64 \<Rightarrow> snap_action" where
  "acl_of s i = MapAcls i (list_entry (num_to_acl (store_acl_map s)) i)"

definition node_of :: "KeeperStore \<Rightarrow> string \<Rightarrow> snap_action list" where
  "node_of s p = node_acts p (the (container s p))"

lemma ints_parsed:
  assumes L: "snap_lib_ok L" and E: "enumerates (path_order E)" and fit: "items_fit L {int_item ''ZXID'' nz, int_item ''SESSIONID'' ns}"
    and fil: "files path = Some (serializeMap L E [''ZXID'' \<mapsto> nz, ''SESSIONID'' \<mapsto> ns] SAVE_BATCH_SIZE V1)"
  shows "set (fst (parseOneObject L files path)) = {SetZxid nz, SetCounter ns}"
proof -
  let ?m = "[''ZXID'' \<mapsto> nz, ''SESSIONID'' \<mapsto> ns]"
  have d: "set (path_order E (dom ?m)) = {''SESSIONID'', ''ZXID''}" "distinct (path_order E (dom ?m))"
    using enumeratesD [OF E, of "dom ?m"] by simp_all
  have "length (path_order E (dom ?m)) = 2" using distinct_card [OF d(2)] d(1) by simp
  then obtain k1 k2 where k: "path_order E (dom ?m) = [k1, k2]" by (auto simp: numeral_2_eq_2 length_Suc_conv)
  let ?i = "\<lambda>k. int_item k (the (?m k))"
  let ?b = "\<lparr>batch_type = SNAPSHOT_TYPE_UINTMAP, batch_data = [?i k1, ?i k2]\<rparr>"
  have ks: "k1 = ''ZXID'' \<and> k2 = ''SESSIONID'' \<or> k1 = ''SESSIONID'' \<and> k2 = ''ZXID''" using d k by (auto simp: doubleton_eq_iff)
  have one: "(1 :: uint64) mod ucast SAVE_BATCH_SIZE \<noteq> 0" by (simp add: SAVE_BATCH_SIZE_def)
  have "serializeMap L E ?m SAVE_BATCH_SIZE V1 = file_of L [?b]"
    unfolding serializeMap_def k
    using one by (simp add: save_object_def file_of_def add_data_def new_batch_def saveBatchAndUpdateCheckSum_eq)
  moreover have small: "batch_small L ?b"
    using fit ks by (auto simp: items_fit_def SAVE_BATCH_SIZE_def)
  moreover have p: "parse_batch L V1 ?b = ([SetZxid nz, SetCounter ns], None)"
  proof -
    have "rbind read_string (\<lambda>key. rbind read_int64 (\<lambda>value. rreturn (key, value))) (put_string L (int_item k v)) = Inr ((k, v), [CHR 0x00])"
      if "size_ok (length k)" for k v
      using L that by (simp add: snap_lib_ok_def int_item_def wire_simps i64.roundtrip)
    then show ?thesis using ks by (auto simp: parse_batch_def parse_int_map_def)
  qed
  moreover have "parseOneObject_loop L VNone 0 (file_of L [?b]) = (concat (map (\<lambda>b. fst (parse_batch L V1 b)) [?b]), Inr True)"
    by (rule parse_file [OF L]) (use small p in auto)
  ultimately show ?thesis using fil by (simp add: parseOneObject_def)
qed

lemma sessions_parsed:
  assumes L: "snap_lib_ok L" and E: "enumerates (sid_order E)" and fits: "store_fits s" and fit: "items_fit L (snapshot_items s nz ns)"
    and fil: "files path = Some (fst (serializeSessions L E s SAVE_BATCH_SIZE V1))"
  shows "fst (parseOneObject L files path) = concat (map (session_of s) (sid_order E (dom (session_and_timeout s))))"
proof -
  let ?D = "dom (session_and_timeout s)"
  have fin: "finite ?D" "card ?D < 2 ^ 31" using fits by (simp_all add: store_fits_def)
  note en = enumeratesD [OF E fin(1)]
  have len: "length (session_items E s) < 2 ^ 64 - 1" using distinct_card [OF en(2)] en(1) fin(2) by (simp add: session_items_def)
  have sub: "set (session_items E s) \<subseteq> snapshot_items s nz ns" using en(1) by (auto simp: session_items_def snapshot_items_def)
  have it: "parse_session V1 (put_string L (session_item sid t (list_entry (session_and_auth s) sid))) = (session_acts sid t (list_entry (session_and_auth s) sid), Next)" for sid t
    using L fits parse_session_item by (simp add: snap_lib_ok_def store_fits_def)
  have "fst (parseOneObject L files path) = concat (map (\<lambda>it. fst (parse_session V1 (put_string L it))) (session_items E s))"
    by (rule saved_object_parsed [where ty = SNAPSHOT_TYPE_SESSION and path = path and files = files, OF L _ len items_fit_mono [OF fit sub]])
       (use fil it in \<open>auto simp: serializeSessions_def parse_batch_def session_items_def\<close>)
  then show ?thesis by (simp add: session_items_def it comp_def session_of_def [abs_def])
qed

lemma acls_parsed:
  assumes L: "snap_lib_ok L" and E: "enumerates (sid_order E)" and fits: "store_fits s" and fit: "items_fit L (snapshot_items s nz ns)"
    and fil: "files path = Some (serializeAcls L E (store_acl_map s) SAVE_BATCH_SIZE V1)"
  shows "fst (parseOneObject L files path) = map (acl_of s) (sid_order E (dom (num_to_acl (store_acl_map s))))"
proof -
  let ?D = "dom (num_to_acl (store_acl_map s))"
  let ?its = "map (\<lambda>i. acl_item i (list_entry (num_to_acl (store_acl_map s)) i)) (sid_order E ?D)"
  have fin: "finite ?D" "card ?D < 2 ^ 31" using fits by (simp_all add: store_fits_def)
  note en = enumeratesD [OF E fin(1)]
  have len: "length ?its < 2 ^ 64 - 1" using distinct_card [OF en(2)] en(1) fin(2) by simp
  have sub: "set ?its \<subseteq> snapshot_items s nz ns" using en(1) by (auto simp: snapshot_items_def)
  have it: "parse_acls (put_string L (acl_item i (list_entry (num_to_acl (store_acl_map s)) i))) = ([acl_of s i], Next)" if "num_to_acl (store_acl_map s) i = Some as" for i as
    using L fits that parse_acl_item by (auto simp: snap_lib_ok_def store_fits_def acl_of_def list_entry_def)
  have "V1 \<le> V1" by simp
  then have "fst (parseOneObject L files path) = concat (map (\<lambda>it. fst (parse_acls (put_string L it))) ?its)"
    by (intro saved_object_parsed [where ty = SNAPSHOT_TYPE_ACLMAP and path = path and files = files, OF L _ len items_fit_mono [OF fit sub]])
       (use fil it en(1) in \<open>auto simp: serializeAcls_def parse_batch_def\<close>)
  also have "\<dots> = concat (map (\<lambda>i. [acl_of s i]) (sid_order E ?D))"
    using it en(1) by (intro arg_cong [where f = concat]) auto
  finally show ?thesis by simp
qed

lemma nodes_parsed:
  assumes L: "snap_lib_ok L" and fits: "store_fits s" and fit: "items_fit L (snapshot_items s nz ns)"
    and order: "set order = dom (container s)" "concat (map batch_data (concat objs)) = map (\<lambda>p. node_item p (the (container s p))) order"
    and cut: "\<And>x. x \<in> set (concat objs) \<Longrightarrow> batch_cut SNAPSHOT_TYPE_DATA SAVE_BATCH_SIZE x" "[] \<notin> set objs"
    and fil: "\<And>j. j < length objs \<Longrightarrow> files (path j) = Some (file_of L (objs ! j))"
  shows "concat (map (\<lambda>j. fst (parseOneObject L files (path j))) [0..<length objs]) = concat (map (node_of s) order)"
proof -
  let ?g = "\<lambda>it. fst (parse_node V1 (put_string L it))"
  let ?its = "\<lambda>bs. concat (map batch_data bs)"
  have it: "parse_node V1 (put_string L (node_item p (the (container s p)))) = (node_of s p, Next)" if "p \<in> set order" for p
    using L fits that order(1) parse_node_item [of p "the (container s p)" "[CHR 0x00]"]
    by (auto simp: snap_lib_ok_def store_fits_def node_of_def)
  have all: "set (?its (concat objs)) = (\<lambda>p. node_item p (the (container s p))) ` set order" unfolding order(2) by simp
  have "fst (parseOneObject L files (path j)) = concat (map ?g (?its (objs ! j)))" if j: "j < length objs" for j
  proof (rule object_parsed [where ty = SNAPSHOT_TYPE_DATA and sz = SAVE_BATCH_SIZE and path = "path j" and files = files, OF L fil [OF j]])
    have sub: "set (objs ! j) \<subseteq> set (concat objs)" using nth_mem [OF j] by auto
    show "objs ! j \<noteq> []" using cut(2) j by (metis nth_mem)
    show cj: "batch_cut SNAPSHOT_TYPE_DATA SAVE_BATCH_SIZE b \<or> b = new_batch" if "b \<in> set (objs ! j)" for b using cut(1) sub that by blast
    have "set (?its (objs ! j)) \<subseteq> set (?its (concat objs))" using sub by auto
    then have "set (?its (objs ! j)) \<subseteq> snapshot_items s nz ns" unfolding all by (auto simp: snapshot_items_def order(1))
    then show "batch_small L b" if "b \<in> set (objs ! j)" for b using items_fit_batches [OF fit _ cj that] by blast
    show "snd (parse_node V1 (put_string L it)) = Next" if "it \<in> set (?its (objs ! j))" for it
    proof -
      have "it \<in> set (?its (concat objs))" using that sub by auto
      then have "it \<in> (\<lambda>p. node_item p (the (container s p))) ` set order" unfolding all .
      then show ?thesis using it by auto
    qed
  qed (simp add: parse_batch_def)
  then have "concat (map (\<lambda>j. fst (parseOneObject L files (path j))) [0..<length objs]) = concat (map (\<lambda>bs. concat (map ?g (?its bs))) (map ((!) objs) [0..<length objs]))"
    by (intro arg_cong [where f = concat]) auto
  also have "\<dots> = concat (map ?g (?its (concat objs)))" unfolding map_nth by (induction objs) auto
  also have "\<dots> = concat (map (node_of s) order)" unfolding order(2) using it by (intro arg_cong [where f = concat]) auto
  finally show ?thesis .
qed

text \<open>A snapshot with the objects \<open>1\<close> to \<open>m\<close>, each under its own name.\<close>

definition complete :: "snapshot_store \<Rightarrow> nat \<Rightarrow> bool" where
  "complete st m \<longleftrightarrow> 4 \<le> m \<and> m < 2 ^ 31 \<and> snap_time_ok (curr_time st)
     \<and> objects_path st = (\<lambda>i. if 1 \<le> unat i \<and> unat i \<le> m then Some (getObjectPath st i) else None)"

lemma complete_actions:
  assumes "complete st m"
  shows "sorted_ids (objects_path st) = map of_nat [1..<m + 1]"
    "object_actions L f st = map (\<lambda>i. fst (parseOneObject L f (getObjectPath st (of_nat i)))) [1..<m + 1]"
proof -
  have "dom (objects_path st) = {i. 1 \<le> unat i \<and> unat i \<le> m}" using assms by (auto simp: complete_def split: if_splits)
  then show ids: "sorted_ids (objects_path st) = map of_nat [1..<m + 1]" using sorted_ids_upto [of m] assms by (simp add: complete_def)
  have "the (objects_path st (of_nat i)) = getObjectPath st (of_nat i)" if "i \<in> set [1..<m + 1]" for i
    using assms that by (auto simp: complete_def unat_of_nat)
  then show "object_actions L f st = map (\<lambda>i. fst (parseOneObject L f (getObjectPath st (of_nat i)))) [1..<m + 1]"
    unfolding object_actions_def ids by (simp add: comp_def del: upt_Suc)
qed

lemma complete_split:
  assumes "complete st m"
  shows "object_actions L f st = [fst (parseOneObject L f (getObjectPath st 1)), fst (parseOneObject L f (getObjectPath st 2)), fst (parseOneObject L f (getObjectPath st 3))]
    @ map (\<lambda>j. fst (parseOneObject L f (getObjectPath st (of_nat (4 + j))))) [0..<m - 3]"
proof -
  have "[1..<m + 1] = [1..<4] @ [4..<4 + (m - 3)]" using upt_add_eq_append [of 1 4 "m - 3"] assms by (simp add: complete_def)
  also have "[1..<4] = [1, 2, 3 :: nat]" by (simp add: upt_rec)
  also have "[4..<4 + (m - 3)] = map (\<lambda>j. 4 + j) [0..<m - 3]" by (simp only: add.commute [of 4] map_add_upt)
  finally show ?thesis unfolding complete_actions(2) [OF assms] by (simp add: comp_def)
qed

lemma object_ids:
  assumes "n < 2 ^ 31"
  shows "{i :: uint64. 1 \<le> unat i \<and> unat i \<le> 3 + n} = {1, 2, 3} \<union> (\<lambda>j. of_nat (4 + j)) ` {..<n}"
proof (intro equalityI subsetI)
  fix i :: uint64 assume i: "i \<in> {i. 1 \<le> unat i \<and> unat i \<le> 3 + n}"
  show "i \<in> {1, 2, 3} \<union> (\<lambda>j. of_nat (4 + j)) ` {..<n}"
  proof (cases "unat i \<le> 3")
    case True
    then have "unat i = 1 \<or> unat i = 2 \<or> unat i = 3" using i by auto
    then show ?thesis by (auto simp: word_unat_eq_iff)
  next
    case False
    then have "i = of_nat (4 + (unat i - 4))" by (simp del: of_nat_add)
    moreover have "unat i - 4 \<in> {..<n}" using i False by auto
    ultimately show ?thesis by blast
  qed
next
  fix i :: uint64 assume "i \<in> {1, 2, 3} \<union> (\<lambda>j. of_nat (4 + j)) ` {..<n}"
  then show "i \<in> {i. 1 \<le> unat i \<and> unat i \<le> 3 + n}" using assms by (auto simp: unat_of_nat simp del: of_nat_add)
qed

lemma obj_files_dom: "dom (obj_files st files cs) = dom files \<union> (\<lambda>j. getObjectPath st (of_nat (4 + j))) ` {..<length cs}"
proof (induction cs rule: rev_induct)
  case (snoc c cs)
  have "dom (obj_files st files (cs @ [c])) = insert (getObjectPath st (of_nat (4 + length cs))) (dom (obj_files st files cs))"
    unfolding obj_files_snoc by (simp del: of_nat_add fun_upd_apply)
  then show ?case unfolding snoc.IH by (simp add: lessThan_Suc)
qed (simp add: obj_files_def)

text \<open>The files that creation leaves: three with the small tables and one for each object of the tree.\<close>

lemma createObjects_files:
  assumes L: "snap_lib_ok L" and E: "env_ok E" and tree: "tree_inv (container s)" and fits: "store_fits s"
    and time: "snap_time_ok time" and io: "mkdir_ok io" and sz: "sz \<noteq> 0" and st: "st = new_snapshot_store idx trm sz osz time"
  obtains files' objs order where
    "createObjects L E io files st s nz ns = Some (files', add_paths st [1..<3 + length objs + 1], Inr (of_nat (3 + length objs)))"
    "files' (getObjectPath st 1) = Some (serializeMap L E [''ZXID'' \<mapsto> nz, ''SESSIONID'' \<mapsto> ns] SAVE_BATCH_SIZE V1)"
    "files' (getObjectPath st 2) = Some (fst (serializeSessions L E s SAVE_BATCH_SIZE V1))"
    "files' (getObjectPath st 3) = Some (serializeAcls L E (store_acl_map s) SAVE_BATCH_SIZE V1)"
    "\<forall>j < length objs. files' (getObjectPath st (of_nat (4 + j))) = Some (file_of L (objs ! j))"
    "dom files' = dom files \<union> getObjectPath st ` {1, 2, 3} \<union> (\<lambda>j. getObjectPath st (of_nat (4 + j))) ` {..<length objs}"
    "set order = dom (container s)" "distinct order" "concat (map batch_data (concat objs)) = map (\<lambda>p. node_item p (the (container s p))) order"
    "\<forall>x \<in> set (concat objs). batch_cut SNAPSHOT_TYPE_DATA SAVE_BATCH_SIZE x" "[] \<notin> set objs" "length objs < 2 ^ 31 - 4" "objs \<noteq> []"
proof -
  let ?p = "getObjectPath st"
  let ?f1 = "serializeMap L E [''ZXID'' \<mapsto> nz, ''SESSIONID'' \<mapsto> ns] SAVE_BATCH_SIZE V1"
  let ?f2 = "fst (serializeSessions L E s SAVE_BATCH_SIZE V1)"
  let ?f3 = "serializeAcls L E (store_acl_map s) SAVE_BATCH_SIZE V1"
  define files3 where "files3 = files(?p 1 \<mapsto> ?f1, ?p 2 \<mapsto> ?f2, ?p 3 \<mapsto> ?f3)"
  have fields: "curr_time st = time" "max_object_node_size st \<noteq> 0" "save_batch_size st = SAVE_BATCH_SIZE" "snap_size st = sz"
    by (simp_all add: st new_snapshot_store_def MAX_OBJECT_NODE_SIZE_def)
  have t: "snap_time_ok (curr_time st)" using time fields(1) by simp
  have batch: "save_batch_size st \<noteq> 0" unfolding fields(3) by (simp add: SAVE_BATCH_SIZE_def)
  have n: "card (dom (container s)) + 4 < 2 ^ 31" using fits by (simp add: store_fits_def)
  have ord: "enumerates (path_order E)" using E by (simp add: env_ok_def)
  obtain order objs where tr: "serializeDataTree L E st s files3 = Some (obj_files st files3 (map (file_of L) objs), Inr (of_nat (3 + length objs)))"
    "set order = dom (container s)" "distinct order" "concat (map batch_data (concat objs)) = map (\<lambda>p. node_item p (the (container s p))) order"
    "\<forall>x \<in> set (concat objs). batch_cut SNAPSHOT_TYPE_DATA SAVE_BATCH_SIZE x" "[] \<notin> set objs" "length objs < 2 ^ 31 - 4" "objs \<noteq> []"
    by (rule serializeDataTree_files [OF tree ord t fields(2) batch n, of L files3, unfolded fields(3)])
  let ?files = "obj_files st files3 (map (file_of L) objs)"
  have u: "unat (of_nat (3 + length objs) :: uint64) = 3 + length objs" using tr(7) by (simp add: unat_of_nat del: of_nat_add)
  have bound: "4 + length (map (file_of L) objs) < 2 ^ 64" using tr(7) by simp
  have low: "?files (?p 1) = files3 (?p 1)" "?files (?p 2) = files3 (?p 2)" "?files (?p 3) = files3 (?p 3)"
    using obj_files_lookup(2) [OF t bound, of 1 files3] obj_files_lookup(2) [OF t bound, of 2 files3] obj_files_lookup(2) [OF t bound, of 3 files3] by simp_all
  have "?p 1 \<noteq> ?p 2" "?p 1 \<noteq> ?p 3" "?p 2 \<noteq> ?p 3" using getObjectPath_inj [OF t, of 1 2] getObjectPath_inj [OF t, of 1 3] getObjectPath_inj [OF t, of 2 3] by auto
  then have f3: "files3 (?p 1) = Some ?f1" "files3 (?p 2) = Some ?f2" "files3 (?p 3) = Some ?f3" by (simp_all add: files3_def)
  have objs: "\<forall>j < length objs. ?files (?p (of_nat (4 + j))) = Some (file_of L (objs ! j))"
    using obj_files_lookup(1) [OF t bound, of _ files3] by simp
  have dom: "dom ?files = dom files \<union> ?p ` {1, 2, 3} \<union> (\<lambda>j. ?p (of_nat (4 + j))) ` {..<length objs}"
    unfolding obj_files_dom files3_def by auto
  have "createObjects L E io files st s nz ns = Some (?files, add_paths st [1..<3 + length objs + 1], Inr (of_nat (3 + length objs)))"
    using tr(1) io sz fields(3,4) u by (simp add: createObjects_def files3_def Let_def del: upt_Suc)
  from that [OF this low(1) [unfolded f3(1)] low(2) [unfolded f3(2)] low(3) [unfolded f3(3)] objs dom tr(2-8)] show ?thesis .
qed

lemma createObjects_parsed:
  assumes L: "snap_lib_ok L" and E: "env_ok E" and tree: "tree_inv (container s)" and fits: "store_fits s" and fit: "items_fit L (snapshot_items s nz ns)"
    and time: "snap_time_ok time" and io: "mkdir_ok io" and sz: "sz \<noteq> 0"
  obtains files' st' m order ints where
    "createObjects L E io files (new_snapshot_store idx trm sz osz time) s nz ns = Some (files', st', Inr (of_nat m))"
    "complete st' m" "curr_time st' = time" "sn_last_log_index st' = idx" "dom files' = dom files \<union> getObjectPath st' ` {i. 1 \<le> unat i \<and> unat i \<le> m}"
    "\<forall>f. (\<forall>name. name \<noteq> getObjectPath st' 2 \<longrightarrow> f name = files' name) \<longrightarrow>
       concat (object_actions L f st') = ints @ fst (parseOneObject L f (getObjectPath st' 2))
         @ map (acl_of s) (sid_order E (dom (num_to_acl (store_acl_map s)))) @ concat (map (node_of s) order)"
    "files' (getObjectPath st' 2) = Some (fst (serializeSessions L E s SAVE_BATCH_SIZE V1))"
    "set ints = {SetZxid nz, SetCounter ns}" "set order = dom (container s)" "distinct order"
proof -
  let ?st = "new_snapshot_store idx trm sz osz time"
  obtain files' objs order where cr: "createObjects L E io files ?st s nz ns = Some (files', add_paths ?st [1..<3 + length objs + 1], Inr (of_nat (3 + length objs)))"
    and fil: "files' (getObjectPath ?st 1) = Some (serializeMap L E [''ZXID'' \<mapsto> nz, ''SESSIONID'' \<mapsto> ns] SAVE_BATCH_SIZE V1)"
    "files' (getObjectPath ?st 2) = Some (fst (serializeSessions L E s SAVE_BATCH_SIZE V1))"
    "files' (getObjectPath ?st 3) = Some (serializeAcls L E (store_acl_map s) SAVE_BATCH_SIZE V1)"
    "\<forall>j < length objs. files' (getObjectPath ?st (of_nat (4 + j))) = Some (file_of L (objs ! j))"
    and dom: "dom files' = dom files \<union> getObjectPath ?st ` {1, 2, 3} \<union> (\<lambda>j. getObjectPath ?st (of_nat (4 + j))) ` {..<length objs}"
    and order: "set order = dom (container s)" "distinct order" "concat (map batch_data (concat objs)) = map (\<lambda>p. node_item p (the (container s p))) order"
    and cut: "\<forall>x \<in> set (concat objs). batch_cut SNAPSHOT_TYPE_DATA SAVE_BATCH_SIZE x" "[] \<notin> set objs" "length objs < 2 ^ 31 - 4" "objs \<noteq> []"
    by (rule createObjects_files [OF L E tree fits time io sz refl, where files = files and nz = nz and ns = ns])
  define st' where "st' = add_paths ?st [1..<3 + length objs + 1]"
  have p: "getObjectPath st' = getObjectPath ?st" "curr_time st' = time" "sn_last_log_index st' = idx"
    using add_paths_fields [of ?st "[1..<3 + length objs + 1]"] by (simp_all add: st'_def new_snapshot_store_def)
  have "objects_path ?st = Map.empty" by (simp add: new_snapshot_store_def)
  then have c: "complete st' (3 + length objs)"
    unfolding complete_def p using add_paths_objects [of "3 + length objs" ?st] cut(3,4) time by (simp add: st'_def Suc_le_eq del: upt_Suc cong: if_cong)
  have t: "snap_time_ok (curr_time st')" using time p(2) by simp
  have ids: "{i :: uint64. 1 \<le> unat i \<and> unat i \<le> 3 + length objs} = {1, 2, 3} \<union> (\<lambda>j. of_nat (4 + j)) ` {..<length objs}"
    by (rule object_ids) (use cut(3) in simp)
  have dom': "dom files' = dom files \<union> getObjectPath st' ` {i. 1 \<le> unat i \<and> unat i \<le> 3 + length objs}" unfolding ids p dom by (simp add: image_Un image_image Un_assoc)
  have acts: "concat (object_actions L f st') = fst (parseOneObject L files' (getObjectPath st' 1)) @ fst (parseOneObject L f (getObjectPath st' 2))
      @ map (acl_of s) (sid_order E (dom (num_to_acl (store_acl_map s)))) @ concat (map (node_of s) order)"
    if f: "\<forall>name. name \<noteq> getObjectPath st' 2 \<longrightarrow> f name = files' name" for f
  proof -
    have same: "f (getObjectPath st' i) = files' (getObjectPath st' i)" if "i \<noteq> 2" for i
      using f getObjectPath_inj [OF t, of i 2] that by blast
    have four: "(of_nat (4 + j) :: uint64) \<noteq> 2" if "j < length objs" for j
      using that cut(3) by (simp add: word_unat_eq_iff unat_of_nat del: of_nat_add)
    have "concat (map (\<lambda>j. fst (parseOneObject L f (getObjectPath st' (of_nat (4 + j))))) [0..<length objs]) = concat (map (node_of s) order)"
      by (rule nodes_parsed [OF L fits fit order(1,3)]) (use cut(1,2) fil(4) same four in \<open>auto simp: p(1)\<close>)
    moreover have "fst (parseOneObject L f (getObjectPath st' 3)) = map (acl_of s) (sid_order E (dom (num_to_acl (store_acl_map s))))"
      by (rule acls_parsed [where files = f, OF L _ fits fit]) (use E fil(3) same [of 3] in \<open>simp_all add: env_ok_def p(1)\<close>)
    ultimately show ?thesis
      unfolding complete_split [OF c] using same [of 1] by (simp add: parseOneObject_def)
  qed
  have "set (fst (parseOneObject L files' (getObjectPath st' 1))) = {SetZxid nz, SetCounter ns}"
    by (rule ints_parsed [where files = files', OF L]) (use E fil(1) items_fit_mono [OF fit] in \<open>auto simp: env_ok_def p(1) snapshot_items_def\<close>)
  from that [OF cr [folded st'_def] c p(2,3) dom' _ _ this order(1,2)] acts fil(2) show ?thesis unfolding p(1) by blast
qed

section \<open>The restored store\<close>

definition snapshot_acts :: "KeeperStore \<Rightarrow> snap_action list \<Rightarrow> int64 list \<Rightarrow> uint64 list \<Rightarrow> string list \<Rightarrow> snap_action list" where
  "snapshot_acts s ints sids aids order =
     ints @ concat (map (session_of s) sids) @ map (acl_of s) aids @ concat (map (node_of s) order)"

definition acts_enum :: "KeeperStore \<Rightarrow> int64 \<Rightarrow> int64 \<Rightarrow> snap_action list \<Rightarrow> int64 list \<Rightarrow> uint64 list \<Rightarrow> string list \<Rightarrow> bool" where
  "acts_enum s nz ns ints sids aids order \<longleftrightarrow> set ints = {SetZxid nz, SetCounter ns} \<and> set sids \<subseteq> dom (session_and_timeout s)
     \<and> set aids = dom (num_to_acl (store_acl_map s)) \<and> set order = dom (container s) \<and> distinct order"

lemmas acts_defs = snapshot_acts_def session_of_def session_acts_def acl_of_def node_of_def node_acts_def put_ephemeral_def

lemma acts_iff:
  assumes "acts_enum s nz ns ints sids aids order"
  shows "a \<in> set (snapshot_acts s ints sids aids order) \<Longrightarrow> v1_act a"
    "PutNode p n \<in> set (snapshot_acts s ints sids aids order) \<longleftrightarrow> (\<exists>m. container s p = Some m \<and> n = m\<lparr>children := {}\<rparr>)"
    "PutEphemeral sid p \<in> set (snapshot_acts s ints sids aids order) \<longleftrightarrow> (\<exists>m. container s p = Some m \<and> ephemeralOwner (node_stat m) = sid \<and> sid \<noteq> 0)"
    "SetAuth sid ids \<in> set (snapshot_acts s ints sids aids order) \<longleftrightarrow> sid \<in> set sids \<and> ids = list_entry (session_and_auth s) sid \<and> ids \<noteq> []"
    "AddSession sid t \<in> set (snapshot_acts s ints sids aids order) \<longleftrightarrow> sid \<in> set sids \<and> session_and_timeout s sid = Some t"
    "MapAcls i as \<in> set (snapshot_acts s ints sids aids order) \<longleftrightarrow> num_to_acl (store_acl_map s) i = Some as"
    "SetZxid v \<in> set (snapshot_acts s ints sids aids order) \<longleftrightarrow> v = nz"
    "SetCounter v \<in> set (snapshot_acts s ints sids aids order) \<longleftrightarrow> v = ns"
  using assms by (auto simp: acts_enum_def acts_defs list_entry_def split: if_splits)

lemma acts_usage:
  assumes "acts_enum s nz ns ints sids aids order"
  shows "count_list (snapshot_acts s ints sids aids order) (UseAcl i) = card {p. \<exists>n. container s p = Some n \<and> node_acl_id n = i}"
proof -
  have no: "count_list ints (UseAcl i) = 0" "count_list (concat (map (session_of s) sids)) (UseAcl i) = 0" "count_list (map (acl_of s) aids) (UseAcl i) = 0"
    using assms by (auto simp: count_list_0_iff acts_enum_def acts_defs split: if_splits)
  have "count_list (concat (map (node_of s) ps)) (UseAcl i) = length (filter (\<lambda>p. node_acl_id (the (container s p)) = i) ps)" for ps
    by (induction ps) (auto simp: acts_defs)
  moreover have "distinct order" "set order = dom (container s)" using assms by (simp_all add: acts_enum_def)
  moreover have "{p \<in> dom (container s). node_acl_id (the (container s p)) = i} = {p. \<exists>n. container s p = Some n \<and> node_acl_id n = i}" by force
  ultimately show ?thesis
    unfolding snapshot_acts_def using no by (simp add: distinct_length_filter Int_def Collect_conj_eq [symmetric] conj_commute)
qed

definition restored :: "KeeperStore \<Rightarrow> int64 \<Rightarrow> int64 \<Rightarrow> KeeperStore \<Rightarrow> bool" where
  "restored s nz ns t \<longleftrightarrow> container t = container s \<and> (\<forall>sid. set_entry (ephemerals t) sid = set_entry (ephemerals s) sid)
     \<and> session_and_timeout t = session_and_timeout s
     \<and> (\<forall>sid \<in> dom (session_and_timeout s). list_entry (session_and_auth t) sid = list_entry (session_and_auth s) sid)
     \<and> num_to_acl (store_acl_map t) = num_to_acl (store_acl_map s) \<and> acl_to_num (store_acl_map t) = acl_to_num (store_acl_map s)
     \<and> (\<forall>i. i \<noteq> 0 \<longrightarrow> usage (store_acl_map t) i = of_nat (card {p. \<exists>n. container s p = Some n \<and> node_acl_id n = i}))
     \<and> zxid t = nz \<and> session_id_counter t = ns"

text \<open>The store before the children are linked; nodes that are not in the snapshot stay.\<close>

lemma loaded_nodes:
  assumes run: "acts_run F trace s0 t" and tr: "set trace = set (snapshot_acts s ints sids aids order)"
    and e: "acts_enum s nz ns ints sids aids order"
  shows "container t p = (case container s p of None \<Rightarrow> container s0 p | Some m \<Rightarrow> Some (m\<lparr>children := {}\<rparr>))"
proof (cases "container s p")
  case None
  have "container t p = container s0 p"
    by (rule nodes.kept [OF run acts_iff(1) [OF e, folded tr]]) (use None acts_iff(2) [OF e, folded tr] in \<open>auto elim!: put_node.elims\<close>)
  then show ?thesis using None by simp
next
  case (Some m)
  have "container t p = Some (m\<lparr>children := {}\<rparr>)"
    by (rule nodes.loaded [OF run acts_iff(1) [OF e, folded tr], of _ "PutNode p (m\<lparr>children := {}\<rparr>)"])
      (use Some acts_iff(2) [OF e, folded tr] in \<open>auto elim!: put_node.elims\<close>)
  then show ?thesis using Some by simp
qed

lemma loaded_store:
  assumes run: "acts_run F trace (new_KeeperStore tick digest) t" and tr: "set trace = set (snapshot_acts s ints sids aids order)"
      "\<And>a. count_list trace a = count_list (snapshot_acts s ints sids aids order) a"
    and e: "acts_enum s nz ns ints sids aids order" and acl: "acl_inv (store_acl_map s)"
    and root: "''/'' \<in> dom (container s)"
  shows "container t = (\<lambda>p. map_option (\<lambda>n. n\<lparr>children := {}\<rparr>) (container s p))" (is ?c)
    and "set_entry (ephemerals t) sid = {p. \<exists>m. container s p = Some m \<and> ephemeralOwner (node_stat m) = sid \<and> sid \<noteq> 0}" (is ?e)
    and "session_and_timeout t = session_and_timeout s |` set sids" (is ?t)
    and "list_entry (session_and_auth t) sid = (if sid \<in> set sids then list_entry (session_and_auth s) sid else [])" (is ?a)
    and "num_to_acl (store_acl_map t) = num_to_acl (store_acl_map s)" (is ?n) and "acl_to_num (store_acl_map t) = acl_to_num (store_acl_map s)" (is ?m)
    and "i \<noteq> 0 \<Longrightarrow> usage (store_acl_map t) i = of_nat (card {p. \<exists>n. container s p = Some n \<and> node_acl_id n = i})"
    and "zxid t = nz" (is ?z) and "session_id_counter t = ns" (is ?i)
proof -
  let ?s0 = "new_KeeperStore tick digest"
  note acts = acts_iff [OF e, folded tr(1)]
  have s0: "container ?s0 = [''/'' \<mapsto> new_node]" "ephemerals ?s0 = Map.empty" "session_and_timeout ?s0 = Map.empty" "session_and_auth ?s0 = Map.empty"
    "store_acl_map ?s0 = empty_acl_map"
    by (simp_all add: new_KeeperStore_def)
  show ?c
    using loaded_nodes [OF run tr(1) e] s0(1) root by (auto simp: fun_eq_iff split: option.splits)
  show ?e using loaded_ephemerals(1) [OF run, of sid] s0(2) acts(3) by (simp add: set_entry_def)
  show ?t
  proof (rule ext)
    fix sid
    show "session_and_timeout t sid = (session_and_timeout s |` set sids) sid"
      using timeout_loaded [OF run, of sid] timeout_absent [OF run, of sid] acts(5) s0(3)
      by (cases "session_and_timeout s sid"; cases "sid \<in> set sids") (auto simp: restrict_map_def)
  qed
  show ?a
  proof (cases "sid \<in> set sids \<and> list_entry (session_and_auth s) sid \<noteq> []")
    case True
    have "session_and_auth t sid = Some (list_entry (session_and_auth s) sid)"
      by (rule auths.loaded [OF run acts(1), of _ "SetAuth sid (list_entry (session_and_auth s) sid)"]) (use True acts(4) in \<open>auto elim!: put_auth.elims\<close>)
    then show ?thesis using True by (simp add: list_entry_def)
  next
    case False
    have "session_and_auth t sid = session_and_auth ?s0 sid"
      by (rule auths.kept [OF run acts(1)]) (use False acts(4) in \<open>auto elim!: put_auth.elims\<close>)
    then show ?thesis using False s0(4) by (auto simp: list_entry_def)
  qed
  show ?n
  proof (rule ext)
    fix i
    have kept: "num_to_acl (store_acl_map t) i = num_to_acl (store_acl_map ?s0) i" if "num_to_acl (store_acl_map s) i = None"
      by (rule acls.kept [OF run acts(1)]) (use that acts(6) in \<open>auto elim!: put_acls.elims\<close>)
    have loaded: "num_to_acl (store_acl_map t) i = Some as" if "num_to_acl (store_acl_map s) i = Some as" for as
      by (rule acls.loaded [OF run acts(1), of _ "MapAcls i as"]) (use that acts(6) in \<open>auto elim!: put_acls.elims\<close>)
    show "num_to_acl (store_acl_map t) i = num_to_acl (store_acl_map s) i"
      using kept loaded s0(5) by (cases "num_to_acl (store_acl_map s) i") (simp_all add: empty_acl_map_def)
  qed
  note iff = acl_invE(1) [OF acl]
  show ?m
  proof (rule ext)
    fix as
    have kept: "acl_to_num (store_acl_map t) as = acl_to_num (store_acl_map ?s0) as" if "acl_to_num (store_acl_map s) as = None"
      by (rule nums.kept [OF run acts(1)]) (use that acts(6) acl_invE(5) [OF acl that] in \<open>auto elim!: put_num.elims\<close>)
    have loaded: "acl_to_num (store_acl_map t) as = Some i" if "acl_to_num (store_acl_map s) as = Some i" for i
      by (rule nums.loaded [OF run acts(1), of _ "MapAcls i as"]) (use that acts(6) in \<open>auto elim!: put_num.elims simp: iff [symmetric]\<close>)
    show "acl_to_num (store_acl_map t) as = acl_to_num (store_acl_map s) as"
      using kept loaded s0(5) by (cases "acl_to_num (store_acl_map s) as") (simp_all add: empty_acl_map_def)
  qed
  show "i \<noteq> 0 \<Longrightarrow> usage (store_acl_map t) i = of_nat (card {p. \<exists>n. container s p = Some n \<and> node_acl_id n = i})"
    using loaded_usage [OF run acts(1), of i] acts_usage [OF e] tr(2) s0(5) by (simp add: usage_def empty_acl_map_def)
  have "[() \<mapsto> zxid t] () = Some nz"
    by (rule zxids.loaded [OF run acts(1), of _ "SetZxid nz"]) (use acts(7) in \<open>auto elim!: put_zxid.elims\<close>)
  then show ?z by simp
  have "[() \<mapsto> session_id_counter t] () = Some ns"
    by (rule counters.loaded [OF run acts(1), of _ "SetCounter ns"]) (use acts(8) in \<open>auto elim!: put_counter.elims\<close>)
  then show ?i by simp
qed

end
