(* ===== verification/Spec2Isabelle.thy ===== *)
theory Spec2Isabelle
  imports Store_Theorems Store_Wire Concurrent_Map Log_Limits Replica_Theorems Snapshot_Roundtrip
begin

text \<open>
  A verification development of RaftKeeper, a coordination service with the protocol of ZooKeeper.
\<close>

end
